(* ===== verification/Prelude.thy ===== *)
theory Prelude
  imports Main "HOL-Library.Word" "HOL-Library.Char_ord" "HOL-Library.List_Lexorder"
begin

text \<open>
  Shared vocabulary of the development: the machine integers and time types of the Go
  sources, the error values that the packages compare with \<open>errors.Is\<close>, the outcome of a
  call that leaves the process (Postgres, Redis), the generic list, sum and word facts the
  components use, and the interface of an inductive invariant.
\<close>

section \<open>Fact collections\<close>

named_theorems io_simps \<open>evaluation of calls that may fail\<close>
named_theorems sum_simps \<open>sums of quantities over rows\<close>
named_theorems redis_simps \<open>what a Redis command returns and changes\<close>
named_theorems wf_intros \<open>operations that keep the schema's constraints\<close>

section \<open>Machine integers and time\<close>

text \<open>
  \<open>uint32\<close> and \<open>uint64\<close> are words, so their addition wraps as in Go. Instants and durations
  are nanoseconds, as \<open>time.Time\<close> and \<open>time.Duration\<close> count them.
\<close>

type_synonym u32 = "32 word"
type_synonym u64 = "64 word"
type_synonym time = int
type_synonym duration = int

abbreviation Millisecond :: duration where "Millisecond \<equiv> 1000000"
abbreviation Second :: duration where "Second \<equiv> 1000000000"
abbreviation Minute :: duration where "Minute \<equiv> 60000000000"

text \<open>\<open>time.Time.Unix\<close>: whole seconds since the epoch.\<close>

definition Unix :: "time \<Rightarrow> int" where
  "Unix t = t div Second"

text \<open>The result of an \<open>int64\<close> multiplication or conversion, wrapped to 64 bits.\<close>

definition wrap_i64 :: "int \<Rightarrow> int" where
  "wrap_i64 x = (x + 2 ^ 63) mod 2 ^ 64 - 2 ^ 63"

lemma wrap_i64_id: "- (2 ^ 63) \<le> x \<Longrightarrow> x < 2 ^ 63 \<Longrightarrow> wrap_i64 x = x"
  by (simp add: wrap_i64_def)

lemma Unix_mono: "s \<le> t \<Longrightarrow> Unix s \<le> Unix t"
  unfolding Unix_def by (rule zdiv_mono1) simp_all

section \<open>Errors\<close>

text \<open>
  One constructor per sentinel error of the program. \<open>PgError\<close> carries the SQLSTATE of an
  error reported by the database, \<open>HttpError\<close> is the load generator's \<open>httpError\<close>, and
  \<open>OtherError\<close> stands for any driver or library error the code only passes on.
\<close>

datatype go_error =
    ErrCacheMiss | ErrCacheMalformed | ErrMissingDeadline | ErrSingleFlightValue
  | ErrEventNotFound | ErrInvalidEvent
  | ErrUserNotFound | ErrUserEmailTaken | ErrInvalidUser
  | ErrReservationNotFound | ErrInsufficientCapacity | ErrExceedMaxReserveQuantity
  | ErrInvalidReservationUpdateStatus | ErrRefreshEventStatusInProgress
  | ErrVirtualQueueExist | ErrMissingWhitelistKey
  | ErrQueueInProgress | ErrIdempotencyKeyReused
  | ErrMalformedRequestBody | ErrMissingBearerToken | ErrInvalidToken
  | ErrRunNotFound | ErrRunInProgress
  | Canceled | DeadlineExceeded | RedisNil
  | PgError string
  | HttpError int string
  | OtherError string

type_synonym 'a result = "go_error + 'a"

text \<open>
  What became of one call that leaves the process: it was carried out and answered, it was
  never carried out, or it was carried out and the answer was lost. The program sees an
  error in the last two cases and cannot tell them apart.
\<close>

datatype io = Done | NotSent go_error | ReplyLost go_error

fun io_err :: "io \<Rightarrow> go_error option" where
  "io_err Done = None"
| "io_err (NotSent e) = Some e"
| "io_err (ReplyLost e) = Some e"

text \<open>A call that changes the state \<open>'s\<close> and answers with an \<open>'a\<close>.\<close>

fun io_call :: "io \<Rightarrow> ('s \<Rightarrow> 's \<times> 'a) \<Rightarrow> 's \<Rightarrow> 's \<times> 'a result" where
  "io_call Done f s = (let (s', a) = f s in (s', Inr a))"
| "io_call (NotSent e) f s = (s, Inl e)"
| "io_call (ReplyLost e) f s = (fst (f s), Inl e)"

text \<open>A call that only reads.\<close>

definition io_read :: "io \<Rightarrow> 'a \<Rightarrow> 'a result" where
  "io_read x a = (case io_err x of Some e \<Rightarrow> Inl e | None \<Rightarrow> Inr a)"

lemma io_read_simps [simp]:
  "io_read Done a = Inr a" "io_read (NotSent e) a = Inl e" "io_read (ReplyLost e) a = Inl e"
  by (simp_all add: io_read_def)

lemma io_read_Inr: "io_read x a = Inr b \<longleftrightarrow> x = Done \<and> b = a"
  by (cases x) auto

text \<open>
  Whatever becomes of a call, its effect on the state is all or nothing. Every invariant of
  the state is lifted over faults by this rule.
\<close>

lemma io_call_state:
  "fst (io_call x f s) = s \<or> fst (io_call x f s) = fst (f s)"
  by (cases x) (auto split: prod.splits)

lemma io_call_inv:
  assumes "P s" and "P (fst (f s))"
  shows "P (fst (io_call x f s))"
  using io_call_state [of x f s] assms by auto

lemma io_call_Inr:
  "snd (io_call x f s) = Inr a \<longleftrightarrow> x = Done \<and> a = snd (f s)"
  by (cases x) (auto split: prod.splits)

section \<open>Lists, sums and words\<close>

lemma sum_list_filter_le:
  fixes f :: "'a \<Rightarrow> nat"
  assumes "\<And>x. x \<in> set xs \<Longrightarrow> P x \<Longrightarrow> Q x"
  shows "sum_list (map f (filter P xs)) \<le> sum_list (map f (filter Q xs))"
  using assms by (induction xs) (auto intro: trans_le_add2)

lemma sum_list_map_le:
  fixes f g :: "'a \<Rightarrow> nat"
  assumes "\<And>x. x \<in> set xs \<Longrightarrow> f x \<le> g x"
  shows "sum_list (map f xs) \<le> sum_list (map g xs)"
  using assms by (induction xs) (auto intro: add_mono)

lemma filter_removes_member:
  "x \<in> set xs \<Longrightarrow> \<not> P x \<Longrightarrow> length (filter P xs) < length xs"
  by (rule length_filter_less)

lemma distinct_map_filterI [intro]: "distinct (map f xs) \<Longrightarrow> distinct (map f (filter P xs))"
  by (induction xs) auto

text \<open>
  A row updated in place keeps its key, so uniqueness of keys survives an \<open>UPDATE\<close>.
\<close>

lemma map_key_update:
  "(\<And>x. x \<in> set xs \<Longrightarrow> k (f x) = k x) \<Longrightarrow> map k (map f xs) = map k xs"
  by simp

lemma find_Some_unique:
  assumes "distinct (map k xs)" and "x \<in> set xs"
  shows "find (\<lambda>y. k y = k x) xs = Some x"
  using assms
proof (induction xs)
  case Nil
  then show ?case by simp
next
  case (Cons y ys)
  show ?case
  proof (cases "k y = k x")
    case True
    then have "k x \<notin> set (map k ys)" using Cons.prems(1) by simp
    then have "x \<notin> set ys" by force
    with Cons.prems(2) True show ?thesis by simp
  next
    case False
    with Cons show ?thesis by auto
  qed
qed

lemma find_SomeD: "find P xs = Some x \<Longrightarrow> x \<in> set xs \<and> P x"
  by (auto simp: find_Some_iff)

lemma find_NoneD: "find P xs = None \<Longrightarrow> x \<in> set xs \<Longrightarrow> \<not> P x"
  by (auto simp: find_None_iff)

text \<open>Unsigned addition is exact while the sum fits in the width.\<close>

lemma unat_add_u32: "unat (a :: u32) + unat b < 2 ^ 32 \<Longrightarrow> unat (a + b) = unat a + unat b"
  by (simp add: unat_word_ariths)

lemma u32_less_iff: "(a :: u32) < b \<longleftrightarrow> unat a < unat b"
  by (rule word_less_nat_alt)

lemma u32_le_iff: "(a :: u32) \<le> b \<longleftrightarrow> unat a \<le> unat b"
  by (rule word_le_nat_alt)

lemma unat_of_nat_u32: "n < 2 ^ 32 \<Longrightarrow> unat (of_nat n :: u32) = n"
  by (simp add: unat_of_nat)

section \<open>Inductive invariants\<close>

text \<open>
  The interface of a state machine with an inductive invariant. Each machine of the
  development (the serialised reservation store, the interleaved transactions, the virtual
  queue, the run registry) is an interpretation, and its safety theorem is \<open>reach_inv\<close>.
\<close>

locale inductive_invariant =
  fixes init :: "'s \<Rightarrow> bool"
    and step :: "'s \<Rightarrow> 's \<Rightarrow> bool"
    and inv :: "'s \<Rightarrow> bool"
  assumes inv_init: "init s \<Longrightarrow> inv s"
    and inv_step: "step s t \<Longrightarrow> inv s \<Longrightarrow> inv t"
begin

lemma steps_inv: "step\<^sup>*\<^sup>* s t \<Longrightarrow> inv s \<Longrightarrow> inv t"
  by (induction rule: rtranclp_induct) (auto intro: inv_step)

lemma reach_inv: "init s \<Longrightarrow> step\<^sup>*\<^sup>* s t \<Longrightarrow> inv t"
  using steps_inv inv_init by blast

end

end
