(* ===== verification/Redis.thy ===== *)
theory Redis
  imports Prelude
begin

text \<open>
  The Redis commands that the repositories and their Lua scripts issue, over one keyspace.
  A key family has one Redis type (string, sorted set, hash, set), so the keyspace is kept
  as one map per type. Times are the server's milliseconds. A string key or a hash field
  with a deadline that has passed is not seen by any command that reads it; \<open>HLEN\<close> counts
  the stored fields, and \<open>reap\<close> is the server's own removal of what has expired.
  A stored string is a plain text, a decimal number, or a JSON document; a document is
  represented by the value it encodes, of type \<open>'d\<close>.
\<close>

section \<open>The keyspace\<close>

datatype 'd rstr = RText string | RNum nat | RDoc 'd

type_synonym 'd rentry = "'d rstr \<times> int option"
type_synonym rzset = "(int \<times> string) list"
type_synonym rhash = "(string \<times> string \<times> int option) list"

record 'd redis =
  r_strs :: "string \<Rightarrow> 'd rentry option"
  r_zsets :: "string \<Rightarrow> rzset"
  r_hashes :: "string \<Rightarrow> rhash"
  r_sets :: "string \<Rightarrow> string list"

definition empty_redis :: "'d redis" where
  "empty_redis = \<lparr>r_strs = (\<lambda>_. None), r_zsets = (\<lambda>_. []), r_hashes = (\<lambda>_. []), r_sets = (\<lambda>_. [])\<rparr>"

text \<open>The server's clock, in milliseconds.\<close>

definition server_ms :: "time \<Rightarrow> int" where
  "server_ms t = t div Millisecond"

fun live :: "int \<Rightarrow> int option \<Rightarrow> bool" where
  "live now None = True"
| "live now (Some d) = (now < d)"

lemma live_antimono: "live now' d \<Longrightarrow> now \<le> now' \<Longrightarrow> live now d"
  by (cases d) auto

section \<open>Strings\<close>

definition rget :: "int \<Rightarrow> string \<Rightarrow> 'd redis \<Rightarrow> 'd rstr option" where
  "rget now k r = (case r_strs r k of None \<Rightarrow> None | Some (v, d) \<Rightarrow> if live now d then Some v else None)"

definition rexists :: "int \<Rightarrow> string \<Rightarrow> 'd redis \<Rightarrow> bool" where
  "rexists now k r = (rget now k r \<noteq> None)"

definition rset :: "int option \<Rightarrow> string \<Rightarrow> 'd rstr \<Rightarrow> 'd redis \<Rightarrow> 'd redis" where
  "rset d k v r = r\<lparr>r_strs := (r_strs r)(k := Some (v, d))\<rparr>"

definition rset_nx :: "int \<Rightarrow> int option \<Rightarrow> string \<Rightarrow> 'd rstr \<Rightarrow> 'd redis \<Rightarrow> 'd redis \<times> bool" where
  "rset_nx now d k v r = (if rexists now k r then (r, False) else (rset d k v r, True))"

definition rdel :: "int \<Rightarrow> string \<Rightarrow> 'd redis \<Rightarrow> 'd redis \<times> nat" where
  "rdel now k r = (r\<lparr>r_strs := (r_strs r)(k := None)\<rparr>, if rexists now k r then 1 else 0)"

definition rexpire :: "int \<Rightarrow> nat \<Rightarrow> string \<Rightarrow> 'd redis \<Rightarrow> 'd redis \<times> nat" where
  "rexpire now secs k r =
     (case rget now k r of
        None \<Rightarrow> (r, 0)
      | Some v \<Rightarrow> (rset (Some (now + 1000 * int secs)) k v r, 1))"

section \<open>Sorted sets\<close>

text \<open>
  A sorted set is kept in its own order: by score, and by the bytes of the member where
  scores are equal.
\<close>

fun zinsert :: "int \<times> string \<Rightarrow> rzset \<Rightarrow> rzset" where
  "zinsert p [] = [p]"
| "zinsert p (q # qs) =
     (if fst p < fst q \<or> fst p = fst q \<and> snd p \<le> snd q then p # q # qs else q # zinsert p qs)"

definition zwithout :: "string \<Rightarrow> rzset \<Rightarrow> rzset" where
  "zwithout m z = filter (\<lambda>p. snd p \<noteq> m) z"

abbreviation zmembers :: "rzset \<Rightarrow> string list" where
  "zmembers z \<equiv> map snd z"

definition rzadd :: "string \<Rightarrow> int \<Rightarrow> string \<Rightarrow> 'd redis \<Rightarrow> 'd redis \<times> nat" where
  "rzadd k s m r =
     (r\<lparr>r_zsets := (r_zsets r)(k := zinsert (s, m) (zwithout m (r_zsets r k)))\<rparr>,
      if m \<in> set (zmembers (r_zsets r k)) then 0 else 1)"

definition rzrem :: "string \<Rightarrow> string \<Rightarrow> 'd redis \<Rightarrow> 'd redis \<times> nat" where
  "rzrem k m r =
     (r\<lparr>r_zsets := (r_zsets r)(k := zwithout m (r_zsets r k))\<rparr>,
      if m \<in> set (zmembers (r_zsets r k)) then 1 else 0)"

text \<open>\<open>ZREMRANGEBYSCORE key -inf s\<close>.\<close>

definition rzremrangebyscore :: "string \<Rightarrow> int \<Rightarrow> 'd redis \<Rightarrow> 'd redis" where
  "rzremrangebyscore k s r = r\<lparr>r_zsets := (r_zsets r)(k := filter (\<lambda>p. s < fst p) (r_zsets r k))\<rparr>"

text \<open>\<open>ZRANGE key 0 (n - 1)\<close>.\<close>

definition rzrange :: "string \<Rightarrow> nat \<Rightarrow> 'd redis \<Rightarrow> string list" where
  "rzrange k n r = take n (zmembers (r_zsets r k))"

definition rzcard :: "string \<Rightarrow> 'd redis \<Rightarrow> nat" where
  "rzcard k r = length (r_zsets r k)"

section \<open>Hashes with field deadlines\<close>

definition hwithout :: "string \<Rightarrow> rhash \<Rightarrow> rhash" where
  "hwithout f h = filter (\<lambda>p. fst p \<noteq> f) h"

text \<open>\<open>HSET\<close> stores the value and drops the field's deadline.\<close>

definition rhset :: "string \<Rightarrow> string \<Rightarrow> string \<Rightarrow> 'd redis \<Rightarrow> 'd redis" where
  "rhset k f v r = r\<lparr>r_hashes := (r_hashes r)(k := (f, v, None) # hwithout f (r_hashes r k))\<rparr>"

definition hfind :: "int \<Rightarrow> string \<Rightarrow> rhash \<Rightarrow> (string \<times> int option) option" where
  "hfind now f h = (case map_of h f of
       None \<Rightarrow> None
     | Some (v, d) \<Rightarrow> if live now d then Some (v, d) else None)"

text \<open>\<open>HEXPIRE key secs FIELDS 1 field\<close>; a deadline of zero seconds deletes the field.\<close>

definition rhexpire :: "int \<Rightarrow> nat \<Rightarrow> string \<Rightarrow> string \<Rightarrow> 'd redis \<Rightarrow> 'd redis" where
  "rhexpire now secs k f r =
     (case hfind now f (r_hashes r k) of
        None \<Rightarrow> r
      | Some (v, d) \<Rightarrow>
          if secs = 0 then r\<lparr>r_hashes := (r_hashes r)(k := hwithout f (r_hashes r k))\<rparr>
          else r\<lparr>r_hashes := (r_hashes r)(k :=
                  (f, v, Some (now + 1000 * int secs)) # hwithout f (r_hashes r k))\<rparr>)"

definition rhdel :: "int \<Rightarrow> string \<Rightarrow> string \<Rightarrow> 'd redis \<Rightarrow> 'd redis \<times> nat" where
  "rhdel now k f r =
     (r\<lparr>r_hashes := (r_hashes r)(k := hwithout f (r_hashes r k))\<rparr>,
      if hfind now f (r_hashes r k) = None then 0 else 1)"

text \<open>
  \<open>HTTL key FIELDS 1 field\<close>: \<open>-2\<close> when there is no such field, \<open>-1\<close> when it has no
  deadline, else the seconds that are left, rounded up.
\<close>

definition rhttl :: "int \<Rightarrow> string \<Rightarrow> string \<Rightarrow> 'd redis \<Rightarrow> int list" where
  "rhttl now k f r =
     [case hfind now f (r_hashes r k) of
        None \<Rightarrow> - 2
      | Some (v, None) \<Rightarrow> - 1
      | Some (v, Some d) \<Rightarrow> (d - now + 999) div 1000]"

definition rhlen :: "string \<Rightarrow> 'd redis \<Rightarrow> nat" where
  "rhlen k r = length (r_hashes r k)"

section \<open>Sets and the whole keyspace\<close>

definition rsadd :: "string \<Rightarrow> string \<Rightarrow> 'd redis \<Rightarrow> 'd redis \<times> nat" where
  "rsadd k m r =
     (if m \<in> set (r_sets r k) then (r, 0)
      else (r\<lparr>r_sets := (r_sets r)(k := r_sets r k @ [m])\<rparr>, 1))"

definition rsrem :: "string \<Rightarrow> string \<Rightarrow> 'd redis \<Rightarrow> 'd redis \<times> nat" where
  "rsrem k m r =
     (r\<lparr>r_sets := (r_sets r)(k := filter (\<lambda>x. x \<noteq> m) (r_sets r k))\<rparr>,
      if m \<in> set (r_sets r k) then 1 else 0)"

definition rsmembers :: "string \<Rightarrow> 'd redis \<Rightarrow> string list" where
  "rsmembers k r = r_sets r k"

definition rflushdb :: "'d redis \<Rightarrow> 'd redis" where
  "rflushdb r = empty_redis"

definition reap :: "int \<Rightarrow> 'd redis \<Rightarrow> 'd redis" where
  "reap now r = r\<lparr>
     r_strs := (\<lambda>k. case r_strs r k of None \<Rightarrow> None | Some (v, d) \<Rightarrow> if live now d then Some (v, d) else None),
     r_hashes := (\<lambda>k. filter (\<lambda>p. live now (snd (snd p))) (r_hashes r k))\<rparr>"

section \<open>Facts about sorted sets\<close>

definition zsorted :: "rzset \<Rightarrow> bool" where
  "zsorted z \<longleftrightarrow> sorted_wrt (\<lambda>p q. fst p < fst q \<or> fst p = fst q \<and> snd p \<le> snd q) z"

definition zset_ok :: "rzset \<Rightarrow> bool" where
  "zset_ok z \<longleftrightarrow> zsorted z \<and> distinct (zmembers z)"

lemma set_zinsert [simp]: "set (zinsert p z) = insert p (set z)"
  by (induction z) auto

lemma length_zinsert [simp]: "length (zinsert p z) = Suc (length z)"
  by (induction z) auto

lemma zinsert_sorted: "zsorted z \<Longrightarrow> zsorted (zinsert p z)"
  by (induction z) (auto simp: zsorted_def)

lemma distinct_zinsert:
  "distinct (zmembers z) \<Longrightarrow> snd p \<notin> set (zmembers z) \<Longrightarrow> distinct (zmembers (zinsert p z))"
  by (induction z) auto

lemma zmembers_zwithout [simp]: "zmembers (zwithout m z) = filter (\<lambda>x. x \<noteq> m) (zmembers z)"
  by (induction z) (auto simp: zwithout_def)

lemma zset_ok_zwithout: "zset_ok z \<Longrightarrow> zset_ok (zwithout m z)"
  by (auto simp: zset_ok_def zsorted_def zwithout_def intro: sorted_wrt_filter)

lemma zset_ok_filter: "zset_ok z \<Longrightarrow> zset_ok (filter P z)"
  by (auto simp: zset_ok_def zsorted_def intro: sorted_wrt_filter)

lemma zset_ok_zadd: "zset_ok z \<Longrightarrow> zset_ok (zinsert (s, m) (zwithout m z))"
proof -
  assume z: "zset_ok z"
  then have "zset_ok (zwithout m z)" by (rule zset_ok_zwithout)
  then show ?thesis
    by (auto simp: zset_ok_def intro!: zinsert_sorted distinct_zinsert simp del: zmembers_zwithout)
       (auto simp: zwithout_def)
qed

lemma zinsert_greatest:
  assumes "\<And>q. q \<in> set z \<Longrightarrow> fst q < fst p"
  shows "zinsert p z = z @ [p]"
  using assms
proof (induction z)
  case Nil
  then show ?case by simp
next
  case (Cons q qs)
  have "fst q < fst p" by (rule Cons.prems) simp
  moreover have "zinsert p qs = qs @ [p]" by (rule Cons.IH) (auto intro: Cons.prems)
  ultimately show ?case by auto
qed

lemma length_zwithout_less: "m \<in> set (zmembers z) \<Longrightarrow> length (zwithout m z) < length z"
  by (auto simp: zwithout_def intro: filter_removes_member)

section \<open>Facts about hashes\<close>

lemma hwithout_fields: "fst ` set (hwithout f h) = fst ` set h - {f}"
  by (force simp: hwithout_def)

lemma length_hwithout_le: "length (hwithout f h) \<le> length h"
  by (simp add: hwithout_def)

lemma map_of_hwithout: "map_of (hwithout f h) g = (if g = f then None else map_of h g)"
  by (induction h) (auto simp: hwithout_def)

lemma hfind_hwithout: "hfind now g (hwithout f h) = (if g = f then None else hfind now g h)"
  by (simp add: hfind_def map_of_hwithout)

lemma hfind_Cons: "hfind now g ((f, v, d) # h) =
  (if g = f then (if live now d then Some (v, d) else None) else hfind now g h)"
  by (simp add: hfind_def)

lemma rhttl_pos_iff:
  "0 < hd (rhttl now k f r) \<longleftrightarrow> (\<exists>v d. hfind now f (r_hashes r k) = Some (v, Some d))"
  by (auto simp: rhttl_def hfind_def split: option.splits if_splits)

section \<open>String keys as a store with deadlines\<close>

text \<open>
  What the caches, the sold-out flag and the sweep lock rely on: a key reads back what was
  stored until its deadline, no other key changes, and a deleted key is gone.
\<close>

locale deadline_store =
  fixes get_key :: "int \<Rightarrow> string \<Rightarrow> 's \<Rightarrow> 'v option"
    and put_key :: "int option \<Rightarrow> string \<Rightarrow> 'v \<Rightarrow> 's \<Rightarrow> 's"
    and del_key :: "int \<Rightarrow> string \<Rightarrow> 's \<Rightarrow> 's"
  assumes get_put: "get_key now k (put_key d k' v s) =
      (if k = k' then (if live now d then Some v else None) else get_key now k s)"
    and get_del: "get_key now k (del_key now' k' s) = (if k = k' then None else get_key now k s)"
begin

lemma get_put_same: "live now d \<Longrightarrow> get_key now k (put_key d k v s) = Some v"
  by (simp add: get_put)

lemma get_put_expired: "d \<le> now \<Longrightarrow> get_key now k (put_key (Some d) k v s) = None"
  by (simp add: get_put)

lemma put_then_del: "get_key now k (del_key now' k (put_key d k v s)) = None"
  by (simp add: get_del)

lemma del_other: "k \<noteq> k' \<Longrightarrow> get_key now k (del_key now' k' s) = get_key now k s"
  by (simp add: get_del)

end

interpretation rstore: deadline_store rget rset "\<lambda>now k r. fst (rdel now k r)"
  by unfold_locales (auto simp: rget_def rset_def rdel_def)

lemmas [redis_simps] = rstore.get_put rstore.get_del

text \<open>Commands on one type of key leave the other types alone.\<close>

lemma redis_frame [redis_simps, simp]:
  "r_zsets (rset d k v r) = r_zsets r" "r_hashes (rset d k v r) = r_hashes r" "r_sets (rset d k v r) = r_sets r"
  "r_zsets (fst (rdel now k r)) = r_zsets r" "r_hashes (fst (rdel now k r)) = r_hashes r"
  "r_sets (fst (rdel now k r)) = r_sets r"
  "r_strs (fst (rzadd k s m r)) = r_strs r" "r_hashes (fst (rzadd k s m r)) = r_hashes r"
  "r_sets (fst (rzadd k s m r)) = r_sets r"
  "r_strs (fst (rzrem k m r)) = r_strs r" "r_hashes (fst (rzrem k m r)) = r_hashes r"
  "r_sets (fst (rzrem k m r)) = r_sets r"
  "r_strs (rzremrangebyscore k s r) = r_strs r" "r_hashes (rzremrangebyscore k s r) = r_hashes r"
  "r_sets (rzremrangebyscore k s r) = r_sets r"
  "r_strs (rhset k f w r) = r_strs r" "r_zsets (rhset k f w r) = r_zsets r" "r_sets (rhset k f w r) = r_sets r"
  "r_strs (fst (rhdel now k f r)) = r_strs r" "r_zsets (fst (rhdel now k f r)) = r_zsets r"
  "r_sets (fst (rhdel now k f r)) = r_sets r"
  by (simp_all add: rset_def rdel_def rzadd_def rzrem_def rzremrangebyscore_def rhset_def rhdel_def)

lemma rhexpire_frame [redis_simps, simp]:
  "r_strs (rhexpire now s k f r) = r_strs r" "r_zsets (rhexpire now s k f r) = r_zsets r"
  "r_sets (rhexpire now s k f r) = r_sets r"
  by (simp_all add: rhexpire_def split: option.splits)

lemma rexpire_frame [redis_simps, simp]:
  "r_zsets (fst (rexpire now s k r)) = r_zsets r" "r_hashes (fst (rexpire now s k r)) = r_hashes r"
  "r_sets (fst (rexpire now s k r)) = r_sets r"
  by (simp_all add: rexpire_def split: option.splits)

lemma rsadd_frame [redis_simps, simp]:
  "r_strs (fst (rsadd k m r)) = r_strs r" "r_zsets (fst (rsadd k m r)) = r_zsets r"
  "r_hashes (fst (rsadd k m r)) = r_hashes r"
  by (simp_all add: rsadd_def)

lemma rsrem_frame [redis_simps, simp]:
  "r_strs (fst (rsrem k m r)) = r_strs r" "r_zsets (fst (rsrem k m r)) = r_zsets r"
  "r_hashes (fst (rsrem k m r)) = r_hashes r"
  by (simp_all add: rsrem_def)

lemma rget_cong: "r_strs r = r_strs r' \<Longrightarrow> rget now k r = rget now k r'"
  by (simp add: rget_def)

end
