(* ===== verification/Schema.thy ===== *)
theory Schema
  imports Prelude Redis
begin

text \<open>
  The data of the program: the row types that the repositories read and write, the three
  Postgres tables of \<open>src/backend/migrations\<close> with the constraints they declare, and the
  JSON documents kept in Redis. \<open>pg_wf\<close> is what the schema guarantees of every state of
  the database; each repository shows that its statements keep it.
\<close>

section \<open>Rows\<close>

record EventItem =
  ev_Id :: string
  ev_Name :: string
  ev_MaxReservePerUser :: u32
  ev_Capacity :: u32
  ev_StartSalesAt :: "time option"
  ev_CreatedAt :: time
  ev_UpdatedAt :: time

record NewEvent =
  ne_Name :: string
  ne_Capacity :: u32
  ne_MaxReservePerUser :: u32
  ne_StartSalesAt :: "time option"

record UserItem =
  us_Id :: string
  us_Name :: string
  us_Email :: string
  us_CreatedAt :: time
  us_UpdatedAt :: time

record NewUser =
  nu_Name :: string
  nu_Email :: string
  nu_PasswordHash :: string

datatype ReservationStatus = StatusHeld | StatusConfirmed | StatusReleased | StatusExpired

text \<open>
  The columns that the schema declares \<open>NOT NULL\<close> are plain values, the others options.
\<close>

record ReservationItem =
  res_Id :: string
  res_UserId :: string
  res_EventId :: string
  res_Quantity :: u32
  res_Status :: ReservationStatus
  res_IdempotencyKey :: "string option"
  res_ReservedAt :: time
  res_ExpiresAt :: time
  res_ConfirmedAt :: "time option"
  res_ReleasedAt :: "time option"
  res_CreatedAt :: time
  res_UpdatedAt :: time

record event_row =
  er_item :: EventItem
  er_deleted_at :: "time option"

record user_row =
  ur_item :: UserItem
  ur_password_hash :: string

record pg =
  events_tbl :: "event_row list"
  users_tbl :: "user_row list"
  reservations_tbl :: "ReservationItem list"

datatype doc = DocEvent EventItem | DocUser UserItem | DocReservation ReservationItem

type_synonym cache = "doc redis"

abbreviation er_id :: "event_row \<Rightarrow> string" where "er_id e \<equiv> ev_Id (er_item e)"
abbreviation ur_id :: "user_row \<Rightarrow> string" where "ur_id u \<equiv> us_Id (ur_item u)"

definition empty_pg :: pg where
  "empty_pg = \<lparr>events_tbl = [], users_tbl = [], reservations_tbl = []\<rparr>"

section \<open>Constraints\<close>

text \<open>A positive \<open>INTEGER\<close>.\<close>

definition int4_pos :: "u32 \<Rightarrow> bool" where
  "int4_pos w \<longleftrightarrow> 0 < unat w \<and> unat w < 2 ^ 31"

text \<open>\<open>btrim(name) <> ''\<close>.\<close>

definition name_not_blank :: "string \<Rightarrow> bool" where
  "name_not_blank s \<longleftrightarrow> list_ex (\<lambda>c. c \<noteq> CHR '' '') s"

definition posix_space :: "char \<Rightarrow> bool" where
  "posix_space c \<longleftrightarrow> c = CHR '' '' \<or> (9 \<le> (of_char c :: nat) \<and> (of_char c :: nat) \<le> 13)"

text \<open>\<open>email ~* '^[^@[:space:]]+@[^@[:space:]]+\.[^@[:space:]]+$'\<close>.\<close>

definition email_format :: "string \<Rightarrow> bool" where
  "email_format s \<longleftrightarrow>
     (let l = takeWhile (\<lambda>c. c \<noteq> CHR ''@'') s; rest = dropWhile (\<lambda>c. c \<noteq> CHR ''@'') s; d = tl rest
      in l \<noteq> [] \<and> rest \<noteq> [] \<and> list_all (\<lambda>c. \<not> posix_space c) l
         \<and> list_all (\<lambda>c. c \<noteq> CHR ''@'' \<and> \<not> posix_space c) d
         \<and> list_ex (\<lambda>i. d ! i = CHR ''.'') [1..<length d - 1])"

text \<open>\<open>lower(email)\<close>, for the ASCII letters.\<close>

definition lower_char :: "char \<Rightarrow> char" where
  "lower_char c = (let n = (of_char c :: nat) in if 65 \<le> n \<and> n \<le> 90 then char_of (n + 32) else c)"

definition lower :: "string \<Rightarrow> string" where
  "lower s = map lower_char s"

definition event_row_ok :: "event_row \<Rightarrow> bool" where
  "event_row_ok e \<longleftrightarrow> name_not_blank (ev_Name (er_item e)) \<and> int4_pos (ev_Capacity (er_item e))
     \<and> int4_pos (ev_MaxReservePerUser (er_item e))"

definition user_row_ok :: "user_row \<Rightarrow> bool" where
  "user_row_ok u \<longleftrightarrow> name_not_blank (us_Name (ur_item u)) \<and> email_format (us_Email (ur_item u))"

text \<open>The key of the partial unique index on \<open>reservations\<close>, migration 000006.\<close>

definition idem_key :: "ReservationItem \<Rightarrow> string \<times> string \<times> string option" where
  "idem_key r = (res_EventId r, res_UserId r, res_IdempotencyKey r)"

definition events_ok :: "event_row list \<Rightarrow> bool" where
  "events_ok es \<longleftrightarrow> list_all event_row_ok es \<and> distinct (map er_id es)"

definition users_ok :: "user_row list \<Rightarrow> bool" where
  "users_ok us \<longleftrightarrow> list_all user_row_ok us \<and> distinct (map ur_id us)
     \<and> distinct (map (\<lambda>u. lower (us_Email (ur_item u))) us)"

definition reservations_ok :: "pg \<Rightarrow> bool" where
  "reservations_ok db \<longleftrightarrow>
     list_all (\<lambda>r. int4_pos (res_Quantity r) \<and> res_EventId r \<in> set (map er_id (events_tbl db))
        \<and> res_UserId r \<in> set (map ur_id (users_tbl db))) (reservations_tbl db)
     \<and> distinct (map res_Id (reservations_tbl db))
     \<and> distinct (map idem_key (filter (\<lambda>r. res_IdempotencyKey r \<noteq> None) (reservations_tbl db)))"

definition pg_wf :: "pg \<Rightarrow> bool" where
  "pg_wf db \<longleftrightarrow> events_ok (events_tbl db) \<and> users_ok (users_tbl db) \<and> reservations_ok db"

lemma pg_wf_empty [simp]: "pg_wf empty_pg"
  by (simp add: pg_wf_def events_ok_def users_ok_def reservations_ok_def empty_pg_def)

section \<open>Seats in use\<close>

text \<open>
  The condition that every statement over active reservations repeats:
  \<open>(status = 'held' AND expires_at > now()) OR status = 'confirmed'\<close>.
\<close>

definition active_at :: "time \<Rightarrow> ReservationItem \<Rightarrow> bool" where
  "active_at now r \<longleftrightarrow> (res_Status r = StatusHeld \<and> now < res_ExpiresAt r) \<or> res_Status r = StatusConfirmed"

abbreviation quantity_of :: "ReservationItem \<Rightarrow> nat" where
  "quantity_of r \<equiv> unat (res_Quantity r)"

definition seats_where :: "(ReservationItem \<Rightarrow> bool) \<Rightarrow> ReservationItem list \<Rightarrow> nat" where
  "seats_where P rs = sum_list (map quantity_of (filter P rs))"

definition active_seats :: "time \<Rightarrow> string \<Rightarrow> ReservationItem list \<Rightarrow> nat" where
  "active_seats now e rs = seats_where (\<lambda>r. res_EventId r = e \<and> active_at now r) rs"

definition user_active_seats :: "time \<Rightarrow> string \<Rightarrow> string \<Rightarrow> ReservationItem list \<Rightarrow> nat" where
  "user_active_seats now e u rs =
     seats_where (\<lambda>r. res_EventId r = e \<and> res_UserId r = u \<and> active_at now r) rs"

lemma active_at_antimono: "active_at t' r \<Longrightarrow> t \<le> t' \<Longrightarrow> active_at t r"
  by (auto simp: active_at_def)

lemma seats_where_mono:
  "(\<And>r. r \<in> set rs \<Longrightarrow> P r \<Longrightarrow> Q r) \<Longrightarrow> seats_where P rs \<le> seats_where Q rs"
  unfolding seats_where_def by (rule sum_list_filter_le)

lemma seats_where_simps [sum_simps, simp]:
  "seats_where P [] = 0"
  "seats_where P (r # rs) = (if P r then quantity_of r else 0) + seats_where P rs"
  "seats_where P (rs @ rs') = seats_where P rs + seats_where P rs'"
  by (simp_all add: seats_where_def)

text \<open>Seats only lapse with time: no clock reading makes a reservation active again.\<close>

lemma active_seats_antimono: "t \<le> t' \<Longrightarrow> active_seats t' e rs \<le> active_seats t e rs"
  unfolding active_seats_def by (rule seats_where_mono) (auto intro: active_at_antimono)

lemma user_active_seats_antimono: "t \<le> t' \<Longrightarrow> user_active_seats t' e u rs \<le> user_active_seats t e u rs"
  unfolding user_active_seats_def by (rule seats_where_mono) (auto intro: active_at_antimono)

lemma active_seats_simps [sum_simps, simp]:
  "active_seats t e [] = 0"
  "active_seats t e (rs @ rs') = active_seats t e rs + active_seats t e rs'"
  "active_seats t e (r # rs) = (if res_EventId r = e \<and> active_at t r then quantity_of r else 0) + active_seats t e rs"
  by (simp_all add: active_seats_def)

lemma user_active_seats_simps [sum_simps, simp]:
  "user_active_seats t e u [] = 0"
  "user_active_seats t e u (rs @ rs') = user_active_seats t e u rs + user_active_seats t e u rs'"
  "user_active_seats t e u (r # rs) =
     (if res_EventId r = e \<and> res_UserId r = u \<and> active_at t r then quantity_of r else 0)
     + user_active_seats t e u rs"
  by (simp_all add: user_active_seats_def)

text \<open>
  An \<open>UPDATE\<close> that changes no quantity, owner or event and makes no row active adds no seats.
\<close>

lemma seats_where_map_le:
  assumes "\<And>r. r \<in> set rs \<Longrightarrow> P (f r) \<Longrightarrow> P r \<and> quantity_of (f r) \<le> quantity_of r"
  shows "seats_where P (map f rs) \<le> seats_where P rs"
  using assms by (induction rs) (auto intro!: add_mono)

lemma seats_where_map_eq:
  assumes "\<And>r. r \<in> set rs \<Longrightarrow> P (f r) = P r \<and> quantity_of (f r) = quantity_of r"
  shows "seats_where P (map f rs) = seats_where P rs"
  using assms by (induction rs) auto

section \<open>Well-formed states, read back\<close>

lemma pg_wfD:
  assumes "pg_wf db"
  shows "events_ok (events_tbl db)" "users_ok (users_tbl db)" "reservations_ok db"
  using assms by (simp_all add: pg_wf_def)

lemma event_bounds:
  assumes "pg_wf db" and "e \<in> set (events_tbl db)"
  shows "unat (ev_Capacity (er_item e)) < 2 ^ 31" and "unat (ev_MaxReservePerUser (er_item e)) < 2 ^ 31"
    and "0 < unat (ev_Capacity (er_item e))"
  using assms by (auto simp: pg_wf_def events_ok_def list_all_iff event_row_ok_def int4_pos_def)

lemma event_unique:
  assumes "pg_wf db" and "e \<in> set (events_tbl db)" and "e' \<in> set (events_tbl db)" and "er_id e = er_id e'"
  shows "e = e'"
  using assms by (auto simp: pg_wf_def events_ok_def dest: eq_key_imp_eq_value inj_onD [OF distinct_map [THEN iffD1, THEN conjunct2]])

lemma find_event:
  assumes "pg_wf db" and "e \<in> set (events_tbl db)"
  shows "find (\<lambda>y. er_id y = er_id e) (events_tbl db) = Some e"
  using assms by (auto simp: pg_wf_def events_ok_def intro: find_Some_unique)

section \<open>A small database\<close>

text \<open>One event with two seats, two per user at most, and two users: used to show that hypotheses can hold.\<close>

definition demo_event :: event_row where
  "demo_event = \<lparr>er_item = \<lparr>ev_Id = ''e1'', ev_Name = ''Jazz'', ev_MaxReservePerUser = 2, ev_Capacity = 2,
     ev_StartSalesAt = None, ev_CreatedAt = 0, ev_UpdatedAt = 0\<rparr>, er_deleted_at = None\<rparr>"

definition demo_user :: "string \<Rightarrow> string \<Rightarrow> user_row" where
  "demo_user i m = \<lparr>ur_item = \<lparr>us_Id = i, us_Name = ''Ava'', us_Email = m, us_CreatedAt = 0, us_UpdatedAt = 0\<rparr>,
     ur_password_hash = ''x''\<rparr>"

definition demo_db :: pg where
  "demo_db = \<lparr>events_tbl = [demo_event], users_tbl = [demo_user ''u1'' ''a@x.io'', demo_user ''u2'' ''b@x.io''],
     reservations_tbl = []\<rparr>"

definition demo_hold :: "string \<Rightarrow> u32 \<Rightarrow> string option \<Rightarrow> time \<Rightarrow> ReservationItem" where
  "demo_hold i n k d = \<lparr>res_Id = i, res_UserId = ''u1'', res_EventId = ''e1'', res_Quantity = n, res_Status = StatusHeld,
     res_IdempotencyKey = k, res_ReservedAt = 0, res_ExpiresAt = d, res_ConfirmedAt = None, res_ReleasedAt = None,
     res_CreatedAt = 0, res_UpdatedAt = 0\<rparr>"

lemmas demo_defs = demo_event_def demo_user_def demo_db_def demo_hold_def

lemmas schema_defs = pg_wf_def events_ok_def users_ok_def reservations_ok_def event_row_ok_def user_row_ok_def
  int4_pos_def name_not_blank_def idem_key_def

lemma demo_emails: "email_format ''a@x.io''" "email_format ''b@x.io''" "lower ''a@x.io'' = ''a@x.io''" "lower ''b@x.io'' = ''b@x.io''"
  by (simp_all add: email_format_def posix_space_def Let_def lower_def lower_char_def upt_rec)

lemma demo_db_wf: "pg_wf demo_db"
  by (simp add: schema_defs demo_defs demo_emails)

lemma demo_db_hold_wf: "pg_wf (demo_db\<lparr>reservations_tbl := [demo_hold ''r1'' 1 (Some ''k'') 10]\<rparr>)"
  by (simp add: schema_defs demo_defs demo_emails)

end
