(* ===== verification/PostgresReservation.thy ===== *)
theory PostgresReservation
  imports Schema
begin

text \<open>
  \<open>src/backend/repository/reservations/postgresReservationRepository.go\<close>: the transactions
  over the reservation rows. Every definition takes what became of each statement it sends
  (\<open>io\<close>), the transaction's \<open>now()\<close>, the process clock where the code reads it and the
  identifier the database draws for a new row. A transaction acts on the database as one
  step here; theory \<open>Interleaving\<close> splits it at the statements.
\<close>

section \<open>Reading\<close>

definition reservationTTL :: duration where
  "reservationTTL = 10 * Minute"

definition pg_GetReservation :: "io \<Rightarrow> string \<Rightarrow> pg \<Rightarrow> ReservationItem result" where
  "pg_GetReservation x rid db =
     (case io_err x of
        Some e \<Rightarrow> Inl e
      | None \<Rightarrow> (case find (\<lambda>r. res_Id r = rid) (reservations_tbl db) of
                   None \<Rightarrow> Inl ErrReservationNotFound
                 | Some r \<Rightarrow> Inr r))"

definition pg_GetTotalReserved :: "io \<Rightarrow> time \<Rightarrow> string \<Rightarrow> pg \<Rightarrow> nat result" where
  "pg_GetTotalReserved x now eventId db = io_read x (active_seats now eventId (reservations_tbl db))"

definition pg_GetReservationByIdempotencyKey ::
  "io \<Rightarrow> string \<Rightarrow> string \<Rightarrow> string \<Rightarrow> pg \<Rightarrow> ReservationItem result" where
  "pg_GetReservationByIdempotencyKey x eventId userId key db =
     (case io_err x of
        Some e \<Rightarrow> Inl e
      | None \<Rightarrow>
          (case filter (\<lambda>r. res_EventId r = eventId \<and> res_UserId r = userId
                          \<and> res_IdempotencyKey r = Some key) (reservations_tbl db) of
             [] \<Rightarrow> Inl ErrReservationNotFound
           | [r] \<Rightarrow> Inr r
           | _ \<Rightarrow> Inl (OtherError ''too many rows in result set'')))"

section \<open>ReserveEvent\<close>

text \<open>Scanning a \<open>bigint\<close> into a \<open>uint32\<close> fails when the value does not fit.\<close>

definition scan_u32 :: "nat \<Rightarrow> u32 result" where
  "scan_u32 n = (if n < 2 ^ 32 then Inr (of_nat n) else Inl (OtherError ''value out of range for uint32''))"

definition select_event_for_update :: "io \<Rightarrow> string \<Rightarrow> pg \<Rightarrow> (u32 \<times> u32) result" where
  "select_event_for_update x eventId db =
     (case io_err x of
        Some e \<Rightarrow> Inl e
      | None \<Rightarrow> (case find (\<lambda>e. er_id e = eventId) (events_tbl db) of
                   None \<Rightarrow> Inl ErrEventNotFound
                 | Some e \<Rightarrow> Inr (ev_Capacity (er_item e), ev_MaxReservePerUser (er_item e))))"

definition select_active_sums :: "io \<Rightarrow> time \<Rightarrow> string \<Rightarrow> string \<Rightarrow> pg \<Rightarrow> (u32 \<times> u32) result" where
  "select_active_sums x now eventId userId db =
     (case io_err x of
        Some e \<Rightarrow> Inl e
      | None \<Rightarrow>
          (case scan_u32 (active_seats now eventId (reservations_tbl db)) of
             Inl e \<Rightarrow> Inl e
           | Inr dbTotal \<Rightarrow>
               (case scan_u32 (user_active_seats now eventId userId (reservations_tbl db)) of
                  Inl e \<Rightarrow> Inl e
                | Inr dbUser \<Rightarrow> Inr (dbTotal, dbUser))))"

text \<open>The two checks between the sums and the insert, on \<open>uint32\<close> values.\<close>

definition reserve_check :: "u32 \<Rightarrow> u32 \<Rightarrow> u32 \<Rightarrow> u32 \<Rightarrow> u32 \<Rightarrow> go_error option" where
  "reserve_check dbCapacity dbMaxReservePerUser dbActiveReserved dbActivePerUserReserved quantity =
     (if dbMaxReservePerUser < dbActivePerUserReserved + quantity then Some ErrExceedMaxReserveQuantity
      else if dbCapacity < dbActiveReserved + quantity then Some ErrInsufficientCapacity
      else None)"

definition conflicting_row :: "string \<Rightarrow> string \<Rightarrow> string option \<Rightarrow> pg \<Rightarrow> ReservationItem option" where
  "conflicting_row eventId userId key db =
     (case key of
        None \<Rightarrow> None
      | Some k \<Rightarrow> find (\<lambda>r. res_EventId r = eventId \<and> res_UserId r = userId
                             \<and> res_IdempotencyKey r = Some k) (reservations_tbl db))"

text \<open>
  \<open>INSERT ... ON CONFLICT (event_id, user_id, idempotency_key) DO UPDATE SET idempotency_key =
  EXCLUDED.idempotency_key RETURNING ...\<close>, with the row's checks, the unique index, the
  primary key, the two foreign keys and the trigger that sets \<open>updated_at\<close>.
\<close>

definition insert_reservation ::
  "time \<Rightarrow> string \<Rightarrow> string \<Rightarrow> string \<Rightarrow> u32 \<Rightarrow> string option \<Rightarrow> time \<Rightarrow> time \<Rightarrow> pg
    \<Rightarrow> (pg \<times> ReservationItem) result" where
  "insert_reservation now new_id eventId userId quantity key reservedAt expiresAt db =
     (if 2 ^ 31 \<le> unat quantity then Inl (OtherError ''value out of range for int4'')
      else if quantity = 0 then Inl (PgError ''23514'')
      else case conflicting_row eventId userId key db of
        Some r \<Rightarrow>
          let r' = r\<lparr>res_UpdatedAt := now\<rparr>
          in Inr (db\<lparr>reservations_tbl :=
                     map (\<lambda>x. if res_Id x = res_Id r then r' else x) (reservations_tbl db)\<rparr>, r')
      | None \<Rightarrow>
          if new_id \<in> set (map res_Id (reservations_tbl db)) then Inl (PgError ''23505'')
          else if eventId \<notin> set (map er_id (events_tbl db)) then Inl (PgError ''23503'')
          else if userId \<notin> set (map ur_id (users_tbl db)) then Inl (PgError ''23503'')
          else
            let r = \<lparr>res_Id = new_id, res_UserId = userId, res_EventId = eventId, res_Quantity = quantity,
                     res_Status = StatusHeld, res_IdempotencyKey = key, res_ReservedAt = reservedAt,
                     res_ExpiresAt = expiresAt, res_ConfirmedAt = None, res_ReleasedAt = None,
                     res_CreatedAt = now, res_UpdatedAt = now\<rparr>
            in Inr (db\<lparr>reservations_tbl := reservations_tbl db @ [r]\<rparr>, r))"

datatype reserve_call = RE_Begin | RE_SelectEvent | RE_SumActive | RE_Insert | RE_Commit

text \<open>The result is the new database, \<open>isCapped\<close>, and the reservation or the error.\<close>

definition pg_ReserveEvent ::
  "(reserve_call \<Rightarrow> io) \<Rightarrow> time \<Rightarrow> time \<Rightarrow> string \<Rightarrow> string \<Rightarrow> string \<Rightarrow> u32 \<Rightarrow> string option \<Rightarrow> pg
    \<Rightarrow> pg \<times> bool \<times> ReservationItem result" where
  "pg_ReserveEvent flt now wall new_id eventId userId quantity key db =
     (case io_err (flt RE_Begin) of
        Some e \<Rightarrow> (db, False, Inl e)
      | None \<Rightarrow>
     (case select_event_for_update (flt RE_SelectEvent) eventId db of
        Inl e \<Rightarrow> (db, False, Inl e)
      | Inr (dbCapacity, dbMaxReservePerUser) \<Rightarrow>
     if dbMaxReservePerUser < quantity then (db, False, Inl ErrExceedMaxReserveQuantity)
     else
     (case select_active_sums (flt RE_SumActive) now eventId userId db of
        Inl e \<Rightarrow> (db, False, Inl e)
      | Inr (dbActiveReserved, dbActivePerUserReserved) \<Rightarrow>
     let isCapped = (dbCapacity \<le> dbActiveReserved) in
     (case reserve_check dbCapacity dbMaxReservePerUser dbActiveReserved dbActivePerUserReserved quantity of
        Some e \<Rightarrow> (db, isCapped, Inl e)
      | None \<Rightarrow>
     (case io_err (flt RE_Insert) of
        Some e \<Rightarrow> (db, isCapped, Inl e)
      | None \<Rightarrow>
     (case insert_reservation now new_id eventId userId quantity key wall (wall + reservationTTL) db of
        Inl e \<Rightarrow> (db, isCapped, Inl e)
      | Inr (db', reservationItem) \<Rightarrow>
     (case flt RE_Commit of
        Done \<Rightarrow> (db', dbCapacity \<le> dbActiveReserved + quantity, Inr reservationItem)
      | NotSent e \<Rightarrow> (db, isCapped, Inl e)
      | ReplyLost e \<Rightarrow> (db', isCapped, Inl e))))))))"

section \<open>UpdateReservation and RefreshEventStatus\<close>

datatype update_call = UR_Begin | UR_Update | UR_Commit

definition set_status :: "ReservationStatus \<Rightarrow> time \<Rightarrow> time \<Rightarrow> ReservationItem \<Rightarrow> ReservationItem" where
  "set_status status now wall r =
     (if status = StatusConfirmed
      then r\<lparr>res_Status := status, res_ConfirmedAt := Some wall, res_UpdatedAt := now\<rparr>
      else r\<lparr>res_Status := status, res_ReleasedAt := Some wall, res_UpdatedAt := now\<rparr>)"

definition updatable :: "time \<Rightarrow> string \<Rightarrow> string \<Rightarrow> ReservationItem \<Rightarrow> bool" where
  "updatable now userId rid r \<longleftrightarrow>
     res_Id r = rid \<and> res_UserId r = userId \<and> res_Status r = StatusHeld \<and> now < res_ExpiresAt r"

definition pg_UpdateReservation ::
  "(update_call \<Rightarrow> io) \<Rightarrow> time \<Rightarrow> time \<Rightarrow> string \<Rightarrow> string \<Rightarrow> ReservationStatus \<Rightarrow> pg \<Rightarrow> pg \<times> string result" where
  "pg_UpdateReservation flt now wall userId rid status db =
     (if status \<notin> {StatusConfirmed, StatusReleased} then (db, Inl ErrInvalidReservationUpdateStatus)
      else case io_err (flt UR_Begin) of
        Some e \<Rightarrow> (db, Inl e)
      | None \<Rightarrow>
     (case io_err (flt UR_Update) of
        Some e \<Rightarrow> (db, Inl e)
      | None \<Rightarrow>
     (case find (updatable now userId rid) (reservations_tbl db) of
        None \<Rightarrow> (db, Inl ErrReservationNotFound)
      | Some r \<Rightarrow>
          io_call (flt UR_Commit)
            (\<lambda>db. (db\<lparr>reservations_tbl := map (\<lambda>x. if updatable now userId rid x then set_status status now wall x else x)
                                              (reservations_tbl db)\<rparr>,
                   res_EventId r)) db)))"

definition hold_lapsed :: "time \<Rightarrow> ReservationItem \<Rightarrow> bool" where
  "hold_lapsed now r \<longleftrightarrow> res_Status r = StatusHeld \<and> res_ExpiresAt r \<le> now"

text \<open>The sweep's \<open>SELECT event_id, count(*) FROM expired GROUP BY event_id\<close> and the loop over it.\<close>

definition expired_groups :: "time \<Rightarrow> ReservationItem list \<Rightarrow> (string \<times> nat) list" where
  "expired_groups now rs =
     (let expired = filter (hold_lapsed now) rs
      in map (\<lambda>e. (e, length (filter (\<lambda>r. res_EventId r = e) expired))) (remdups (map res_EventId expired)))"

definition expire_row :: "time \<Rightarrow> ReservationItem \<Rightarrow> ReservationItem" where
  "expire_row now r =
     (if hold_lapsed now r
      then r\<lparr>res_Status := StatusExpired, res_ReleasedAt := Some now, res_UpdatedAt := now\<rparr> else r)"

definition pg_RefreshEventStatus :: "io \<Rightarrow> time \<Rightarrow> pg \<Rightarrow> pg \<times> (string list \<times> nat) result" where
  "pg_RefreshEventStatus x now db =
     io_call x
       (\<lambda>db. (db\<lparr>reservations_tbl := map (expire_row now) (reservations_tbl db)\<rparr>,
              let groups = expired_groups now (reservations_tbl db)
              in (map fst groups, fold (\<lambda>(e, n) acc. acc + n) groups 0))) db"

section \<open>What the store promises\<close>

text \<open>No event has more active seats than its capacity.\<close>

definition within_capacity :: "time \<Rightarrow> pg \<Rightarrow> bool" where
  "within_capacity t db \<longleftrightarrow>
     list_all (\<lambda>e. active_seats t (er_id e) (reservations_tbl db) \<le> unat (ev_Capacity (er_item e))) (events_tbl db)"

text \<open>No user holds more active seats of an event than its per-user maximum.\<close>

definition within_quota :: "time \<Rightarrow> pg \<Rightarrow> bool" where
  "within_quota t db \<longleftrightarrow>
     list_all (\<lambda>e. list_all (\<lambda>u. user_active_seats t (er_id e) (ur_id u) (reservations_tbl db)
                                   \<le> unat (ev_MaxReservePerUser (er_item e))) (users_tbl db)) (events_tbl db)"

text \<open>
  The weaker bound that holds even where an operator lowered a capacity below what was sold:
  the active seats of an event stay below \<open>2^31\<close>, the largest capacity the column can hold.
\<close>

definition seats_bounded :: "time \<Rightarrow> pg \<Rightarrow> bool" where
  "seats_bounded t db \<longleftrightarrow> list_all (\<lambda>e. active_seats t (er_id e) (reservations_tbl db) < 2 ^ 31) (events_tbl db)"

text \<open>The reserve decision on unbounded naturals, with no machine arithmetic and no faults.\<close>

definition reserve_reference ::
  "time \<Rightarrow> time \<Rightarrow> string \<Rightarrow> string \<Rightarrow> string \<Rightarrow> u32 \<Rightarrow> string option \<Rightarrow> pg
    \<Rightarrow> pg \<times> bool \<times> ReservationItem result" where
  "reserve_reference now wall new_id eventId userId quantity key db =
     (case find (\<lambda>e. er_id e = eventId) (events_tbl db) of
        None \<Rightarrow> (db, False, Inl ErrEventNotFound)
      | Some e \<Rightarrow>
          let capacity = unat (ev_Capacity (er_item e));
              quota = unat (ev_MaxReservePerUser (er_item e));
              sold = active_seats now eventId (reservations_tbl db);
              mine = user_active_seats now eventId userId (reservations_tbl db);
              n = unat quantity
          in if quota < n then (db, False, Inl ErrExceedMaxReserveQuantity)
             else if quota < mine + n then (db, capacity \<le> sold, Inl ErrExceedMaxReserveQuantity)
             else if capacity < sold + n then (db, capacity \<le> sold, Inl ErrInsufficientCapacity)
             else (case insert_reservation now new_id eventId userId quantity key wall (wall + reservationTTL) db of
                     Inl err \<Rightarrow> (db, capacity \<le> sold, Inl err)
                   | Inr (db', r) \<Rightarrow> (db', capacity \<le> sold + n, Inr r)))"

section \<open>The insert\<close>

lemma conflicting_row_SomeD:
  assumes "conflicting_row e u k db = Some r"
  shows "r \<in> set (reservations_tbl db)" "res_EventId r = e" "res_UserId r = u" "res_IdempotencyKey r = k" "k \<noteq> None"
  using assms by (auto simp: conflicting_row_def split: option.splits dest!: find_SomeD)

lemma insert_reservation_InrE:
  assumes "insert_reservation now i e u q k ra ea db = Inr (db', r)"
  obtains (conflict) r0 where "conflicting_row e u k db = Some r0" "r = r0\<lparr>res_UpdatedAt := now\<rparr>"
      "db' = db\<lparr>reservations_tbl := map (\<lambda>x. if res_Id x = res_Id r0 then r else x) (reservations_tbl db)\<rparr>"
  | (fresh) "conflicting_row e u k db = None" "i \<notin> set (map res_Id (reservations_tbl db))"
      "e \<in> set (map er_id (events_tbl db))" "u \<in> set (map ur_id (users_tbl db))" "int4_pos q"
      "r = \<lparr>res_Id = i, res_UserId = u, res_EventId = e, res_Quantity = q, res_Status = StatusHeld,
            res_IdempotencyKey = k, res_ReservedAt = ra, res_ExpiresAt = ea, res_ConfirmedAt = None,
            res_ReleasedAt = None, res_CreatedAt = now, res_UpdatedAt = now\<rparr>"
      "db' = db\<lparr>reservations_tbl := reservations_tbl db @ [r]\<rparr>"
  using assms unfolding insert_reservation_def int4_pos_def
  by (fastforce simp: Let_def unat_gt_0 not_le split: option.splits if_splits)

text \<open>
  An \<open>UPDATE\<close> that keeps identity, owner, event, key and quantity of every row keeps the
  schema's constraints.
\<close>

lemma pg_wf_map_rows [wf_intros]:
  assumes wf: "pg_wf db"
    and keep: "\<And>r. r \<in> set (reservations_tbl db) \<Longrightarrow>
      res_Id (f r) = res_Id r \<and> res_UserId (f r) = res_UserId r \<and> res_EventId (f r) = res_EventId r
      \<and> res_Quantity (f r) = res_Quantity r \<and> res_IdempotencyKey (f r) = res_IdempotencyKey r"
  shows "pg_wf (db\<lparr>reservations_tbl := map f (reservations_tbl db)\<rparr>)"
proof -
  let ?rs = "reservations_tbl db"
  have "map res_Id (map f ?rs) = map res_Id ?rs"
    by (rule map_key_update) (simp add: keep)
  moreover have "map idem_key (filter (\<lambda>r. res_IdempotencyKey r \<noteq> None) (map f ?rs))
      = map idem_key (filter (\<lambda>r. res_IdempotencyKey r \<noteq> None) ?rs)"
  proof -
    have "filter (\<lambda>r. res_IdempotencyKey r \<noteq> None) (map f ?rs)
        = map f (filter (\<lambda>r. res_IdempotencyKey r \<noteq> None) ?rs)"
      unfolding filter_map comp_def by (rule arg_cong [where f = "map f"], rule filter_cong) (auto simp: keep)
    then show ?thesis by (auto simp: idem_key_def keep)
  qed
  ultimately show ?thesis
    using wf keep by (simp add: pg_wf_def reservations_ok_def list_all_iff del: map_map)
qed

lemma conflict_same_row:
  assumes "pg_wf db" and "r0 \<in> set (reservations_tbl db)" and "x \<in> set (reservations_tbl db)"
    and "res_Id x = res_Id r0"
  shows "x = r0"
  using assms by (auto simp: pg_wf_def reservations_ok_def distinct_map dest: inj_onD)

text \<open>So the conflict path rewrites exactly the conflicting row.\<close>

lemma conflict_map:
  assumes "pg_wf db" and "r0 \<in> set (reservations_tbl db)"
  shows "map (\<lambda>x. if res_Id x = res_Id r0 then g r0 else x) (reservations_tbl db)
    = map (\<lambda>x. if res_Id x = res_Id r0 then g x else x) (reservations_tbl db)"
  by (rule map_cong [OF refl]) (use conflict_same_row [OF assms] in auto)

abbreviation touch :: "time \<Rightarrow> string \<Rightarrow> ReservationItem \<Rightarrow> ReservationItem" where
  "touch now i x \<equiv> (if res_Id x = i then x\<lparr>res_UpdatedAt := now\<rparr> else x)"

lemma insert_reservation_wfE:
  assumes "pg_wf db" and "insert_reservation now i e u q k ra ea db = Inr (db', r)"
  obtains (conflict) r0 where "conflicting_row e u k db = Some r0" "r = r0\<lparr>res_UpdatedAt := now\<rparr>"
      "db' = db\<lparr>reservations_tbl := map (touch now (res_Id r0)) (reservations_tbl db)\<rparr>"
  | (fresh) "conflicting_row e u k db = None" "i \<notin> set (map res_Id (reservations_tbl db))"
      "e \<in> set (map er_id (events_tbl db))" "u \<in> set (map ur_id (users_tbl db))" "int4_pos q"
      "r = \<lparr>res_Id = i, res_UserId = u, res_EventId = e, res_Quantity = q, res_Status = StatusHeld,
            res_IdempotencyKey = k, res_ReservedAt = ra, res_ExpiresAt = ea, res_ConfirmedAt = None,
            res_ReleasedAt = None, res_CreatedAt = now, res_UpdatedAt = now\<rparr>"
      "db' = db\<lparr>reservations_tbl := reservations_tbl db @ [r]\<rparr>"
  using assms(2)
proof (cases rule: insert_reservation_InrE)
  case (conflict r0)
  have "db' = db\<lparr>reservations_tbl := map (touch now (res_Id r0)) (reservations_tbl db)\<rparr>"
    unfolding conflict(3) conflict(2)
    using conflict_map [OF assms(1) conflicting_row_SomeD(1) [OF conflict(1)], of "\<lambda>x. x\<lparr>res_UpdatedAt := now\<rparr>"]
    by (rule arg_cong)
  with conflict(1,2) show ?thesis by (rule that(1))
next
  case fresh
  then show ?thesis by (rule that(2))
qed

lemma insert_reservation_wf:
  assumes wf: "pg_wf db" and ins: "insert_reservation now i e u q k ra ea db = Inr (db', r)"
  shows "pg_wf db'"
  using wf ins
proof (cases rule: insert_reservation_wfE)
  case (conflict r0)
  have "pg_wf (db\<lparr>reservations_tbl := map (touch now (res_Id r0)) (reservations_tbl db)\<rparr>)"
    by (rule pg_wf_map_rows [OF wf]) simp
  then show ?thesis by (simp only: conflict(3))
next
  case fresh
  have "idem_key r \<notin> idem_key ` set (filter (\<lambda>r. res_IdempotencyKey r \<noteq> None) (reservations_tbl db))"
    if "k \<noteq> None"
    using fresh that
    by (auto simp: conflicting_row_def idem_key_def split: option.splits dest: find_NoneD)
  with fresh wf show ?thesis
    by (auto simp: pg_wf_def reservations_ok_def)
qed

lemma insert_reservation_tables:
  assumes "insert_reservation now i e u q k ra ea db = Inr (db', r)"
  shows "events_tbl db' = events_tbl db" "users_tbl db' = users_tbl db"
  using assms by (cases rule: insert_reservation_InrE; simp)+

text \<open>Seats after an insert: at most \<open>q\<close> more for the event and the user, none elsewhere.\<close>

lemma insert_reservation_seats:
  assumes wf: "pg_wf db" and ins: "insert_reservation now i e u q k ra ea db = Inr (db', r)"
  shows "active_seats t e' (reservations_tbl db')
      \<le> active_seats t e' (reservations_tbl db) + (if e' = e then unat q else 0)"
    and "user_active_seats t e' u' (reservations_tbl db')
      \<le> user_active_seats t e' u' (reservations_tbl db) + (if e' = e \<and> u' = u then unat q else 0)"
proof -
  have same: "seats_where P (map (touch now j) rs) = seats_where P rs"
    if "\<And>x. P (x\<lparr>res_UpdatedAt := now\<rparr>) = P x" for P j rs
    by (rule seats_where_map_eq) (simp add: that)
  show "active_seats t e' (reservations_tbl db')
      \<le> active_seats t e' (reservations_tbl db) + (if e' = e then unat q else 0)"
    using wf ins
  proof (cases rule: insert_reservation_wfE)
    case (conflict r0)
    show ?thesis unfolding conflict(3) by (simp add: active_seats_def same active_at_def)
  qed auto
  show "user_active_seats t e' u' (reservations_tbl db')
      \<le> user_active_seats t e' u' (reservations_tbl db) + (if e' = e \<and> u' = u then unat q else 0)"
    using wf ins
  proof (cases rule: insert_reservation_wfE)
    case (conflict r0)
    show ?thesis unfolding conflict(3) by (simp add: user_active_seats_def same active_at_def)
  qed auto
qed

section \<open>The reserve transaction\<close>

text \<open>
  Whatever fails, the database is left as it was or holds the result of an insert that
  passed both checks.
\<close>

lemma pg_ReserveEvent_cases:
  obtains (unchanged) "fst (pg_ReserveEvent flt now wall i e u q k db) = db"
  | (inserted) cap quota sold mine db' r where
      "select_event_for_update Done e db = Inr (cap, quota)" "q \<le> quota"
      "select_active_sums Done now e u db = Inr (sold, mine)"
      "reserve_check cap quota sold mine q = None"
      "insert_reservation now i e u q k wall (wall + reservationTTL) db = Inr (db', r)"
      "fst (pg_ReserveEvent flt now wall i e u q k db) = db'"
proof (cases "fst (pg_ReserveEvent flt now wall i e u q k db) = db")
  case True
  then show ?thesis by (rule that(1))
next
  case False
  note rdef = pg_ReserveEvent_def Let_def
  have started: "io_err (flt RE_Begin) = None"
    using False by (cases "io_err (flt RE_Begin)") (simp_all add: rdef)
  obtain cap quota where sel: "select_event_for_update (flt RE_SelectEvent) e db = Inr (cap, quota)"
    using False started by (cases "select_event_for_update (flt RE_SelectEvent) e db") (auto simp: rdef)
  have quota: "q \<le> quota"
    using False started sel by (cases "quota < q") (simp_all add: rdef)
  obtain sold mine where sums: "select_active_sums (flt RE_SumActive) now e u db = Inr (sold, mine)"
    using False started sel quota
    by (cases "select_active_sums (flt RE_SumActive) now e u db") (auto simp: rdef)
  have check: "reserve_check cap quota sold mine q = None"
    using False started sel quota sums by (cases "reserve_check cap quota sold mine q") (simp_all add: rdef)
  have insert_ok: "io_err (flt RE_Insert) = None"
    using False started sel quota sums check by (cases "io_err (flt RE_Insert)") (simp_all add: rdef)
  obtain db' r where ins: "insert_reservation now i e u q k wall (wall + reservationTTL) db = Inr (db', r)"
    using False started sel quota sums check insert_ok
    by (cases "insert_reservation now i e u q k wall (wall + reservationTTL) db") (auto simp: rdef)
  have "fst (pg_ReserveEvent flt now wall i e u q k db) = db'"
    using False started sel quota sums check insert_ok ins by (cases "flt RE_Commit") (simp_all add: rdef)
  moreover have "select_event_for_update Done e db = Inr (cap, quota)"
    using sel by (simp add: select_event_for_update_def split: option.splits)
  moreover have "select_active_sums Done now e u db = Inr (sold, mine)"
    using sums by (simp add: select_active_sums_def split: option.splits)
  ultimately show ?thesis using quota check ins by (intro that(2))
qed

lemma select_event_InrD:
  assumes "pg_wf db" and "select_event_for_update Done e db = Inr (cap, quota)"
  obtains ev where "ev \<in> set (events_tbl db)" "er_id ev = e" "cap = ev_Capacity (er_item ev)"
    "quota = ev_MaxReservePerUser (er_item ev)" "unat cap < 2 ^ 31" "unat quota < 2 ^ 31"
  using assms(2) event_bounds [OF assms(1)]
  by (auto simp: select_event_for_update_def split: option.splits dest!: find_SomeD intro: that)

lemma select_sums_InrD:
  assumes "select_active_sums Done now e u db = Inr (sold, mine)"
  shows "unat sold = active_seats now e (reservations_tbl db)"
    and "unat mine = user_active_seats now e u (reservations_tbl db)"
  using assms by (auto simp: select_active_sums_def scan_u32_def unat_of_nat_u32 split: sum.splits if_splits)

lemma user_seats_le: "user_active_seats t e u rs \<le> active_seats t e rs"
  unfolding user_active_seats_def active_seats_def by (rule seats_where_mono) simp

text \<open>With fewer than \<open>2^31\<close> active seats neither \<open>uint32\<close> addition of the checks wraps.\<close>

lemma reserve_check_exact:
  assumes "unat sold < 2 ^ 31" and "unat mine < 2 ^ 31" and "unat q < 2 ^ 31"
  shows "reserve_check cap quota sold mine q =
    (if unat quota < unat mine + unat q then Some ErrExceedMaxReserveQuantity
     else if unat cap < unat sold + unat q then Some ErrInsufficientCapacity else None)"
    and "(cap \<le> sold + q) = (unat cap \<le> unat sold + unat q)"
  using assms by (simp_all add: reserve_check_def u32_less_iff u32_le_iff unat_add_u32)

lemma within_capacityD:
  "within_capacity t db \<Longrightarrow> ev \<in> set (events_tbl db) \<Longrightarrow>
   active_seats t (er_id ev) (reservations_tbl db) \<le> unat (ev_Capacity (er_item ev))"
  by (auto simp: within_capacity_def list_all_iff)

lemma within_capacity_later: "within_capacity t db \<Longrightarrow> t \<le> t' \<Longrightarrow> within_capacity t' db"
  by (auto simp: within_capacity_def list_all_iff intro: order_trans [OF active_seats_antimono])

lemma within_quota_later: "within_quota t db \<Longrightarrow> t \<le> t' \<Longrightarrow> within_quota t' db"
  by (auto simp: within_quota_def list_all_iff intro: order_trans [OF user_active_seats_antimono])

lemma within_capacity_bounded: "pg_wf db \<Longrightarrow> within_capacity t db \<Longrightarrow> seats_bounded t db"
  unfolding seats_bounded_def list_all_iff
  by (blast intro: le_less_trans [OF within_capacityD event_bounds(1)])

lemma pg_ReserveEvent_tables:
  "events_tbl (fst (pg_ReserveEvent flt now wall i e u q k db)) = events_tbl db"
  "users_tbl (fst (pg_ReserveEvent flt now wall i e u q k db)) = users_tbl db"
  by (cases rule: pg_ReserveEvent_cases [of flt now wall i e u q k db];
      simp add: insert_reservation_tables)+

lemma pg_ReserveEvent_wf [wf_intros]:
  "pg_wf db \<Longrightarrow> pg_wf (fst (pg_ReserveEvent flt now wall i e u q k db))"
  by (cases rule: pg_ReserveEvent_cases [of flt now wall i e u q k db])
     (auto intro: insert_reservation_wf)

text \<open>
  What an accepted insert knows: the exact sums, and that both bounds hold with the new seats.
\<close>

lemma accepted_bounds:
  assumes wf: "pg_wf db" and bnd: "seats_bounded now db"
    and sel: "select_event_for_update Done e db = Inr (cap, quota)" and q: "q \<le> quota"
    and sums: "select_active_sums Done now e u db = Inr (sold, mine)"
    and chk: "reserve_check cap quota sold mine q = None"
  obtains ev where "ev \<in> set (events_tbl db)" "er_id ev = e"
    "active_seats now e (reservations_tbl db) + unat q \<le> unat (ev_Capacity (er_item ev))"
    "user_active_seats now e u (reservations_tbl db) + unat q \<le> unat (ev_MaxReservePerUser (er_item ev))"
proof -
  obtain ev where ev: "ev \<in> set (events_tbl db)" "er_id ev = e" "cap = ev_Capacity (er_item ev)"
    "quota = ev_MaxReservePerUser (er_item ev)" "unat quota < 2 ^ 31"
    using select_event_InrD [OF wf sel] by metis
  have sold: "unat sold < 2 ^ 31"
    using bnd ev(1,2) select_sums_InrD(1) [OF sums] by (auto simp: seats_bounded_def list_all_iff)
  then have mine: "unat mine < 2 ^ 31"
    using select_sums_InrD [OF sums] user_seats_le [of now e u "reservations_tbl db"] by simp
  have "unat q < 2 ^ 31" using q ev(5) by (simp add: u32_le_iff)
  with sold mine chk have "unat mine + unat q \<le> unat quota" "unat sold + unat q \<le> unat cap"
    by (simp_all add: reserve_check_exact split: if_splits)
  with ev select_sums_InrD [OF sums] show ?thesis by (intro that) simp_all
qed

section \<open>Updates never add seats\<close>

lemma set_status_fields [simp]:
  "res_Id (set_status st now wall r) = res_Id r" "res_UserId (set_status st now wall r) = res_UserId r"
  "res_EventId (set_status st now wall r) = res_EventId r" "res_Quantity (set_status st now wall r) = res_Quantity r"
  "res_IdempotencyKey (set_status st now wall r) = res_IdempotencyKey r"
  "res_Status (set_status st now wall r) = st" "res_ExpiresAt (set_status st now wall r) = res_ExpiresAt r"
  "res_ReservedAt (set_status st now wall r) = res_ReservedAt r"
  by (simp_all add: set_status_def)

lemma expire_row_fields [simp]:
  "res_Id (expire_row now r) = res_Id r" "res_UserId (expire_row now r) = res_UserId r"
  "res_EventId (expire_row now r) = res_EventId r" "res_Quantity (expire_row now r) = res_Quantity r"
  "res_IdempotencyKey (expire_row now r) = res_IdempotencyKey r"
  "res_ExpiresAt (expire_row now r) = res_ExpiresAt r" "res_ReservedAt (expire_row now r) = res_ReservedAt r"
  "res_Status (expire_row now r) = (if hold_lapsed now r then StatusExpired else res_Status r)"
  by (simp_all add: expire_row_def)

definition apply_update :: "time \<Rightarrow> time \<Rightarrow> string \<Rightarrow> string \<Rightarrow> ReservationStatus \<Rightarrow> pg \<Rightarrow> pg" where
  "apply_update now wall u rid st db =
     db\<lparr>reservations_tbl := map (\<lambda>x. if updatable now u rid x then set_status st now wall x else x)
                                (reservations_tbl db)\<rparr>"

lemma pg_UpdateReservation_cases:
  obtains (unchanged) "fst (pg_UpdateReservation flt now wall u rid st db) = db"
  | (updated) "st = StatusConfirmed \<or> st = StatusReleased"
      "fst (pg_UpdateReservation flt now wall u rid st db) = apply_update now wall u rid st db"
proof (cases "fst (pg_UpdateReservation flt now wall u rid st db) = db")
  case False
  have ok: "st \<in> {StatusConfirmed, StatusReleased}"
    using False by (cases "st \<in> {StatusConfirmed, StatusReleased}") (simp_all add: pg_UpdateReservation_def)
  have "io_err (flt UR_Begin) = None"
    using False ok by (cases "io_err (flt UR_Begin)") (simp_all add: pg_UpdateReservation_def)
  moreover from this have "io_err (flt UR_Update) = None"
    using False ok by (cases "io_err (flt UR_Update)") (simp_all add: pg_UpdateReservation_def)
  moreover from calculation obtain r where "find (updatable now u rid) (reservations_tbl db) = Some r"
    using False ok by (cases "find (updatable now u rid) (reservations_tbl db)") (simp_all add: pg_UpdateReservation_def)
  ultimately have "fst (pg_UpdateReservation flt now wall u rid st db) = apply_update now wall u rid st db"
    using False ok by (cases "flt UR_Commit") (simp_all add: pg_UpdateReservation_def apply_update_def)
  with ok show ?thesis by (intro that(2)) simp_all
qed (rule that(1))

lemma pg_RefreshEventStatus_cases:
  "fst (pg_RefreshEventStatus x now db) = db \<or>
   fst (pg_RefreshEventStatus x now db) = db\<lparr>reservations_tbl := map (expire_row now) (reservations_tbl db)\<rparr>"
  unfolding pg_RefreshEventStatus_def using io_call_state by fastforce

lemma apply_update_seats:
  "active_seats now e (reservations_tbl (apply_update now wall u rid st db)) \<le> active_seats now e (reservations_tbl db)"
  "user_active_seats now e v (reservations_tbl (apply_update now wall u rid st db))
     \<le> user_active_seats now e v (reservations_tbl db)"
  unfolding apply_update_def active_seats_def user_active_seats_def
  by (simp_all, (rule seats_where_map_le, auto simp: updatable_def active_at_def split: if_splits)+)

lemma expire_seats:
  assumes "now \<le> t"
  shows "active_seats t e (map (expire_row now) rs) = active_seats t e rs"
    and "user_active_seats t e u (map (expire_row now) rs) = user_active_seats t e u rs"
  unfolding active_seats_def user_active_seats_def
  by (rule seats_where_map_eq, use assms in \<open>auto simp: active_at_def hold_lapsed_def\<close>)+

lemma pg_UpdateReservation_wf [wf_intros]:
  "pg_wf db \<Longrightarrow> pg_wf (fst (pg_UpdateReservation flt now wall u rid st db))"
  by (cases rule: pg_UpdateReservation_cases [of flt now wall u rid st db])
     (auto simp: apply_update_def intro: pg_wf_map_rows)

lemma pg_RefreshEventStatus_wf [wf_intros]:
  "pg_wf db \<Longrightarrow> pg_wf (fst (pg_RefreshEventStatus x now db))"
  using pg_RefreshEventStatus_cases [of x now db] by (auto intro!: pg_wf_map_rows simp del: expire_row_fields(8))

section \<open>The serialised store as a state machine\<close>

text \<open>
  One transaction at a time, each at the clock's current reading, in any order and with any
  faults; the clock only moves forward.
\<close>

inductive store_step :: "time \<times> pg \<Rightarrow> time \<times> pg \<Rightarrow> bool" where
  tick: "t \<le> t' \<Longrightarrow> store_step (t, db) (t', db)"
| reserve: "store_step (t, db) (t, fst (pg_ReserveEvent flt t wall i e u q k db))"
| update: "store_step (t, db) (t, fst (pg_UpdateReservation flt' t wall u rid st db))"
| sweep: "store_step (t, db) (t, fst (pg_RefreshEventStatus x t db))"

inductive_cases store_stepE [consumes 1, case_names tick reserve update sweep]: "store_step (t, db) (t', db')"

definition store_inv :: "time \<times> pg \<Rightarrow> bool" where
  "store_inv s \<longleftrightarrow> pg_wf (snd s) \<and> within_capacity (fst s) (snd s) \<and> within_quota (fst s) (snd s)"

lemma store_inv_reserve:
  assumes "store_inv (t, db)"
  shows "store_inv (t, fst (pg_ReserveEvent flt t wall i e u q k db))"
proof (cases rule: pg_ReserveEvent_cases [of flt t wall i e u q k db])
  case unchanged
  with assms show ?thesis by simp
next
  case (inserted cap quota sold mine db' r)
  from assms have wf: "pg_wf db" and cap: "within_capacity t db" and quo: "within_quota t db"
    by (simp_all add: store_inv_def)
  obtain ev where ev: "ev \<in> set (events_tbl db)" "er_id ev = e"
    "active_seats t e (reservations_tbl db) + unat q \<le> unat (ev_Capacity (er_item ev))"
    "user_active_seats t e u (reservations_tbl db) + unat q \<le> unat (ev_MaxReservePerUser (er_item ev))"
    using accepted_bounds [OF wf within_capacity_bounded [OF wf cap] inserted(1-4)] by blast
  note tabs = insert_reservation_tables [OF inserted(5)]
  note more = insert_reservation_seats [OF wf inserted(5), of t]
  have "within_capacity t db'"
    unfolding within_capacity_def list_all_iff tabs
  proof
    fix ev' assume ev': "ev' \<in> set (events_tbl db)"
    show "active_seats t (er_id ev') (reservations_tbl db') \<le> unat (ev_Capacity (er_item ev'))"
    proof (cases "er_id ev' = e")
      case True
      then have "ev' = ev" using event_unique [OF wf ev' ev(1)] ev(2) by simp
      with True ev(3) more(1) [of e] show ?thesis by simp
    next
      case False
      with more(1) [of "er_id ev'"] within_capacityD [OF cap ev'] show ?thesis by simp
    qed
  qed
  moreover have "within_quota t db'"
    unfolding within_quota_def list_all_iff tabs
  proof (intro ballI)
    fix ev' w assume ev': "ev' \<in> set (events_tbl db)" and w: "w \<in> set (users_tbl db)"
    have old: "user_active_seats t (er_id ev') (ur_id w) (reservations_tbl db) \<le> unat (ev_MaxReservePerUser (er_item ev'))"
      using quo ev' w by (auto simp: within_quota_def list_all_iff)
    show "user_active_seats t (er_id ev') (ur_id w) (reservations_tbl db') \<le> unat (ev_MaxReservePerUser (er_item ev'))"
    proof (cases "er_id ev' = e \<and> ur_id w = u")
      case True
      then have "ev' = ev" using event_unique [OF wf ev' ev(1)] ev(2) by simp
      with True ev(4) more(2) [of e u] show ?thesis by simp
    next
      case False
      with more(2) [of "er_id ev'" "ur_id w"] old show ?thesis by auto
    qed
  qed
  ultimately show ?thesis
    using insert_reservation_wf [OF wf inserted(5)] by (simp add: store_inv_def inserted(6))
qed

text \<open>A change of the rows that adds no seats keeps the invariant.\<close>

lemma store_inv_fewer_seats:
  assumes inv: "store_inv (t, db)" and wf: "pg_wf db'"
    and tabs: "events_tbl db' = events_tbl db" "users_tbl db' = users_tbl db"
    and le: "\<And>e. active_seats t e (reservations_tbl db') \<le> active_seats t e (reservations_tbl db)"
      "\<And>e u. user_active_seats t e u (reservations_tbl db') \<le> user_active_seats t e u (reservations_tbl db)"
  shows "store_inv (t, db')"
  using inv wf tabs
  by (auto simp: store_inv_def within_capacity_def within_quota_def list_all_iff
      intro: order_trans [OF le(1)] order_trans [OF le(2)])

lemma store_inv_update:
  assumes "store_inv (t, db)"
  shows "store_inv (t, fst (pg_UpdateReservation flt t wall u rid st db))"
proof (cases rule: pg_UpdateReservation_cases [of flt t wall u rid st db])
  case unchanged
  with assms show ?thesis by simp
next
  case updated
  have "pg_wf db" using assms by (simp add: store_inv_def)
  then have "pg_wf (apply_update t wall u rid st db)"
    using pg_UpdateReservation_wf [of db flt t wall u rid st] updated(2) by simp
  then show ?thesis unfolding updated(2)
    by (rule store_inv_fewer_seats [OF assms])
       (simp_all add: apply_update_seats, simp_all add: apply_update_def)
qed

lemma store_inv_sweep:
  assumes "store_inv (t, db)"
  shows "store_inv (t, fst (pg_RefreshEventStatus x t db))"
proof -
  have "pg_wf db" using assms by (simp add: store_inv_def)
  then have "pg_wf (fst (pg_RefreshEventStatus x t db))" by (rule pg_RefreshEventStatus_wf)
  then show ?thesis using pg_RefreshEventStatus_cases [of x t db] assms
    by (auto intro!: store_inv_fewer_seats [OF assms] simp: expire_seats)
qed

lemma store_step_inv: "store_step s s' \<Longrightarrow> store_inv s \<Longrightarrow> store_inv s'"
proof (induction rule: store_step.induct)
  case (tick t t' db)
  then show ?case
    by (auto simp: store_inv_def intro: within_capacity_later within_quota_later)
qed (auto intro: store_inv_reserve store_inv_update store_inv_sweep)

interpretation store: inductive_invariant store_inv store_step store_inv
  by unfold_locales (auto intro: store_step_inv)

section \<open>How one row evolves\<close>

text \<open>
  What one transaction at time \<open>t\<close> may do to a row: nothing but its \<open>updated_at\<close> stamp, confirm or
  release a hold that is still running, or expire a hold that has run out.
\<close>

definition row_evolves :: "time \<Rightarrow> ReservationItem \<Rightarrow> ReservationItem \<Rightarrow> bool" where
  "row_evolves t r r' \<longleftrightarrow>
     res_Id r' = res_Id r \<and> res_UserId r' = res_UserId r \<and> res_EventId r' = res_EventId r
     \<and> res_Quantity r' = res_Quantity r \<and> res_IdempotencyKey r' = res_IdempotencyKey r
     \<and> res_ReservedAt r' = res_ReservedAt r \<and> res_ExpiresAt r' = res_ExpiresAt r
     \<and> (res_Status r' = res_Status r
        \<or> res_Status r = StatusHeld \<and> t < res_ExpiresAt r \<and> res_Status r' \<in> {StatusConfirmed, StatusReleased}
        \<or> res_Status r = StatusHeld \<and> res_ExpiresAt r \<le> t \<and> res_Status r' = StatusExpired)"

lemma row_evolves_refl [simp]: "row_evolves t r r"
  by (simp add: row_evolves_def)

lemma insert_row_evolves:
  assumes "pg_wf db" and "insert_reservation now i e u q k ra ea db = Inr (db', r0)" and "r \<in> set (reservations_tbl db)"
  shows "\<exists>r' \<in> set (reservations_tbl db'). row_evolves t r r'"
  using assms(1,2)
proof (cases rule: insert_reservation_wfE)
  case (conflict c)
  show ?thesis unfolding conflict(3)
    by (rule bexI [of _ "touch now (res_Id c) r"]) (use assms(3) in \<open>auto simp: row_evolves_def\<close>)
next
  case fresh
  then show ?thesis using assms(3) by (auto intro!: bexI [of _ r])
qed

lemma store_step_row:
  assumes "store_step (t, db) (t', db')" and "pg_wf db" and "r \<in> set (reservations_tbl db)"
  shows "t \<le> t' \<and> (\<exists>r' \<in> set (reservations_tbl db'). row_evolves t r r')"
  using assms(1)
proof (cases rule: store_stepE)
  case tick
  then show ?thesis using assms(3) by (auto intro!: bexI [of _ r])
next
  case (reserve flt wall i e u q k)
  show ?thesis
    by (cases rule: pg_ReserveEvent_cases [of flt t wall i e u q k db])
       (use reserve assms(3) insert_row_evolves [OF assms(2) _ assms(3)] in \<open>auto intro!: bexI [of _ r]\<close>)
next
  case (update flt wall u rid st)
  show ?thesis
  proof (cases rule: pg_UpdateReservation_cases [of flt t wall u rid st db])
    case unchanged
    then show ?thesis using update assms(3) by (auto intro!: bexI [of _ r])
  next
    case updated
    have "row_evolves t r (if updatable t u rid r then set_status st t wall r else r)"
      using updated(1) by (auto simp: row_evolves_def updatable_def)
    moreover have "(if updatable t u rid r then set_status st t wall r else r) \<in> set (reservations_tbl db')"
      using update updated(2) assms(3) by (auto simp: apply_update_def)
    ultimately show ?thesis using update by blast
  qed
next
  case (sweep x)
  have "row_evolves t r (expire_row t r)"
    by (auto simp: row_evolves_def hold_lapsed_def)
  moreover have "r \<in> set (reservations_tbl db') \<or> expire_row t r \<in> set (reservations_tbl db')"
    using sweep pg_RefreshEventStatus_cases [of x t db] assms(3) by auto
  ultimately show ?thesis using sweep by (auto intro: row_evolves_refl)
qed

text \<open>Evolution over a whole run that starts at \<open>t\<close>.\<close>

definition row_history :: "time \<Rightarrow> ReservationItem \<Rightarrow> ReservationItem \<Rightarrow> bool" where
  "row_history t r r' \<longleftrightarrow>
     res_Id r' = res_Id r \<and> res_UserId r' = res_UserId r \<and> res_EventId r' = res_EventId r
     \<and> res_Quantity r' = res_Quantity r \<and> res_IdempotencyKey r' = res_IdempotencyKey r
     \<and> res_ReservedAt r' = res_ReservedAt r \<and> res_ExpiresAt r' = res_ExpiresAt r
     \<and> (res_Status r \<noteq> StatusHeld \<longrightarrow> res_Status r' = res_Status r)
     \<and> (res_Status r = StatusHeld \<and> res_ExpiresAt r \<le> t \<longrightarrow> res_Status r' \<in> {StatusHeld, StatusExpired})"

lemma row_history_step:
  assumes "row_history t r r'" and "row_evolves t' r' r''" and "t \<le> t'"
  shows "row_history t r r''"
  using assms by (auto simp: row_history_def row_evolves_def)

lemma store_run_row:
  assumes "store_step\<^sup>*\<^sup>* s s'" and "store_inv s" and "r \<in> set (reservations_tbl (snd s))"
  shows "fst s \<le> fst s' \<and> (\<exists>r' \<in> set (reservations_tbl (snd s')). row_history (fst s) r r')"
  using assms(1)
proof (induction rule: rtranclp_induct)
  case base
  then show ?case using assms(3) by (auto simp: row_history_def)
next
  case (step x y)
  then obtain r' where r': "r' \<in> set (reservations_tbl (snd x))" "row_history (fst s) r r'" and le: "fst s \<le> fst x"
    by auto
  have "pg_wf (snd x)" using store.steps_inv [OF step.hyps(1) assms(2)] by (simp add: store_inv_def)
  then obtain r'' where "r'' \<in> set (reservations_tbl (snd y))" "row_evolves (fst x) r' r''" "fst x \<le> fst y"
    using store_step_row [of "fst x" "snd x" "fst y" "snd y"] step.hyps(2) r'(1) by auto
  then show ?case using row_history_step [OF r'(2) _ le] le by force
qed

section \<open>Confirm and release\<close>

lemma updatable_unique:
  assumes "pg_wf db" and "r \<in> set (reservations_tbl db)" and "updatable now u rid r"
    and "x \<in> set (reservations_tbl db)"
  shows "res_Id x = rid \<longleftrightarrow> x = r"
  using conflict_same_row [OF assms(1,2,4)] assms(3) by (auto simp: updatable_def)

lemma pg_UpdateReservation_InrE:
  assumes wf: "pg_wf db" and call: "pg_UpdateReservation flt now wall u rid st db = (db', Inr e)"
  obtains r where "r \<in> set (reservations_tbl db)" "updatable now u rid r" "e = res_EventId r"
    "st = StatusConfirmed \<or> st = StatusReleased"
    "db' = db\<lparr>reservations_tbl := map (\<lambda>x. if res_Id x = rid then set_status st now wall x else x) (reservations_tbl db)\<rparr>"
proof -
  have st: "st \<in> {StatusConfirmed, StatusReleased}"
    using call by (cases "st \<in> {StatusConfirmed, StatusReleased}") (simp_all add: pg_UpdateReservation_def)
  have ok: "io_err (flt UR_Begin) = None" "io_err (flt UR_Update) = None"
    using call st by (auto simp: pg_UpdateReservation_def split: option.splits)
  obtain r where r: "find (updatable now u rid) (reservations_tbl db) = Some r"
    using call st ok by (cases "find (updatable now u rid) (reservations_tbl db)") (auto simp: pg_UpdateReservation_def)
  have upd: "db' = apply_update now wall u rid st db" "e = res_EventId r"
    using call st ok r by (cases "flt UR_Commit"; auto simp: pg_UpdateReservation_def apply_update_def)+
  have r': "r \<in> set (reservations_tbl db)" "updatable now u rid r" using find_SomeD [OF r] by auto
  have "updatable now u rid x = (res_Id x = rid)" if "x \<in> set (reservations_tbl db)" for x
    using updatable_unique [OF wf r' that] r'(2) by (auto simp: updatable_def)
  then have "db' = db\<lparr>reservations_tbl := map (\<lambda>x. if res_Id x = rid then set_status st now wall x else x) (reservations_tbl db)\<rparr>"
    unfolding upd apply_update_def by (simp cong: map_cong)
  with r' upd(2) st show ?thesis by (intro that) auto
qed

lemma pg_UpdateReservation_no_row:
  assumes "\<And>x. x \<in> set (reservations_tbl db) \<Longrightarrow> res_Id x = rid \<Longrightarrow> res_Status x \<noteq> StatusHeld"
  shows "isl (snd (pg_UpdateReservation flt now wall u rid st db))"
proof -
  have none: "find (updatable now u rid) (reservations_tbl db) = None"
    using assms by (auto simp: find_None_iff updatable_def)
  show ?thesis by (simp add: pg_UpdateReservation_def none split: option.splits)
qed

text \<open>Changing the one row \<open>r\<close> changes the active seats by what \<open>r\<close> itself contributes.\<close>

lemma seats_where_map_one:
  assumes "distinct (map res_Id rs)" and "r \<in> set rs"
  shows "seats_where P (map (\<lambda>x. if res_Id x = res_Id r then f x else x) rs) + (if P r then quantity_of r else 0)
    = seats_where P rs + (if P (f r) then quantity_of (f r) else 0)"
  using assms
proof (induction rs)
  case Nil
  then show ?case by simp
next
  case (Cons y ys)
  show ?case
  proof (cases "y = r")
    case True
    then have "map (\<lambda>x. if res_Id x = res_Id r then f x else x) ys = ys"
      using Cons.prems(1) by (intro map_idI) (force simp: image_iff)
    with True show ?thesis by simp
  next
    case False
    then have "r \<in> set ys" using Cons.prems(2) by simp
    moreover from this have "res_Id y \<noteq> res_Id r" using Cons.prems(1) by force
    ultimately show ?thesis using Cons.IH Cons.prems(1) by auto
  qed
qed

section \<open>The sweep\<close>

lemma sum_group_counts:
  assumes "finite S" and "f ` set xs \<subseteq> S"
  shows "(\<Sum>e\<in>S. length (filter (\<lambda>r. f r = e) xs)) = length xs"
  using assms(2)
proof (induction xs)
  case Nil
  then show ?case by simp
next
  case (Cons x xs)
  have "(\<Sum>e\<in>S. length (filter (\<lambda>r. f r = e) (x # xs)))
      = (\<Sum>e\<in>S. (if f x = e then 1 else 0) + length (filter (\<lambda>r. f r = e) xs))"
    by (rule sum.cong) auto
  also have "\<dots> = 1 + length xs" using Cons assms(1) by (simp add: sum.distrib)
  finally show ?case by simp
qed

lemma fold_counts: "fold (\<lambda>(e, n) acc. acc + n) gs (a :: nat) = a + sum_list (map snd gs)"
  by (induction gs arbitrary: a) auto

lemma expired_groups_total:
  "fold (\<lambda>(e, n) acc. acc + n) (expired_groups now rs) 0 = length (filter (hold_lapsed now) rs)"
proof -
  let ?ex = "filter (hold_lapsed now) rs"
  have "sum_list (map snd (expired_groups now rs))
      = sum_list (map (\<lambda>e. length (filter (\<lambda>r. res_EventId r = e) ?ex)) (remdups (map res_EventId ?ex)))"
    unfolding expired_groups_def Let_def map_map comp_def snd_conv ..
  also have "\<dots> = (\<Sum>e\<in>set (map res_EventId ?ex). length (filter (\<lambda>r. res_EventId r = e) ?ex))"
    by (subst sum_list_distinct_conv_sum_set) (auto intro: sum.cong)
  also have "\<dots> = length ?ex" by (rule sum_group_counts) auto
  finally show ?thesis by (simp add: fold_counts)
qed

lemma expired_groups_events:
  "distinct (map fst (expired_groups now rs))"
  "fst ` set (expired_groups now rs) = res_EventId ` set (filter (hold_lapsed now) rs)"
  by (simp_all add: expired_groups_def Let_def comp_def image_image)

lemma expire_row_done: "\<not> hold_lapsed now (expire_row now r)"
  by (simp add: hold_lapsed_def)

section \<open>Idempotency keys\<close>

abbreviation has_key :: "string \<Rightarrow> string \<Rightarrow> string \<Rightarrow> ReservationItem \<Rightarrow> bool" where
  "has_key e u k r \<equiv> res_EventId r = e \<and> res_UserId r = u \<and> res_IdempotencyKey r = Some k"

lemma key_rows_unique:
  assumes wf: "pg_wf db" and r: "r \<in> set (reservations_tbl db)" "has_key e u k r"
  shows "filter (has_key e u k) (reservations_tbl db) = [r]"
proof -
  have "distinct (map idem_key (filter (\<lambda>r. res_IdempotencyKey r \<noteq> None) (reservations_tbl db)))"
    using wf by (simp add: pg_wf_def reservations_ok_def)
  then have "distinct (map idem_key (filter (has_key e u k) (filter (\<lambda>r. res_IdempotencyKey r \<noteq> None) (reservations_tbl db))))"
    by (rule distinct_map_filterI)
  moreover have "filter (has_key e u k) (filter (\<lambda>r. res_IdempotencyKey r \<noteq> None) (reservations_tbl db))
      = filter (has_key e u k) (reservations_tbl db)"
    by (auto simp: filter_filter intro: filter_cong)
  ultimately have d: "distinct (map idem_key (filter (has_key e u k) (reservations_tbl db)))" by simp
  have same: "idem_key x = (e, u, Some k)" if "x \<in> set (filter (has_key e u k) (reservations_tbl db))" for x
    using that by (auto simp: idem_key_def)
  have "r \<in> set (filter (has_key e u k) (reservations_tbl db))" using r by simp
  then show ?thesis using d same
    by (cases "filter (has_key e u k) (reservations_tbl db)" rule: remdups_adj.cases) auto
qed

lemma GetReservationByIdempotencyKey_found:
  assumes "pg_wf db" and "r \<in> set (reservations_tbl db)" and "has_key e u k r"
  shows "pg_GetReservationByIdempotencyKey Done e u k db = Inr r"
  by (simp add: pg_GetReservationByIdempotencyKey_def key_rows_unique [OF assms])

lemma pg_ReserveEvent_InrD:
  assumes "pg_ReserveEvent flt now wall i e u q k db = (db', c, Inr r)"
  shows "insert_reservation now i e u q k wall (wall + reservationTTL) db = Inr (db', r)"
  using assms
  by (simp add: pg_ReserveEvent_def Let_def split: option.splits sum.splits prod.splits if_splits io.splits)

lemma conflicting_row_key:
  assumes "pg_wf db" and "r \<in> set (reservations_tbl db)" and "has_key e u k r"
  shows "conflicting_row e u (Some k) db = Some r"
proof -
  obtain x where x: "find (has_key e u k) (reservations_tbl db) = Some x"
    using assms(2,3) by (cases "find (has_key e u k) (reservations_tbl db)") (auto dest: find_NoneD)
  then have "x \<in> set (filter (has_key e u k) (reservations_tbl db))" by (auto dest: find_SomeD)
  then have "x = r" using key_rows_unique [OF assms] by simp
  with x show ?thesis by (simp add: conflicting_row_def)
qed

lemma ReserveEvent_reference:
  assumes wf: "pg_wf db" and bnd: "seats_bounded now db"
  shows "pg_ReserveEvent (\<lambda>_. Done) now wall i e u q k db = reserve_reference now wall i e u q k db"
proof (cases "find (\<lambda>x. er_id x = e) (events_tbl db)")
  case None
  then show ?thesis by (simp add: pg_ReserveEvent_def reserve_reference_def select_event_for_update_def)
next
  case (Some ev)
  let ?sold = "active_seats now e (reservations_tbl db)" and ?mine = "user_active_seats now e u (reservations_tbl db)"
  have ev: "ev \<in> set (events_tbl db)" "er_id ev = e" using find_SomeD [OF Some] by auto
  have sold: "?sold < 2 ^ 31" using bnd ev by (auto simp: seats_bounded_def list_all_iff)
  have mine: "?mine < 2 ^ 31" using le_less_trans [OF user_seats_le sold] .
  have quota: "unat (ev_MaxReservePerUser (er_item ev)) < 2 ^ 31" by (rule event_bounds(2) [OF wf ev(1)])
  have sums: "select_active_sums Done now e u db = Inr (of_nat ?sold, of_nat ?mine)"
    using sold mine by (simp add: select_active_sums_def scan_u32_def)
  have exact: "unat (of_nat ?sold :: u32) = ?sold" "unat (of_nat ?mine :: u32) = ?mine"
    using sold mine by (simp_all add: unat_of_nat_u32)
  show ?thesis
  proof (cases "ev_MaxReservePerUser (er_item ev) < q")
    case True
    then show ?thesis using Some
      by (simp add: pg_ReserveEvent_def reserve_reference_def select_event_for_update_def u32_less_iff)
  next
    case False
    then have q: "unat q < 2 ^ 31" using quota by (simp add: u32_less_iff)
    note chk = reserve_check_exact [of "of_nat ?sold" "of_nat ?mine" q, unfolded exact, OF sold mine q]
    have plus: "unat ((of_nat ?sold :: u32) + q) = ?sold + unat q"
      using unat_add_u32 [of "of_nat ?sold" q] sold q by (simp add: exact)
    show ?thesis
      using Some False sums
      by (simp add: pg_ReserveEvent_def reserve_reference_def select_event_for_update_def Let_def chk exact plus
          u32_less_iff u32_le_iff split: sum.splits)
  qed
qed

text \<open>A replay rewrites at most the stamp of the row with the key.\<close>

lemma replay_rows:
  assumes wf: "pg_wf db" and conf: "conflicting_row e u (Some k) db = Some r0"
    and call: "pg_ReserveEvent flt now wall i e u q (Some k) db = (db', c, res)"
  shows "map res_Id (reservations_tbl db') = map res_Id (reservations_tbl db)
    \<and> map (\<lambda>r. r\<lparr>res_UpdatedAt := 0\<rparr>) (reservations_tbl db') = map (\<lambda>r. r\<lparr>res_UpdatedAt := 0\<rparr>) (reservations_tbl db)
    \<and> (\<forall>t e'. active_seats t e' (reservations_tbl db') = active_seats t e' (reservations_tbl db))"
proof -
  have rows: "reservations_tbl db' = reservations_tbl db
      \<or> reservations_tbl db' = map (touch now (res_Id r0)) (reservations_tbl db)"
  proof (cases rule: pg_ReserveEvent_cases [of flt now wall i e u q "Some k" db])
    case unchanged
    then show ?thesis using call by simp
  next
    case (inserted cap quota sold mine db1 r)
    from wf inserted(5) show ?thesis
      by (cases rule: insert_reservation_wfE) (use conf inserted(6) call in auto)
  qed
  have "active_seats t e' (map (touch now j) rs) = active_seats t e' rs" for t e' j rs
    unfolding active_seats_def by (rule seats_where_map_eq) (simp add: active_at_def)
  moreover have "map res_Id (map (touch now j) rs) = map res_Id rs" for j rs by (rule map_key_update) simp
  moreover have "map (\<lambda>r. r\<lparr>res_UpdatedAt := 0\<rparr>) (map (touch now j) rs) = map (\<lambda>r. r\<lparr>res_UpdatedAt := 0\<rparr>) rs" for j rs
    by (rule map_key_update) simp
  ultimately show ?thesis using rows by auto
qed

lemma replay_reference:
  assumes wf: "pg_wf db" and bnd: "seats_bounded now db" and q: "0 < q"
    and conf: "conflicting_row e u (Some k) db = Some r0" and ev: "ev \<in> set (events_tbl db)" "er_id ev = e"
  shows "snd (snd (pg_ReserveEvent (\<lambda>_. Done) now wall i e u q (Some k) db)) =
    (if unat (ev_MaxReservePerUser (er_item ev)) < user_active_seats now e u (reservations_tbl db) + unat q
     then Inl ErrExceedMaxReserveQuantity
     else if unat (ev_Capacity (er_item ev)) < active_seats now e (reservations_tbl db) + unat q
     then Inl ErrInsufficientCapacity
     else Inr (r0\<lparr>res_UpdatedAt := now\<rparr>))"
proof -
  have row: "find (\<lambda>x. er_id x = e) (events_tbl db) = Some ev" using find_event [OF wf ev(1)] ev(2) by simp
  have quota: "unat (ev_MaxReservePerUser (er_item ev)) < 2 ^ 31" by (rule event_bounds(2) [OF wf ev(1)])
  have "q \<noteq> 0" using q by (simp add: word_gt_0)
  then have "\<exists>db'. insert_reservation now i e u q (Some k) wall (wall + reservationTTL) db = Inr (db', r0\<lparr>res_UpdatedAt := now\<rparr>)"
    if "unat q < 2 ^ 31" using that conf by (simp add: insert_reservation_def Let_def)
  then show ?thesis using row quota
    unfolding ReserveEvent_reference [OF wf bnd] by (auto simp: reserve_reference_def Let_def not_less)
qed

section \<open>Properties of the reservation store\<close>

text \<open>
  C1: zero overselling. From a database within its capacities and quotas, no sequence of
  reserve, confirm, release and sweep transactions, with any request and any fault of any
  statement (a lost commit reply included), leads to an event with more active seats than
  its capacity or to a user beyond the per-user maximum.
\<close>

theorem store_never_oversells:
  assumes "pg_wf db" and "within_capacity t db" and "within_quota t db"
    and "store_step\<^sup>*\<^sup>* (t, db) (t', db')"
  shows "within_capacity t' db' \<and> within_quota t' db'"
proof -
  have "store_inv (t', db')"
    by (rule store.steps_inv [OF assms(4)]) (simp add: store_inv_def assms(1-3))
  then show ?thesis by (simp add: store_inv_def)
qed

theorem store_never_oversells_witness:
  "within_capacity 5 (fst (pg_ReserveEvent (\<lambda>_. Done) 5 5 ''r1'' ''e1'' ''u1'' 2 None demo_db))
   \<and> within_quota 5 (fst (pg_ReserveEvent (\<lambda>_. Done) 5 5 ''r1'' ''e1'' ''u1'' 2 None demo_db))"
proof (rule store_never_oversells [of demo_db 0])
  have "store_step (0, demo_db) (5, demo_db)" by (rule store_step.tick) simp
  moreover have "store_step (5, demo_db)
      (5, fst (pg_ReserveEvent (\<lambda>_. Done) 5 5 ''r1'' ''e1'' ''u1'' 2 None demo_db))"
    by (rule store_step.reserve)
  ultimately show "store_step\<^sup>*\<^sup>* (0, demo_db)
      (5, fst (pg_ReserveEvent (\<lambda>_. Done) 5 5 ''r1'' ''e1'' ''u1'' 2 None demo_db))"
    by auto
qed (rule demo_db_wf, (simp add: within_capacity_def within_quota_def demo_defs)+)

text \<open>
  C6: the reserve transaction computes the reference decision. With the schema's constraints
  and fewer than \<open>2^31\<close> active seats per event, the \<open>uint32\<close> sums, comparisons and additions of
  \<open>ReserveEvent\<close> give, on every branch, the result, the database and the \<open>isCapped\<close> flag of the
  decision on natural numbers.
\<close>

theorem ReserveEvent_refines_reference:
  assumes wf: "pg_wf db" and bnd: "seats_bounded now db"
  shows "pg_ReserveEvent (\<lambda>_. Done) now wall i e u q k db = reserve_reference now wall i e u q k db"
  by (rule ReserveEvent_reference [OF assms])

theorem ReserveEvent_refines_reference_witness:
  "pg_ReserveEvent (\<lambda>_. Done) 5 5 ''r1'' ''e1'' ''u1'' 3 None demo_db
    = reserve_reference 5 5 ''r1'' ''e1'' ''u1'' 3 None demo_db"
  by (rule ReserveEvent_refines_reference [OF demo_db_wf]) (simp add: seats_bounded_def demo_defs)

text \<open>
  C11: no wrap-around, and the bound that rules it out is kept. Both \<open>uint32\<close> additions of the
  checks are exact while an event has fewer than \<open>2^31\<close> active seats, also for an event sold
  beyond a capacity that was lowered later, and a reserve keeps every event below that bound.
\<close>

theorem ReserveEvent_additions_exact:
  assumes wf: "pg_wf db" and bnd: "seats_bounded now db"
    and sel: "select_event_for_update Done e db = Inr (cap, quota)" and q: "q \<le> quota"
    and sums: "select_active_sums Done now e u db = Inr (sold, mine)"
  shows "unat (sold + q) = unat sold + unat q \<and> unat (mine + q) = unat mine + unat q
    \<and> seats_bounded now (fst (pg_ReserveEvent flt now wall i e u q k db))"
proof -
  obtain ev where ev: "ev \<in> set (events_tbl db)" "er_id ev = e" "unat quota < 2 ^ 31"
    using select_event_InrD [OF wf sel] by metis
  have sold: "unat sold < 2 ^ 31"
    using bnd ev(1,2) select_sums_InrD(1) [OF sums] by (auto simp: seats_bounded_def list_all_iff)
  have mine: "unat mine < 2 ^ 31"
    using sold select_sums_InrD [OF sums] user_seats_le [of now e u "reservations_tbl db"] by simp
  have "unat q < 2 ^ 31" using q ev(3) by (simp add: u32_le_iff)
  moreover have "seats_bounded now (fst (pg_ReserveEvent flt now wall i e u q k db))"
  proof (cases rule: pg_ReserveEvent_cases [of flt now wall i e u q k db])
    case unchanged
    then show ?thesis using bnd by simp
  next
    case (inserted cap' quota' sold' mine' db' r)
    obtain ev' where ev': "ev' \<in> set (events_tbl db)" "er_id ev' = e"
      "active_seats now e (reservations_tbl db) + unat q \<le> unat (ev_Capacity (er_item ev'))"
      using accepted_bounds [OF wf bnd inserted(1-4)] by blast
    have "active_seats now (er_id x) (reservations_tbl db') < 2 ^ 31" if x: "x \<in> set (events_tbl db)" for x
      using insert_reservation_seats(1) [OF wf inserted(5), of now "er_id x"] ev'(3)
        event_bounds(1) [OF wf ev'(1)] bnd x
      by (cases "er_id x = e") (auto simp: seats_bounded_def list_all_iff)
    then show ?thesis
      unfolding inserted(6) seats_bounded_def list_all_iff insert_reservation_tables(1) [OF inserted(5)] by blast
  qed
  ultimately show ?thesis using sold mine by (simp add: unat_add_u32)
qed

theorem ReserveEvent_additions_exact_witness:
  "unat ((0 :: u32) + 2) = unat (0 :: u32) + unat (2 :: u32) \<and> unat ((0 :: u32) + 2) = unat (0 :: u32) + unat (2 :: u32)
   \<and> seats_bounded 5 (fst (pg_ReserveEvent (\<lambda>_. Done) 5 5 ''r1'' ''e1'' ''u1'' 2 None demo_db))"
  by (rule ReserveEvent_additions_exact [OF demo_db_wf, of 5 "''e1''" 2 2 2 "''u1''" 0 0])
     (simp_all add: seats_bounded_def select_event_for_update_def select_active_sums_def scan_u32_def demo_defs)

text \<open>
  C7: the reservation lifecycle. In every run of transactions one after the other, each row that exists keeps its identity, owner,
  event, seats, key and deadline; a confirmed, released or expired reservation never changes
  its status again; and a hold whose deadline has passed can only stay held or become expired,
  so it is never confirmed.
\<close>

theorem reservation_lifecycle:
  assumes "pg_wf db" and "within_capacity t db" and "within_quota t db"
    and "store_step\<^sup>*\<^sup>* (t, db) (t', db')" and "r \<in> set (reservations_tbl db)"
  shows "\<exists>r' \<in> set (reservations_tbl db'). row_history t r r'"
  using store_run_row [OF assms(4)] assms by (simp add: store_inv_def)

theorem reservation_lifecycle_witness:
  "\<exists>r' \<in> set (reservations_tbl (fst (pg_RefreshEventStatus Done 20
      (demo_db\<lparr>reservations_tbl := [demo_hold ''r1'' 1 (Some ''k'') 10]\<rparr>)))).
     row_history 20 (demo_hold ''r1'' 1 (Some ''k'') 10) r'"
  by (rule reservation_lifecycle [OF demo_db_hold_wf, of 20 20])
     (auto simp: within_capacity_def within_quota_def demo_defs active_at_def intro: store_step.sweep)

text \<open>
  C8: confirm and release act once, on the owner's running hold. A successful call found exactly
  the row with that id, owned by the caller, held and not past its deadline; that row and no
  other is rewritten; a confirm keeps the active seats of every event, a release frees exactly
  the row's seats; and no later confirm or release of the same reservation can succeed.
\<close>

theorem UpdateReservation_exactly_once:
  assumes wf: "pg_wf db" and call: "pg_UpdateReservation flt now wall u rid st db = (db', Inr e)"
  shows "\<exists>r \<in> set (reservations_tbl db).
     res_Id r = rid \<and> res_UserId r = u \<and> res_Status r = StatusHeld \<and> now < res_ExpiresAt r \<and> e = res_EventId r
     \<and> reservations_tbl db' = map (\<lambda>x. if x = r then set_status st now wall r else x) (reservations_tbl db)
     \<and> (\<forall>e'. active_seats now e' (reservations_tbl db') + (if e' = e \<and> st = StatusReleased then quantity_of r else 0)
              = active_seats now e' (reservations_tbl db))
     \<and> (\<forall>flt' now' wall' u' st'. isl (snd (pg_UpdateReservation flt' now' wall' u' rid st' db')))"
  using wf call
proof (cases rule: pg_UpdateReservation_InrE)
  case (1 r)
  have rid: "res_Id r = rid" and held: "res_Status r = StatusHeld" "now < res_ExpiresAt r" "res_UserId r = u"
    using 1(2) by (auto simp: updatable_def)
  have "reservations_tbl db' = map (\<lambda>x. if x = r then set_status st now wall r else x) (reservations_tbl db)"
    using 1(5) updatable_unique [OF wf 1(1,2)] by (auto intro: map_cong)
  moreover have "active_seats now e' (reservations_tbl db') + (if e' = e \<and> st = StatusReleased then quantity_of r else 0)
      = active_seats now e' (reservations_tbl db)" for e'
    using seats_where_map_one [of "reservations_tbl db" r "\<lambda>x. res_EventId x = e' \<and> active_at now x" "set_status st now wall"]
      wf 1(1,3,4,5) held by (auto simp: pg_wf_def reservations_ok_def active_seats_def active_at_def rid split: if_splits)
  moreover have "isl (snd (pg_UpdateReservation flt' now' wall' u' rid st' db'))" for flt' now' wall' u' st'
  proof (rule pg_UpdateReservation_no_row)
    fix x assume "x \<in> set (reservations_tbl db')" and "res_Id x = rid"
    then have "res_Status x = st" unfolding 1(5) by (simp add: image_iff) (metis set_status_fields(6))
    then show "res_Status x \<noteq> StatusHeld" using 1(4) by fastforce
  qed
  ultimately show ?thesis using 1(1,3) rid held by blast
qed

theorem UpdateReservation_exactly_once_witness:
  "\<exists>r \<in> set (reservations_tbl (demo_db\<lparr>reservations_tbl := [demo_hold ''r1'' 1 (Some ''k'') 10]\<rparr>)).
     res_Id r = ''r1'' \<and> res_UserId r = ''u1'' \<and> res_Status r = StatusHeld \<and> 5 < res_ExpiresAt r
     \<and> ''e1'' = res_EventId r"
  using UpdateReservation_exactly_once [OF demo_db_hold_wf, of "\<lambda>_. Done" 5 5 "''u1''" "''r1''" StatusConfirmed _ "''e1''"]
  by (simp add: pg_UpdateReservation_def updatable_def demo_defs)

text \<open>
  C10: the sweep expires exactly the lapsed holds. Afterwards no hold is past its deadline, the
  active seats of every event are what they were at every moment from now on, the reported
  events are the events of the expired holds without repetition, the reported total is their
  number, and sweeping again changes and reports nothing.
\<close>

theorem RefreshEventStatus_sweeps_exactly:
  "case pg_RefreshEventStatus Done now db of
     (db', Inr (eventIds, n)) \<Rightarrow>
       reservations_tbl db' = map (expire_row now) (reservations_tbl db)
       \<and> list_all (\<lambda>r. \<not> hold_lapsed now r) (reservations_tbl db')
       \<and> (\<forall>d e. active_seats (now + int d) e (reservations_tbl db') = active_seats (now + int d) e (reservations_tbl db))
       \<and> distinct eventIds \<and> set eventIds = res_EventId ` set (filter (hold_lapsed now) (reservations_tbl db))
       \<and> n = length (filter (hold_lapsed now) (reservations_tbl db))
       \<and> pg_RefreshEventStatus Done now db' = (db', Inr ([], 0))
   | (_, Inl _) \<Rightarrow> False"
proof -
  let ?rs = "map (expire_row now) (reservations_tbl db)"
  have none: "filter (hold_lapsed now) ?rs = []"
    by (simp add: filter_empty_conv expire_row_done del: expire_row_fields)
  have "map (expire_row now) ?rs = ?rs"
    by (simp add: expire_row_done expire_row_def [of now "expire_row now r" for r] del: expire_row_fields)
  then have again: "pg_RefreshEventStatus Done now (db\<lparr>reservations_tbl := ?rs\<rparr>) = (db\<lparr>reservations_tbl := ?rs\<rparr>, Inr ([], 0))"
    by (simp add: pg_RefreshEventStatus_def expired_groups_def none del: map_map)
  have "list_all (\<lambda>r. \<not> hold_lapsed now r) ?rs" by (simp add: list_all_iff expire_row_done del: expire_row_fields)
  then show ?thesis
    using again by (simp add: pg_RefreshEventStatus_def Let_def expired_groups_total expired_groups_events expire_seats del: map_map)
qed

text \<open>
  C9: a retry with the same idempotency key takes no more seats. Once a row with the key exists
  (from an earlier call of the same user for the same event, even one whose commit reply was
  lost), every further \<open>ReserveEvent\<close> with that key leaves the rows as they are, up to the time of the last update, and with them the
  active seats, and an answer is that reservation. When no call fails, the retry is answered with that reservation exactly
  if the limits admit the requested seats once more; otherwise it is refused for the limit it meets, since
  the checks come before the insert and count the seats of the reservation itself. It never fails on the unique key.
\<close>

theorem ReserveEvent_replay_idempotent:
  assumes wf: "pg_wf db" and r0: "r0 \<in> set (reservations_tbl db)" "has_key e u k r0"
    and call: "pg_ReserveEvent flt now wall i e u q (Some k) db = (db', c, res)"
  shows "map res_Id (reservations_tbl db') = map res_Id (reservations_tbl db)
    \<and> map (\<lambda>r. r\<lparr>res_UpdatedAt := 0\<rparr>) (reservations_tbl db') = map (\<lambda>r. r\<lparr>res_UpdatedAt := 0\<rparr>) (reservations_tbl db)
    \<and> (\<forall>t e'. active_seats t e' (reservations_tbl db') = active_seats t e' (reservations_tbl db))
    \<and> (\<forall>r. res = Inr r \<longrightarrow> r = r0\<lparr>res_UpdatedAt := now\<rparr>)
    \<and> (flt = (\<lambda>_. Done) \<and> seats_bounded now db \<and> 0 < q \<and> ev \<in> set (events_tbl db) \<and> er_id ev = e \<longrightarrow> res =
         (if unat (ev_MaxReservePerUser (er_item ev)) < user_active_seats now e u (reservations_tbl db) + unat q
          then Inl ErrExceedMaxReserveQuantity
          else if unat (ev_Capacity (er_item ev)) < active_seats now e (reservations_tbl db) + unat q
          then Inl ErrInsufficientCapacity
          else Inr (r0\<lparr>res_UpdatedAt := now\<rparr>)))"
proof -
  have conf: "conflicting_row e u (Some k) db = Some r0" by (rule conflicting_row_key [OF wf r0])
  have "res = Inr r \<Longrightarrow> r = r0\<lparr>res_UpdatedAt := now\<rparr>" for r
    using pg_ReserveEvent_InrD [of flt now wall i e u q "Some k" db db' c r] call conf
    by (auto simp: insert_reservation_def Let_def split: if_splits)
  moreover have "res = (if unat (ev_MaxReservePerUser (er_item ev)) < user_active_seats now e u (reservations_tbl db) + unat q
      then Inl ErrExceedMaxReserveQuantity
      else if unat (ev_Capacity (er_item ev)) < active_seats now e (reservations_tbl db) + unat q
      then Inl ErrInsufficientCapacity else Inr (r0\<lparr>res_UpdatedAt := now\<rparr>))"
    if "flt = (\<lambda>_. Done)" "seats_bounded now db" "0 < q" "ev \<in> set (events_tbl db)" "er_id ev = e"
    using replay_reference [OF wf that(2,3) conf that(4,5), of wall i] call that(1) by simp
  ultimately show ?thesis using replay_rows [OF wf conf call] by blast
qed

theorem ReserveEvent_replay_idempotent_witness:
  "(let db = demo_db\<lparr>reservations_tbl := [demo_hold ''r1'' 1 (Some ''k'') 10]\<rparr>;
        out = pg_ReserveEvent (\<lambda>_. Done) 5 5 ''r2'' ''e1'' ''u1'' 1 (Some ''k'') db
    in map res_Id (reservations_tbl (fst out)) = [''r1'']
       \<and> snd (snd out) = Inr ((demo_hold ''r1'' 1 (Some ''k'') 10)\<lparr>res_UpdatedAt := 5\<rparr>))"
proof -
  let ?db = "demo_db\<lparr>reservations_tbl := [demo_hold ''r1'' 1 (Some ''k'') 10]\<rparr>"
  let ?out = "pg_ReserveEvent (\<lambda>_. Done) 5 5 ''r2'' ''e1'' ''u1'' 1 (Some ''k'') ?db"
  obtain db' c res where out: "?out = (db', c, res)" by (cases ?out)
  have ev: "demo_event \<in> set (events_tbl ?db)" "er_id demo_event = ''e1''" by (simp_all add: demo_db_def demo_event_def)
  have row: "demo_hold ''r1'' 1 (Some ''k'') 10 \<in> set (reservations_tbl ?db)" "has_key ''e1'' ''u1'' ''k'' (demo_hold ''r1'' 1 (Some ''k'') 10)"
    by (simp_all add: demo_hold_def)
  have sums: "active_seats 5 ''e1'' (reservations_tbl ?db) = 1" "user_active_seats 5 ''e1'' ''u1'' (reservations_tbl ?db) = 1"
    by (simp_all add: demo_hold_def active_at_def)
  have limits: "unat (ev_MaxReservePerUser (er_item demo_event)) = 2" "unat (ev_Capacity (er_item demo_event)) = 2"
    by (simp_all add: demo_event_def)
  have bounded: "seats_bounded 5 ?db" by (simp add: seats_bounded_def demo_defs)
  have ids: "map res_Id (reservations_tbl ?db) = [''r1'']" by (simp add: demo_hold_def)
  note replay = ReserveEvent_replay_idempotent [OF demo_db_hold_wf row out, of demo_event, unfolded sums limits ids]
  have "map res_Id (reservations_tbl db') = [''r1'']" using replay by blast
  moreover have "res = Inr ((demo_hold ''r1'' 1 (Some ''k'') 10)\<lparr>res_UpdatedAt := 5\<rparr>)"
    using mp [OF replay [THEN conjunct2, THEN conjunct2, THEN conjunct2, THEN conjunct2]] ev bounded by simp
  ultimately show ?thesis unfolding Let_def out by simp
qed

text \<open>
  What a keyed reserve returns is what the key looks up. After a successful keyed
  \<open>ReserveEvent\<close> the lookup by event, user and key returns exactly the returned reservation,
  of that event and user.
\<close>

lemma ReserveEvent_lookup_roundtrip:
  assumes wf: "pg_wf db" and call: "pg_ReserveEvent flt now wall i e u q (Some k) db = (db', c, Inr r)"
  shows "pg_GetReservationByIdempotencyKey Done e u k db' = Inr r \<and> pg_GetReservation Done (res_Id r) db' = Inr r
    \<and> res_EventId r = e \<and> res_UserId r = u"
proof -
  have ins: "insert_reservation now i e u q (Some k) wall (wall + reservationTTL) db = Inr (db', r)"
    by (rule pg_ReserveEvent_InrD [OF call])
  have wf': "pg_wf db'" by (rule insert_reservation_wf [OF wf ins])
  have r: "r \<in> set (reservations_tbl db')" "has_key e u k r"
    using wf ins by (cases rule: insert_reservation_wfE; force dest: conflicting_row_SomeD)+
  have "find (\<lambda>x. res_Id x = res_Id r) (reservations_tbl db') = Some r"
    by (rule find_Some_unique) (use wf' r in \<open>auto simp: pg_wf_def reservations_ok_def\<close>)
  with r GetReservationByIdempotencyKey_found [OF wf' r] show ?thesis by (simp add: pg_GetReservation_def)
qed

text \<open>
  The capacity flag of a replay counts the replayed seats twice. One seat of two is held under
  a key; the same request again changes no seats, is answered with the same reservation, and
  reports the event as capped although a seat is free.
\<close>

lemma ReserveEvent_replay_overstates_capped:
  "(let db = demo_db\<lparr>reservations_tbl := [demo_hold ''r1'' 1 (Some ''k'') 10]\<rparr>;
        (db', isCapped, res) = pg_ReserveEvent (\<lambda>_. Done) 5 5 ''r2'' ''e1'' ''u1'' 1 (Some ''k'') db
    in isCapped \<and> \<not> isl res \<and> res_Id (projr res) = ''r1''
       \<and> active_seats 5 ''e1'' (reservations_tbl db') = 1 \<and> unat (ev_Capacity (er_item demo_event)) = 2)"
  by (simp add: pg_ReserveEvent_def select_event_for_update_def select_active_sums_def scan_u32_def reserve_check_def
      insert_reservation_def conflicting_row_def active_at_def Let_def demo_defs)

end
