(* ===== verification/Interleaving.thy ===== *)
theory Interleaving
  imports PostgresReservation
begin

text \<open>
  Concurrent transactions on the reservation tables, statement by statement. Theory
  \<open>PostgresReservation\<close> treats a transaction as one step; here any number of them interleave, as
  READ COMMITTED lets them: \<open>now()\<close> is fixed when a transaction begins, every statement reads what
  is committed when it runs, the lock that \<open>SELECT ... FOR UPDATE\<close> takes on the event's row is held
  to the end, and a transaction's writes appear at its commit. An \<open>UPDATE\<close> and its commit are one
  step, because the rows it touched are locked in between and nobody else sees them.
\<close>

section \<open>Transactions\<close>

record reserve_req =
  tq_event :: string
  tq_user :: string
  tq_qty :: u32
  tq_key :: "string option"
  tq_id :: string

text \<open>
  Where a transaction is: not begun; a reserve that waits for the event's lock, that holds it, that
  has its sums and passed the checks; a confirm or release that has begun; a sweep that has begun.
  The time is the transaction's \<open>now()\<close>.
\<close>

datatype tx =
    Idle
  | RBegun reserve_req time
  | RLocked reserve_req time u32 u32
  | RSummed reserve_req time u32 u32 u32 u32
  | UBegun string string ReservationStatus time
  | SBegun time

record conc =
  clk :: time
  cdb :: pg
  txs :: "nat \<Rightarrow> tx"

fun holds_lock :: "string \<Rightarrow> tx \<Rightarrow> bool" where
  "holds_lock e (RLocked q now cap quota) = (tq_event q = e)"
| "holds_lock e (RSummed q now cap quota sold mine) = (tq_event q = e)"
| "holds_lock e _ = False"

definition lock_free :: "string \<Rightarrow> conc \<Rightarrow> bool" where
  "lock_free e s \<longleftrightarrow> (\<forall>i. \<not> holds_lock e (txs s i))"

definition after_lock :: "reserve_req \<Rightarrow> time \<Rightarrow> pg \<Rightarrow> tx" where
  "after_lock q now db =
     (case select_event_for_update Done (tq_event q) db of
        Inl _ \<Rightarrow> Idle
      | Inr (cap, quota) \<Rightarrow> if quota < tq_qty q then Idle else RLocked q now cap quota)"

definition after_sum :: "reserve_req \<Rightarrow> time \<Rightarrow> u32 \<Rightarrow> u32 \<Rightarrow> pg \<Rightarrow> tx" where
  "after_sum q now cap quota db =
     (case select_active_sums Done now (tq_event q) (tq_user q) db of
        Inl _ \<Rightarrow> Idle
      | Inr (sold, mine) \<Rightarrow>
          (case reserve_check cap quota sold mine (tq_qty q) of
             Some _ \<Rightarrow> Idle
           | None \<Rightarrow> RSummed q now cap quota sold mine))"

definition after_insert :: "reserve_req \<Rightarrow> time \<Rightarrow> time \<Rightarrow> pg \<Rightarrow> pg" where
  "after_insert q now wall db =
     (case insert_reservation now (tq_id q) (tq_event q) (tq_user q) (tq_qty q) (tq_key q) wall (wall + reservationTTL) db of
        Inl _ \<Rightarrow> db
      | Inr (db', _) \<Rightarrow> db')"

abbreviation set_tx :: "nat \<Rightarrow> tx \<Rightarrow> conc \<Rightarrow> conc" where
  "set_tx i x s \<equiv> s\<lparr>txs := (txs s)(i := x)\<rparr>"

text \<open>
  The statements. \<open>careful\<close> restricts the runs: the sums of a reserve stay below \<open>2^31\<close>, and a confirm
  commits before the hold's deadline.
\<close>

inductive work :: "bool \<Rightarrow> conc \<Rightarrow> conc \<Rightarrow> bool" for careful :: bool where
  lock: "txs s i = RBegun q now \<Longrightarrow> lock_free (tq_event q) s \<Longrightarrow>
    work careful s (set_tx i (after_lock q now (cdb s)) s)"
| sums: "txs s i = RLocked q now cap quota \<Longrightarrow> (careful \<longrightarrow> seats_bounded now (cdb s)) \<Longrightarrow>
    work careful s (set_tx i (after_sum q now cap quota (cdb s)) s)"
| insert: "txs s i = RSummed q now cap quota sold mine \<Longrightarrow>
    work careful s (set_tx i Idle (s\<lparr>cdb := after_insert q now wall (cdb s)\<rparr>))"
| update: "txs s i = UBegun u rid st now \<Longrightarrow>
    (careful \<longrightarrow> st = StatusConfirmed \<longrightarrow>
       (\<forall>r \<in> set (reservations_tbl (cdb s)). updatable now u rid r \<longrightarrow> clk s < res_ExpiresAt r)) \<Longrightarrow>
    work careful s (set_tx i Idle (s\<lparr>cdb := fst (pg_UpdateReservation (\<lambda>_. Done) now wall u rid st (cdb s))\<rparr>))"
| sweep: "txs s i = SBegun now \<Longrightarrow>
    work careful s (set_tx i Idle (s\<lparr>cdb := fst (pg_RefreshEventStatus Done now (cdb s))\<rparr>))"

text \<open>Time passes, transactions begin with the clock's reading as \<open>now()\<close>, and any may be rolled back.\<close>

inductive conc_step :: "bool \<Rightarrow> conc \<Rightarrow> conc \<Rightarrow> bool" for careful :: bool where
  work: "work careful s s' \<Longrightarrow> conc_step careful s s'"
| tick: "clk s \<le> t \<Longrightarrow> conc_step careful s (s\<lparr>clk := t\<rparr>)"
| begin_reserve: "txs s i = Idle \<Longrightarrow> conc_step careful s (set_tx i (RBegun q (clk s)) s)"
| begin_update: "txs s i = Idle \<Longrightarrow> conc_step careful s (set_tx i (UBegun u rid st (clk s)) s)"
| begin_sweep: "txs s i = Idle \<Longrightarrow> conc_step careful s (set_tx i (SBegun (clk s)) s)"
| abort: "conc_step careful s (set_tx i Idle s)"

section \<open>Run alone, the statements are the transaction\<close>

text \<open>The three statements of a reserve in a row give what \<open>pg_ReserveEvent\<close> gives.\<close>

lemma reserve_alone:
  assumes "txs s i = RBegun q now" and "lock_free (tq_event q) s"
  shows "\<exists>s'. (work False)\<^sup>*\<^sup>* s s' \<and> txs s' = (txs s)(i := Idle) \<and> clk s' = clk s
    \<and> cdb s' = fst (pg_ReserveEvent (\<lambda>_. Done) now wall (tq_id q) (tq_event q) (tq_user q) (tq_qty q) (tq_key q) (cdb s))"
proof -
  let ?run = "pg_ReserveEvent (\<lambda>_. Done) now wall (tq_id q) (tq_event q) (tq_user q) (tq_qty q) (tq_key q) (cdb s)"
  let ?s1 = "set_tx i (after_lock q now (cdb s)) s"
  have w1: "work False s ?s1" by (rule work.lock [OF assms])
  show ?thesis
  proof (cases "\<exists>cap quota. select_event_for_update Done (tq_event q) (cdb s) = Inr (cap, quota) \<and> \<not> quota < tq_qty q")
    case False
    then have "after_lock q now (cdb s) = Idle" "fst ?run = cdb s"
      by (auto simp: after_lock_def pg_ReserveEvent_def split: sum.splits)
    then show ?thesis using w1 by (intro exI [of _ ?s1]) auto
  next
    case True
    then obtain cap quota where sel: "select_event_for_update Done (tq_event q) (cdb s) = Inr (cap, quota)" "\<not> quota < tq_qty q" by blast
    then have locked: "after_lock q now (cdb s) = RLocked q now cap quota" by (simp add: after_lock_def)
    let ?s2 = "set_tx i (after_sum q now cap quota (cdb s)) ?s1"
    have w2: "(work False)\<^sup>*\<^sup>* s ?s2"
      using work.sums [of ?s1 i q now cap quota False] w1 locked by (auto intro: rtranclp.intros)
    show ?thesis
    proof (cases "\<exists>sold mine. select_active_sums Done now (tq_event q) (tq_user q) (cdb s) = Inr (sold, mine)
        \<and> reserve_check cap quota sold mine (tq_qty q) = None")
      case False
      then have "after_sum q now cap quota (cdb s) = Idle" "fst ?run = cdb s" using sel
        by (auto simp: after_sum_def pg_ReserveEvent_def Let_def split: sum.splits option.splits)
      then show ?thesis using w2 by (intro exI [of _ ?s2]) (auto simp: fun_upd_def)
    next
      case True
      then obtain sold mine where sums: "select_active_sums Done now (tq_event q) (tq_user q) (cdb s) = Inr (sold, mine)"
        "reserve_check cap quota sold mine (tq_qty q) = None" by blast
      then have summed: "after_sum q now cap quota (cdb s) = RSummed q now cap quota sold mine" by (simp add: after_sum_def)
      let ?s3 = "set_tx i Idle (?s2\<lparr>cdb := after_insert q now wall (cdb s)\<rparr>)"
      have "(work False)\<^sup>*\<^sup>* s ?s3"
        using work.insert [of ?s2 i q now cap quota sold mine False wall] w2 summed by (auto intro: rtranclp.intros)
      moreover have "fst ?run = after_insert q now wall (cdb s)"
        using sel sums by (simp add: pg_ReserveEvent_def after_insert_def Let_def split: sum.splits)
      ultimately show ?thesis by (intro exI [of _ ?s3]) auto
    qed
  qed
qed

section \<open>The invariant\<close>

text \<open>
  A reserve that passed its checks knows that its seats still fit at the present moment; nobody
  else can add seats of the event while it holds the lock.
\<close>

fun tx_ok :: "time \<Rightarrow> pg \<Rightarrow> tx \<Rightarrow> bool" where
  "tx_ok t db Idle = True"
| "tx_ok t db (RBegun q now) = (now \<le> t)"
| "tx_ok t db (RLocked q now cap quota) =
     (now \<le> t \<and> select_event_for_update Done (tq_event q) db = Inr (cap, quota) \<and> tq_qty q \<le> quota)"
| "tx_ok t db (RSummed q now cap quota sold mine) =
     (now \<le> t \<and> select_event_for_update Done (tq_event q) db = Inr (cap, quota)
      \<and> active_seats t (tq_event q) (reservations_tbl db) + unat (tq_qty q) \<le> unat cap
      \<and> user_active_seats t (tq_event q) (tq_user q) (reservations_tbl db) + unat (tq_qty q) \<le> unat quota)"
| "tx_ok t db (UBegun u rid st now) = (now \<le> t)"
| "tx_ok t db (SBegun now) = (now \<le> t)"

definition conc_inv :: "conc \<Rightarrow> bool" where
  "conc_inv s \<longleftrightarrow> store_inv (clk s, cdb s)
     \<and> (\<forall>i j e. holds_lock e (txs s i) \<longrightarrow> holds_lock e (txs s j) \<longrightarrow> i = j)
     \<and> (\<forall>i. tx_ok (clk s) (cdb s) (txs s i))"

lemma conc_invD:
  assumes "conc_inv s"
  shows "store_inv (clk s, cdb s)" "\<And>i j e. holds_lock e (txs s i) \<Longrightarrow> holds_lock e (txs s j) \<Longrightarrow> i = j"
    "\<And>i. tx_ok (clk s) (cdb s) (txs s i)"
  using assms unfolding conc_inv_def by blast+

lemma select_event_tables: "events_tbl db' = events_tbl db \<Longrightarrow> select_event_for_update x e db' = select_event_for_update x e db"
  by (simp only: select_event_for_update_def)

text \<open>What adds no seats from now on disturbs no transaction.\<close>

lemma tx_ok_fewer:
  assumes "tx_ok t db x" and "events_tbl db' = events_tbl db" and "t \<le> t'"
    and "\<And>e. active_seats t' e (reservations_tbl db') \<le> active_seats t e (reservations_tbl db)"
    and "\<And>e u. user_active_seats t' e u (reservations_tbl db') \<le> user_active_seats t e u (reservations_tbl db)"
  shows "tx_ok t' db' x"
  using assms(1,2,3) order_trans [OF add_right_mono [OF assms(4)]] order_trans [OF add_right_mono [OF assms(5)]]
  by (cases x) (auto simp: select_event_tables [OF assms(2)] intro: order_trans)

lemma conc_inv_fewer:
  assumes inv: "conc_inv s" and "store_inv (clk s', cdb s')" and "events_tbl (cdb s') = events_tbl (cdb s)" and "clk s \<le> clk s'"
    and "\<And>e. active_seats (clk s') e (reservations_tbl (cdb s')) \<le> active_seats (clk s) e (reservations_tbl (cdb s))"
    and "\<And>e u. user_active_seats (clk s') e u (reservations_tbl (cdb s')) \<le> user_active_seats (clk s) e u (reservations_tbl (cdb s))"
    and "\<And>j. txs s' j = txs s j \<or> txs s' j = Idle"
  shows "conc_inv s'"
proof -
  have "tx_ok (clk s') (cdb s') (txs s' j)" for j
    using assms(7) [of j] tx_ok_fewer [OF conc_invD(3) [OF inv] assms(3-6)] by auto
  moreover have "i = j" if "holds_lock e (txs s' i)" "holds_lock e (txs s' j)" for i j e
    using assms(7) [of i] assms(7) [of j] that conc_invD(2) [OF inv] by auto
  ultimately show ?thesis using assms(2) unfolding conc_inv_def by blast
qed

text \<open>Changing only where one transaction is.\<close>

lemma conc_inv_set_tx:
  assumes inv: "conc_inv s" and ok: "tx_ok (clk s) (cdb s) x"
    and locks: "\<And>e. holds_lock e x \<Longrightarrow> holds_lock e (txs s i) \<or> lock_free e s"
  shows "conc_inv (set_tx i x s)"
proof -
  have uniq: "j = k" if "holds_lock e (((txs s)(i := x)) j)" "holds_lock e (((txs s)(i := x)) k)" for j k e
  proof (cases "holds_lock e x")
    case True
    then show ?thesis
      using that locks [OF True] conc_invD(2) [OF inv, of e i] by (auto simp: lock_free_def split: if_splits)
  next
    case False
    then show ?thesis using that conc_invD(2) [OF inv] by (auto split: if_splits)
  qed
  show ?thesis unfolding conc_inv_def
  proof (intro conjI allI impI)
    show "store_inv (clk (set_tx i x s), cdb (set_tx i x s))" using conc_invD(1) [OF inv] by simp
    show "tx_ok (clk (set_tx i x s)) (cdb (set_tx i x s)) (txs (set_tx i x s) j)" for j
      using ok conc_invD(3) [OF inv] by simp
    show "j = k" if "holds_lock e (txs (set_tx i x s) j)" "holds_lock e (txs (set_tx i x s) k)" for j k e
      by (rule uniq [of e]) (use that in simp_all)
  qed
qed

lemma confirm_seats:
  assumes "now \<le> t" and "st = StatusConfirmed \<or> st = StatusReleased"
    and "\<And>r. r \<in> set (reservations_tbl db) \<Longrightarrow> updatable now u rid r \<Longrightarrow> st = StatusConfirmed \<Longrightarrow> t < res_ExpiresAt r"
  shows "active_seats t e (reservations_tbl (apply_update now wall u rid st db)) \<le> active_seats t e (reservations_tbl db)"
    and "user_active_seats t e v (reservations_tbl (apply_update now wall u rid st db)) \<le> user_active_seats t e v (reservations_tbl db)"
proof -
  let ?f = "\<lambda>x. if updatable now u rid x then set_status st now wall x else x"
  have was_active: "active_at t r" if "r \<in> set (reservations_tbl db)" "active_at t (?f r)" for r
  proof (cases "updatable now u rid r")
    case True
    then have "st = StatusConfirmed" using that(2) assms(2) by (auto simp: active_at_def)
    then have "t < res_ExpiresAt r" by (rule assms(3) [OF that(1) True])
    with True show ?thesis by (simp add: updatable_def active_at_def)
  qed (use that in simp)
  have same: "res_EventId (?f r) = res_EventId r" "res_UserId (?f r) = res_UserId r" "quantity_of (?f r) = quantity_of r" for r
    by simp_all
  have rows: "reservations_tbl (apply_update now wall u rid st db) = map ?f (reservations_tbl db)"
    by (simp add: apply_update_def)
  show "active_seats t e (reservations_tbl (apply_update now wall u rid st db)) \<le> active_seats t e (reservations_tbl db)"
    unfolding rows active_seats_def
  proof (rule seats_where_map_le)
    show "(res_EventId r = e \<and> active_at t r) \<and> quantity_of (?f r) \<le> quantity_of r"
      if "r \<in> set (reservations_tbl db)" "res_EventId (?f r) = e \<and> active_at t (?f r)" for r
      using was_active [OF that(1)] that(2) same [of r] by simp
  qed
  show "user_active_seats t e v (reservations_tbl (apply_update now wall u rid st db)) \<le> user_active_seats t e v (reservations_tbl db)"
    unfolding rows user_active_seats_def
  proof (rule seats_where_map_le)
    show "(res_EventId r = e \<and> res_UserId r = v \<and> active_at t r) \<and> quantity_of (?f r) \<le> quantity_of r"
      if "r \<in> set (reservations_tbl db)" "res_EventId (?f r) = e \<and> res_UserId (?f r) = v \<and> active_at t (?f r)" for r
      using was_active [OF that(1)] that(2) same [of r] by simp
  qed
qed

lemma conc_inv_update:
  assumes inv: "conc_inv s" and tx: "txs s i = UBegun u rid st now"
    and careful: "st = StatusConfirmed \<Longrightarrow> \<forall>r \<in> set (reservations_tbl (cdb s)). updatable now u rid r \<longrightarrow> clk s < res_ExpiresAt r"
  shows "conc_inv (set_tx i Idle (s\<lparr>cdb := fst (pg_UpdateReservation (\<lambda>_. Done) now wall u rid st (cdb s))\<rparr>))"
proof (cases rule: pg_UpdateReservation_cases [of "\<lambda>_. Done" now wall u rid st "cdb s"])
  case unchanged
  then show ?thesis using conc_inv_set_tx [OF inv, of Idle i] by simp
next
  case updated
  have now: "now \<le> clk s" using conc_invD(3) [OF inv, of i] tx by simp
  note less = confirm_seats [OF now updated(1), of "cdb s" u rid]
  have "pg_wf (cdb s)" using conc_invD(1) [OF inv] by (simp add: store_inv_def)
  then have wf: "pg_wf (apply_update now wall u rid st (cdb s))"
    using pg_UpdateReservation_wf [of "cdb s" "\<lambda>_. Done" now wall u rid st] updated(2) by simp
  have tabs: "events_tbl (apply_update now wall u rid st (cdb s)) = events_tbl (cdb s)"
    "users_tbl (apply_update now wall u rid st (cdb s)) = users_tbl (cdb s)" by (simp_all add: apply_update_def)
  have "store_inv (clk s, apply_update now wall u rid st (cdb s))"
    by (rule store_inv_fewer_seats [OF conc_invD(1) [OF inv] wf tabs]) (use less careful in auto)
  then show ?thesis unfolding updated(2)
    by (intro conc_inv_fewer [OF inv]) (use less careful tabs in auto)
qed

lemma conc_inv_sweep:
  assumes inv: "conc_inv s" and tx: "txs s i = SBegun now"
  shows "conc_inv (set_tx i Idle (s\<lparr>cdb := fst (pg_RefreshEventStatus Done now (cdb s))\<rparr>))"
proof -
  let ?db = "(cdb s)\<lparr>reservations_tbl := map (expire_row now) (reservations_tbl (cdb s))\<rparr>"
  have now: "now \<le> clk s" using conc_invD(3) [OF inv, of i] tx by simp
  have db: "fst (pg_RefreshEventStatus Done now (cdb s)) = ?db" by (simp add: pg_RefreshEventStatus_def)
  have "pg_wf (cdb s)" using conc_invD(1) [OF inv] by (simp add: store_inv_def)
  then have "pg_wf ?db" unfolding db [symmetric] by (rule pg_RefreshEventStatus_wf)
  then have "store_inv (clk s, ?db)"
    by (rule store_inv_fewer_seats [OF conc_invD(1) [OF inv]]) (simp_all add: expire_seats [OF now])
  then show ?thesis unfolding db
    by (intro conc_inv_fewer [OF inv]) (simp_all add: expire_seats [OF now])
qed

lemma conc_inv_lock:
  assumes inv: "conc_inv s" and tx: "txs s i = RBegun q now" and free: "lock_free (tq_event q) s"
  shows "conc_inv (set_tx i (after_lock q now (cdb s)) s)"
proof (rule conc_inv_set_tx [OF inv])
  have "now \<le> clk s" using conc_invD(3) [OF inv, of i] tx by simp
  then show "tx_ok (clk s) (cdb s) (after_lock q now (cdb s))"
    by (auto simp: after_lock_def not_less split: sum.splits)
  show "holds_lock e (txs s i) \<or> lock_free e s" if "holds_lock e (after_lock q now (cdb s))" for e
    using that free by (auto simp: after_lock_def split: sum.splits prod.splits if_splits)
qed

lemma conc_inv_sums:
  assumes inv: "conc_inv s" and tx: "txs s i = RLocked q now cap quota" and bnd: "seats_bounded now (cdb s)"
  shows "conc_inv (set_tx i (after_sum q now cap quota (cdb s)) s)"
proof (rule conc_inv_set_tx [OF inv])
  have ok: "now \<le> clk s" "select_event_for_update Done (tq_event q) (cdb s) = Inr (cap, quota)" "tq_qty q \<le> quota"
    using conc_invD(3) [OF inv, of i] tx by simp_all
  have wf: "pg_wf (cdb s)" using conc_invD(1) [OF inv] by (simp add: store_inv_def)
  show "tx_ok (clk s) (cdb s) (after_sum q now cap quota (cdb s))"
  proof (cases "\<exists>sold mine. select_active_sums Done now (tq_event q) (tq_user q) (cdb s) = Inr (sold, mine)
      \<and> reserve_check cap quota sold mine (tq_qty q) = None")
    case False
    then have "after_sum q now cap quota (cdb s) = Idle" by (auto simp: after_sum_def split: sum.splits option.splits)
    then show ?thesis by simp
  next
    case True
    then obtain sold mine where sums: "select_active_sums Done now (tq_event q) (tq_user q) (cdb s) = Inr (sold, mine)"
      "reserve_check cap quota sold mine (tq_qty q) = None" by blast
    obtain ev where ev: "ev \<in> set (events_tbl (cdb s))" "er_id ev = tq_event q"
      "active_seats now (tq_event q) (reservations_tbl (cdb s)) + unat (tq_qty q) \<le> unat (ev_Capacity (er_item ev))"
      "user_active_seats now (tq_event q) (tq_user q) (reservations_tbl (cdb s)) + unat (tq_qty q) \<le> unat (ev_MaxReservePerUser (er_item ev))"
      using accepted_bounds [OF wf bnd ok(2,3) sums] by blast
    obtain ev' where ev': "ev' \<in> set (events_tbl (cdb s))" "er_id ev' = tq_event q" "cap = ev_Capacity (er_item ev')"
      "quota = ev_MaxReservePerUser (er_item ev')" using select_event_InrD [OF wf ok(2)] by metis
    have "ev' = ev" using event_unique [OF wf ev'(1) ev(1)] ev'(2) ev(2) by simp
    then have "active_seats (clk s) (tq_event q) (reservations_tbl (cdb s)) + unat (tq_qty q) \<le> unat cap"
      "user_active_seats (clk s) (tq_event q) (tq_user q) (reservations_tbl (cdb s)) + unat (tq_qty q) \<le> unat quota"
      using ev(3,4) ev'(3,4) active_seats_antimono [OF ok(1), of "tq_event q" "reservations_tbl (cdb s)"]
        user_active_seats_antimono [OF ok(1), of "tq_event q" "tq_user q" "reservations_tbl (cdb s)"] by auto
    then show ?thesis using ok sums by (simp add: after_sum_def)
  qed
  show "holds_lock e (txs s i) \<or> lock_free e s" if "holds_lock e (after_sum q now cap quota (cdb s))" for e
    using that tx by (auto simp: after_sum_def split: sum.splits prod.splits option.splits)
qed

text \<open>The insert of a reserve that passed its checks keeps the store within its bounds.\<close>

lemma checked_insert_store_inv:
  assumes inv: "store_inv (t, db)" and ok: "tx_ok t db (RSummed q now cap quota sold mine)"
    and ins: "insert_reservation now i (tq_event q) (tq_user q) (tq_qty q) k ra ea db = Inr (db', r)"
  shows "store_inv (t, db')"
proof -
  have wf: "pg_wf db" and cap: "within_capacity t db" and quo: "within_quota t db" using inv by (simp_all add: store_inv_def)
  have sel: "select_event_for_update Done (tq_event q) db = Inr (cap, quota)" using ok by simp
  obtain ev where ev: "ev \<in> set (events_tbl db)" "er_id ev = tq_event q" "cap = ev_Capacity (er_item ev)"
    "quota = ev_MaxReservePerUser (er_item ev)" using select_event_InrD [OF wf sel] by metis
  note tabs = insert_reservation_tables [OF ins] and more = insert_reservation_seats [OF wf ins, of t]
  have "active_seats t (er_id x) (reservations_tbl db') \<le> unat (ev_Capacity (er_item x))" if x: "x \<in> set (events_tbl db)" for x
  proof (cases "er_id x = tq_event q")
    case True
    then have "x = ev" using event_unique [OF wf x ev(1)] ev(2) by simp
    then show ?thesis using more(1) [of "tq_event q"] ok ev by simp
  next
    case False
    then show ?thesis using more(1) [of "er_id x"] within_capacityD [OF cap x] by simp
  qed
  moreover have "user_active_seats t (er_id x) (ur_id w) (reservations_tbl db') \<le> unat (ev_MaxReservePerUser (er_item x))"
    if x: "x \<in> set (events_tbl db)" and w: "w \<in> set (users_tbl db)" for x w
  proof (cases "er_id x = tq_event q \<and> ur_id w = tq_user q")
    case True
    then have "x = ev" using event_unique [OF wf x ev(1)] ev(2) by simp
    then show ?thesis using more(2) [of "tq_event q" "tq_user q"] ok ev True by simp
  next
    case False
    have "user_active_seats t (er_id x) (ur_id w) (reservations_tbl db) \<le> unat (ev_MaxReservePerUser (er_item x))"
      using quo x w by (auto simp: within_quota_def list_all_iff)
    then show ?thesis using more(2) [of "er_id x" "ur_id w"] False by auto
  qed
  ultimately show ?thesis
    using insert_reservation_wf [OF wf ins] by (simp add: store_inv_def within_capacity_def within_quota_def list_all_iff tabs)
qed

lemma conc_inv_insert:
  assumes inv: "conc_inv s" and tx: "txs s i = RSummed q now cap quota sold mine"
  shows "conc_inv (set_tx i Idle (s\<lparr>cdb := after_insert q now wall (cdb s)\<rparr>))"
proof (cases "insert_reservation now (tq_id q) (tq_event q) (tq_user q) (tq_qty q) (tq_key q) wall (wall + reservationTTL) (cdb s)")
  case (Inl e)
  then show ?thesis using conc_inv_set_tx [OF inv, of Idle i] by (simp add: after_insert_def)
next
  case (Inr p)
  then obtain db' r where ins: "insert_reservation now (tq_id q) (tq_event q) (tq_user q) (tq_qty q) (tq_key q) wall
      (wall + reservationTTL) (cdb s) = Inr (db', r)" by (cases p) auto
  let ?s = "set_tx i Idle (s\<lparr>cdb := db'\<rparr>)"
  have ok: "tx_ok (clk s) (cdb s) (RSummed q now cap quota sold mine)" using conc_invD(3) [OF inv, of i] tx by simp
  have wf: "pg_wf (cdb s)" using conc_invD(1) [OF inv] by (simp add: store_inv_def)
  note more = insert_reservation_seats [OF wf ins, of "clk s"] and tabs = insert_reservation_tables [OF ins]
  have others: "tx_ok (clk s) db' (txs s j)" if "j \<noteq> i" for j
  proof (cases "\<exists>q' now' cap' quota' sold' mine'. txs s j = RSummed q' now' cap' quota' sold' mine'")
    case True
    then obtain q' now' cap' quota' sold' mine' where j: "txs s j = RSummed q' now' cap' quota' sold' mine'" by blast
    have "tq_event q' \<noteq> tq_event q"
      using conc_invD(2) [OF inv, of "tq_event q" i j] tx j that by auto
    then show ?thesis
      using conc_invD(3) [OF inv, of j] j more(1) [of "tq_event q'"] more(2) [of "tq_event q'" "tq_user q'"]
      by (simp add: select_event_tables [OF tabs(1)])
  next
    case False
    then show ?thesis using conc_invD(3) [OF inv, of j]
      by (cases "txs s j") (auto simp: select_event_tables [OF tabs(1)])
  qed
  have "conc_inv ?s" unfolding conc_inv_def
  proof (intro conjI allI impI)
    show "store_inv (clk ?s, cdb ?s)" using checked_insert_store_inv [OF conc_invD(1) [OF inv] ok ins] by simp
    show "tx_ok (clk ?s) (cdb ?s) (txs ?s j)" for j using others by simp
    show "j = k" if "holds_lock e (txs ?s j)" "holds_lock e (txs ?s k)" for j k e
      by (rule conc_invD(2) [OF inv, of e]) (use that in \<open>auto split: if_splits\<close>)
  qed
  then show ?thesis by (simp add: after_insert_def ins)
qed

lemma conc_step_inv: "conc_step True s s' \<Longrightarrow> conc_inv s \<Longrightarrow> conc_inv s'"
proof (induction rule: conc_step.induct)
  case (work s s')
  then show ?case
  proof (induction rule: work.induct)
    case (lock s i q now)
    then show ?case by (intro conc_inv_lock)
  next
    case (sums s i q now cap quota)
    then show ?case by (intro conc_inv_sums) simp_all
  next
    case (insert s i q now cap quota sold mine wall)
    then show ?case by (intro conc_inv_insert)
  next
    case (update s i u rid st now wall)
    then show ?case by (intro conc_inv_update) simp_all
  next
    case (sweep s i now)
    then show ?case by (intro conc_inv_sweep)
  qed
next
  case (tick s t)
  have "store_inv (t, cdb s)"
    by (rule store_step_inv [OF store_step.tick [OF tick.hyps] conc_invD(1) [OF tick.prems]])
  then show ?case using tick.hyps
    by (intro conc_inv_fewer [OF tick.prems]) (simp_all add: active_seats_antimono user_active_seats_antimono)
qed (rule conc_inv_set_tx; simp)+

interpretation concurrent: inductive_invariant
  "\<lambda>s. store_inv (clk s, cdb s) \<and> (\<forall>i. txs s i = Idle)" "conc_step True" conc_inv
proof
  show "conc_inv s" if "store_inv (clk s, cdb s) \<and> (\<forall>i. txs s i = Idle)" for s using that by (simp add: conc_inv_def)
  show "conc_inv t" if "conc_step True s t" "conc_inv s" for s t using that by (rule conc_step_inv)
qed

section \<open>The lock, and finishing\<close>

text \<open>That the lock of an event has one holder needs no care of anybody.\<close>

definition one_holder :: "conc \<Rightarrow> bool" where
  "one_holder s \<longleftrightarrow> (\<forall>i j e. holds_lock e (txs s i) \<longrightarrow> holds_lock e (txs s j) \<longrightarrow> i = j)"

lemma one_holderD: "one_holder s \<Longrightarrow> holds_lock e (txs s i) \<Longrightarrow> holds_lock e (txs s j) \<Longrightarrow> i = j"
  by (auto simp: one_holder_def)

lemma one_holder_set:
  assumes "one_holder s" and "\<And>e. holds_lock e x \<Longrightarrow> holds_lock e (txs s i) \<or> lock_free e s" and "txs s' = (txs s)(i := x)"
  shows "one_holder s'"
  unfolding one_holder_def
proof (intro allI impI)
  fix j k e assume h: "holds_lock e (txs s' j)" "holds_lock e (txs s' k)"
  show "j = k"
  proof (cases "holds_lock e x")
    case True
    then show ?thesis using h assms(2) [OF True] one_holderD [OF assms(1), of e i] unfolding assms(3)
      by (auto simp: lock_free_def split: if_splits)
  next
    case False
    then show ?thesis using h one_holderD [OF assms(1), of e j k] unfolding assms(3) by (auto split: if_splits)
  qed
qed

lemma holds_lock_after:
  "holds_lock e (after_lock q now db) \<Longrightarrow> tq_event q = e"
  "holds_lock e (after_sum q now cap quota db) \<Longrightarrow> tq_event q = e"
  by (auto simp: after_lock_def after_sum_def split: sum.splits prod.splits option.splits if_splits)

lemma conc_step_one_holder: "conc_step False s s' \<Longrightarrow> one_holder s \<Longrightarrow> one_holder s'"
proof (induction rule: conc_step.induct)
  case (work s s')
  then show ?case
  proof (induction rule: work.induct)
    case (lock s i q now)
    show ?case
      by (rule one_holder_set [of s "after_lock q now (cdb s)" i, OF lock.prems])
        (use lock.hyps holds_lock_after(1) in \<open>auto simp: lock_free_def\<close>)
  next
    case (sums s i q now cap quota)
    show ?case
      by (rule one_holder_set [of s "after_sum q now cap quota (cdb s)" i, OF sums.prems])
        (use sums.hyps holds_lock_after(2) in auto)
  qed (rule one_holder_set, assumption, simp_all)+
next
  case (tick s t)
  then show ?case by (simp add: one_holder_def)
qed (rule one_holder_set, assumption, simp_all)+

interpretation locks: inductive_invariant "\<lambda>s. \<forall>i. txs s i = Idle" "conc_step False" one_holder
proof
  show "one_holder s" if "\<forall>i. txs s i = Idle" for s using that by (simp add: one_holder_def)
  show "one_holder t" if "conc_step False s t" "one_holder s" for s t using that by (rule conc_step_one_holder)
qed

lemma finish_holder:
  assumes "holds_lock e (txs s j)"
  shows "\<exists>s'. (work False)\<^sup>*\<^sup>* s s' \<and> txs s' = (txs s)(j := Idle)"
proof -
  have summed: "\<exists>s'. (work False)\<^sup>*\<^sup>* z s' \<and> txs s' = (txs z)(j := Idle)"
    if "txs z j = RSummed q now cap quota sold mine" for z q now cap quota sold mine
    by (rule exI [of _ "set_tx j Idle (z\<lparr>cdb := after_insert q now 0 (cdb z)\<rparr>)"])
       (use work.insert [OF that, of False 0] in auto)
  show ?thesis
  proof (cases "txs s j")
    case (RLocked q now cap quota)
    let ?z = "set_tx j (after_sum q now cap quota (cdb s)) s"
    have step: "work False s ?z" by (rule work.sums [OF RLocked]) simp
    have "after_sum q now cap quota (cdb s) = Idle
        \<or> (\<exists>sold mine. after_sum q now cap quota (cdb s) = RSummed q now cap quota sold mine)"
      by (auto simp: after_sum_def split: sum.splits option.splits)
    then show ?thesis
    proof
      assume "after_sum q now cap quota (cdb s) = Idle"
      then show ?thesis using step by (intro exI [of _ ?z]) auto
    next
      assume "\<exists>sold mine. after_sum q now cap quota (cdb s) = RSummed q now cap quota sold mine"
      then obtain s' where "(work False)\<^sup>*\<^sup>* ?z s'" "txs s' = (txs ?z)(j := Idle)" using summed [of ?z] by auto
      then show ?thesis using step by (intro exI [of _ s']) (auto intro: converse_rtranclp_into_rtranclp)
    qed
  next
    case (RSummed q now cap quota sold mine)
    then show ?thesis by (rule summed)
  qed (use assms in simp_all)
qed

section \<open>A run in which a confirm commits after the deadline\<close>

definition late_db :: pg where
  "late_db = demo_db\<lparr>reservations_tbl := [demo_hold ''r1'' 2 None 10]\<rparr>"

definition late_req :: reserve_req where
  "late_req = \<lparr>tq_event = ''e1'', tq_user = ''u2'', tq_qty = 2, tq_key = None, tq_id = ''r2''\<rparr>"

lemma late_lock: "after_lock late_req 20 late_db = RLocked late_req 20 2 2"
  by (simp add: after_lock_def select_event_for_update_def late_db_def late_req_def demo_defs)

lemma late_sum: "after_sum late_req 20 2 2 late_db = RSummed late_req 20 2 2 0 0"
  by (simp add: after_sum_def select_active_sums_def scan_u32_def reserve_check_def late_db_def late_req_def demo_defs
      active_seats_def user_active_seats_def seats_where_def active_at_def)

lemma late_run:
  "(conc_step False)\<^sup>*\<^sup>* \<lparr>clk = 5, cdb = late_db, txs = (\<lambda>_. Idle)\<rparr>
     \<lparr>clk = 20, cdb = fst (pg_UpdateReservation (\<lambda>_. Done) 5 20 ''u1'' ''r1'' StatusConfirmed (after_insert late_req 20 20 late_db)),
      txs = (\<lambda>_. Idle)\<rparr>"
proof -
  let ?u = "UBegun ''u1'' ''r1'' StatusConfirmed 5"
  let ?s = "\<lambda>t db x y. \<lparr>clk = t, cdb = db, txs = (\<lambda>_. Idle)(0 := x, 1 := y)\<rparr>"
  let ?db = "after_insert late_req 20 20 late_db"
  have idle: "(\<lambda>_. Idle)(0 := Idle, Suc 0 := Idle) = (\<lambda>_. Idle)" by auto
  have "conc_step False (?s 5 late_db Idle Idle) (?s 5 late_db ?u Idle)"
    using conc_step.begin_update [of "?s 5 late_db Idle Idle" 0 False "''u1''" "''r1''" StatusConfirmed] by (simp add: fun_upd_twist)
  moreover have "conc_step False (?s 5 late_db ?u Idle) (?s 20 late_db ?u Idle)"
    using conc_step.tick [of "?s 5 late_db ?u Idle" 20 False] by simp
  moreover have "conc_step False (?s 20 late_db ?u Idle) (?s 20 late_db ?u (RBegun late_req 20))"
    using conc_step.begin_reserve [of "?s 20 late_db ?u Idle" 1 False late_req] by simp
  moreover have "conc_step False (?s 20 late_db ?u (RBegun late_req 20)) (?s 20 late_db ?u (RLocked late_req 20 2 2))"
    using work.lock [of "?s 20 late_db ?u (RBegun late_req 20)" 1 late_req 20 False] late_lock
    by (intro conc_step.work) (simp add: lock_free_def)
  moreover have "conc_step False (?s 20 late_db ?u (RLocked late_req 20 2 2)) (?s 20 late_db ?u (RSummed late_req 20 2 2 0 0))"
    using work.sums [of "?s 20 late_db ?u (RLocked late_req 20 2 2)" 1 late_req 20 2 2 False] late_sum
    by (intro conc_step.work) simp
  moreover have "conc_step False (?s 20 late_db ?u (RSummed late_req 20 2 2 0 0)) (?s 20 ?db ?u Idle)"
    using work.insert [of "?s 20 late_db ?u (RSummed late_req 20 2 2 0 0)" 1 late_req 20 2 2 0 0 False 20]
    by (intro conc_step.work) simp
  moreover have "conc_step False (?s 20 ?db ?u Idle)
      (?s 20 (fst (pg_UpdateReservation (\<lambda>_. Done) 5 20 ''u1'' ''r1'' StatusConfirmed ?db)) Idle Idle)"
    using work.update [of "?s 20 ?db ?u Idle" 0 "''u1''" "''r1''" StatusConfirmed 5 False 20]
    by (intro conc_step.work) (simp add: fun_upd_twist)
  ultimately have "(conc_step False)\<^sup>*\<^sup>* (?s 5 late_db Idle Idle)
      (?s 20 (fst (pg_UpdateReservation (\<lambda>_. Done) 5 20 ''u1'' ''r1'' StatusConfirmed ?db)) Idle Idle)"
    by (meson rtranclp.rtrancl_refl rtranclp.rtrancl_into_rtrancl)
  then show ?thesis by (simp add: idle)
qed

lemma late_seats:
  "active_seats 20 ''e1'' (reservations_tbl (fst (pg_UpdateReservation (\<lambda>_. Done) 5 20 ''u1'' ''r1'' StatusConfirmed
     (after_insert late_req 20 20 late_db)))) = 4"
  by (simp add: pg_UpdateReservation_def after_insert_def insert_reservation_def conflicting_row_def updatable_def set_status_def
      late_db_def late_req_def demo_defs active_seats_def seats_where_def active_at_def reservationTTL_def Let_def)

section \<open>Properties\<close>

text \<open>
  C3: concurrent transactions never oversell. Let any number of reserve, confirm, release and sweep
  transactions interleave statement by statement, be rolled back at any point and wait for any
  time. As long as confirms commit before the hold's deadline (and sums stay below \<open>2^31\<close>), every
  event stays within its capacity, every user within the quota, and the row lock of an event has
  one holder at most.
\<close>

theorem concurrent_transactions_never_oversell:
  assumes "pg_wf (cdb s)" and "within_capacity (clk s) (cdb s)" and "within_quota (clk s) (cdb s)" and "\<forall>i. txs s i = Idle"
    and "(conc_step True)\<^sup>*\<^sup>* s s'"
  shows "within_capacity (clk s') (cdb s') \<and> within_quota (clk s') (cdb s')
    \<and> (holds_lock e (txs s' i) \<longrightarrow> holds_lock e (txs s' j) \<longrightarrow> i = j)"
proof -
  have "conc_inv s'" by (rule concurrent.reach_inv [OF _ assms(5)]) (use assms(1-4) in \<open>simp add: store_inv_def\<close>)
  then show ?thesis using conc_invD(1,2) [of s'] by (auto simp: store_inv_def)
qed

theorem concurrent_transactions_never_oversell_witness:
  "within_capacity 5 (cdb (set_tx 0 (SBegun 5) \<lparr>clk = 5, cdb = demo_db, txs = (\<lambda>_. Idle)\<rparr>))"
proof -
  let ?s = "\<lparr>clk = 5, cdb = demo_db, txs = (\<lambda>_. Idle)\<rparr>"
  have "conc_step True ?s (set_tx 0 (SBegun (clk ?s)) ?s)" by (rule conc_step.begin_sweep) simp
  then have "(conc_step True)\<^sup>*\<^sup>* ?s (set_tx 0 (SBegun 5) ?s)" by auto
  then show ?thesis
    using concurrent_transactions_never_oversell [of ?s] demo_db_wf
    by (auto simp: within_capacity_def within_quota_def demo_defs)
qed

text \<open>
  C12: no deadlock. In every reachable state, with any number of transactions under way, a reserve
  that waits for an event's lock can be brought to its end by statements of itself and of the one
  transaction that holds the lock; and once the lock is free, its own statements are enough and
  have the effect of the whole transaction.
\<close>

theorem waiting_reserver_can_finish:
  assumes "\<forall>j. txs s0 j = Idle" and "(conc_step False)\<^sup>*\<^sup>* s0 s" and tx: "txs s i = RBegun q now"
  shows "\<exists>s1 s2. (work False)\<^sup>*\<^sup>* s s1 \<and> (work False)\<^sup>*\<^sup>* s1 s2 \<and> lock_free (tq_event q) s1
    \<and> txs s2 = (txs s1)(i := Idle) \<and> (\<exists>j. txs s1 = txs s \<or> holds_lock (tq_event q) (txs s j) \<and> txs s1 = (txs s)(j := Idle))
    \<and> cdb s2 = fst (pg_ReserveEvent (\<lambda>_. Done) now wall (tq_id q) (tq_event q) (tq_user q) (tq_qty q) (tq_key q) (cdb s1))"
proof (cases "lock_free (tq_event q) s")
  case True
  then show ?thesis using reserve_alone [OF tx True, of wall] by blast
next
  case False
  then obtain j where j: "holds_lock (tq_event q) (txs s j)" by (auto simp: lock_free_def)
  obtain s1 where s1: "(work False)\<^sup>*\<^sup>* s s1" "txs s1 = (txs s)(j := Idle)" using finish_holder [OF j] by blast
  have "one_holder s" by (rule locks.reach_inv [OF assms(1,2)])
  then have free: "lock_free (tq_event q) s1"
    using j by (auto simp: lock_free_def s1(2) dest: one_holderD)
  have "txs s1 i = RBegun q now" using tx j by (auto simp: s1(2))
  then obtain s2 where "(work False)\<^sup>*\<^sup>* s1 s2" "txs s2 = (txs s1)(i := Idle)"
    "cdb s2 = fst (pg_ReserveEvent (\<lambda>_. Done) now wall (tq_id q) (tq_event q) (tq_user q) (tq_qty q) (tq_key q) (cdb s1))"
    using reserve_alone [OF _ free, of i now wall] by blast
  then show ?thesis using s1 j free by (intro exI [of _ s1] exI [of _ s2] conjI exI [of _ j]) simp_all
qed

theorem waiting_reserver_can_finish_witness:
  "\<exists>s2. (work False)\<^sup>*\<^sup>* (set_tx 0 (RBegun \<lparr>tq_event = ''e1'', tq_user = ''u1'', tq_qty = 1, tq_key = None, tq_id = ''r1''\<rparr> 5)
     \<lparr>clk = 5, cdb = demo_db, txs = (\<lambda>_. Idle)\<rparr>) s2 \<and> txs s2 0 = Idle"
proof -
  let ?s = "\<lparr>clk = 5, cdb = demo_db, txs = (\<lambda>_. Idle)\<rparr>"
  let ?q = "\<lparr>tq_event = ''e1'', tq_user = ''u1'', tq_qty = 1, tq_key = None, tq_id = ''r1''\<rparr>"
  have idle: "\<forall>j. txs ?s j = Idle" by simp
  have tx: "txs (set_tx 0 (RBegun ?q 5) ?s) 0 = RBegun ?q 5" by simp
  have "conc_step False ?s (set_tx 0 (RBegun ?q (clk ?s)) ?s)" by (rule conc_step.begin_reserve) simp
  then have run: "(conc_step False)\<^sup>*\<^sup>* ?s (set_tx 0 (RBegun ?q 5) ?s)" by auto
  obtain s1 s2 where s1: "(work False)\<^sup>*\<^sup>* (set_tx 0 (RBegun ?q 5) ?s) s1" and s2: "(work False)\<^sup>*\<^sup>* s1 s2"
    and idle2: "txs s2 = (txs s1)(0 := Idle)"
    using waiting_reserver_can_finish [OF idle run tx, of 0] by blast
  have "txs s2 0 = Idle" unfolding idle2 by (rule fun_upd_same)
  with rtranclp_trans [OF s1 s2] show ?thesis by (intro exI [of _ s2] conjI)
qed

text \<open>
  A confirm that commits late oversells. The owner's confirm begins before the hold's deadline
  and commits after it; in between another user reserves the lapsed seats. Both transactions
  succeed, and the event of two seats has four active ones.
\<close>

lemma late_confirm_oversells:
  "\<exists>s. (conc_step False)\<^sup>*\<^sup>*
      \<lparr>clk = 5, cdb = demo_db\<lparr>reservations_tbl := [demo_hold ''r1'' 2 None 10]\<rparr>, txs = (\<lambda>_. Idle)\<rparr> s
    \<and> active_seats (clk s) ''e1'' (reservations_tbl (cdb s)) = 4 \<and> unat (ev_Capacity (er_item demo_event)) = 2"
  by (intro exI conjI) (rule late_run [unfolded late_db_def], simp_all add: late_seats [unfolded late_db_def], simp add: demo_event_def)


end
