(* ===== verification/GoText.thy ===== *)
theory GoText
  imports Prelude
begin

text \<open>
  The text formats of Go's standard library that the program reads: decimal numbers
  (\<open>strconv.ParseUint\<close>, \<open>strconv.Atoi\<close>), booleans (\<open>strconv.ParseBool\<close>), durations
  (\<open>time.ParseDuration\<close>) and the fields of a JSON object (\<open>encoding/json\<close>). Strings are the bytes
  of the Go string. One operation of the library is left as an argument: the \<open>float64\<close> product by
  which \<open>time.ParseDuration\<close> scales a fraction.
\<close>

section \<open>Decimal numbers\<close>

definition is_digit :: "char \<Rightarrow> bool" where
  "is_digit c \<longleftrightarrow> (48::nat) \<le> of_char c \<and> of_char c \<le> (57::nat)"

definition digit_val :: "char \<Rightarrow> nat" where
  "digit_val c = of_char c - 48"

definition digit_char :: "nat \<Rightarrow> char" where
  "digit_char d = char_of (48 + d)"

definition decimal :: "string \<Rightarrow> nat" where
  "decimal s = foldl (\<lambda>n c. 10 * n + digit_val c) 0 s"

fun dec :: "nat \<Rightarrow> string" where
  "dec n = (if n < 10 then [digit_char n] else dec (n div 10) @ [digit_char (n mod 10)])"

declare dec.simps [simp del]

text \<open>\<open>strconv.ParseUint(s, 10, bits)\<close>: no sign, no underscores; \<open>None\<close> is a syntax or range error.\<close>

definition ParseUint :: "nat \<Rightarrow> string \<Rightarrow> nat option" where
  "ParseUint bits s =
     (if s = [] \<or> \<not> list_all is_digit s then None
      else if decimal s < 2 ^ bits then Some (decimal s) else None)"

text \<open>\<open>strconv.Atoi\<close>: an optional sign and digits, within \<open>int64\<close>.\<close>

definition Atoi :: "string \<Rightarrow> int option" where
  "Atoi s =
     (let (neg, t) = (case s of c # cs \<Rightarrow> if c = CHR ''-'' then (True, cs) else if c = CHR ''+'' then (False, cs) else (False, s)
                                | [] \<Rightarrow> (False, []))
      in if t = [] \<or> \<not> list_all is_digit t then None
         else if neg then (if decimal t \<le> 2 ^ 63 then Some (- int (decimal t)) else None)
         else (if decimal t < 2 ^ 63 then Some (int (decimal t)) else None))"

definition ParseBool :: "string \<Rightarrow> bool option" where
  "ParseBool s =
     (if s \<in> {''1'', ''t'', ''T'', ''TRUE'', ''true'', ''True''} then Some True
      else if s \<in> {''0'', ''f'', ''F'', ''FALSE'', ''false'', ''False''} then Some False
      else None)"

lemma of_char_digit_char: "d < 10 \<Longrightarrow> of_char (digit_char d) = 48 + d"
  unfolding digit_char_def by (subst of_char_of) simp

lemma digit_char_simps [simp]: "d < 10 \<Longrightarrow> is_digit (digit_char d)" "d < 10 \<Longrightarrow> digit_val (digit_char d) = d"
  by (simp_all add: is_digit_def digit_val_def of_char_digit_char)

lemma digit_val_le: "is_digit c \<Longrightarrow> digit_val c < 10"
  unfolding is_digit_def digit_val_def by linarith

lemma decimal_snoc [simp]: "decimal [] = 0" "decimal (s @ [c]) = 10 * decimal s + digit_val c"
  by (simp_all add: decimal_def)

lemma dec_digits [simp]: "list_all is_digit (dec n)" "dec n \<noteq> []"
  by (induction n rule: dec.induct) (simp_all add: dec.simps)

lemma decimal_dec [simp]: "decimal (dec n) = n"
proof (induction n rule: dec.induct)
  case (1 n)
  show ?case
  proof (cases "n < 10")
    case True
    then have "dec n = [] @ [digit_char n]" by (simp add: dec.simps)
    then show ?thesis using True by (simp del: append_Nil)
  next
    case False
    then have "dec n = dec (n div 10) @ [digit_char (n mod 10)]" by (simp add: dec.simps [of n])
    then show ?thesis using 1 [OF False] by simp
  qed
qed

lemma ParseUint_dec: "ParseUint bits (dec n) = (if n < 2 ^ bits then Some n else None)"
  by (simp add: ParseUint_def)

lemma ParseUint_Some: "ParseUint bits s = Some n \<Longrightarrow> n < 2 ^ bits \<and> s \<noteq> [] \<and> list_all is_digit s"
  by (auto simp: ParseUint_def split: if_splits)

lemma digit_not_sign: "is_digit c \<Longrightarrow> c \<noteq> CHR ''-'' \<and> c \<noteq> CHR ''+'' \<and> c \<noteq> CHR ''.'' \<and> c \<noteq> CHR ''s''"
  by (auto simp: is_digit_def)

lemma Atoi_dec: "Atoi (dec n) = (if n < 2 ^ 63 then Some (int n) else None)"
proof -
  obtain c cs where d: "dec n = c # cs" by (cases "dec n") auto
  then have "is_digit c" using dec_digits(1) [of n] by simp
  then have "Atoi (c # cs) = (if decimal (c # cs) < 2 ^ 63 then Some (int (decimal (c # cs))) else None)"
    using digit_not_sign [of c] dec_digits(1) [of n] d by (simp add: Atoi_def)
  then show ?thesis using decimal_dec [of n] by (simp add: d)
qed

lemma Atoi_range: "Atoi s = Some i \<Longrightarrow> - (2 ^ 63) \<le> i \<and> i < 2 ^ 63"
  by (auto simp: Atoi_def Let_def split: if_splits list.splits prod.splits)

section \<open>Durations\<close>

definition unit_of :: "string \<Rightarrow> nat option" where
  "unit_of u = map_of
     [(''ns'', 1), (''us'', 1000), (CHR 0xC2 # CHR 0xB5 # ''s'', 1000), (CHR 0xCE # CHR 0xBC # ''s'', 1000),
      (''ms'', 1000000), (''s'', 1000000000), (''m'', 60000000000), (''h'', 3600000000000)] u"

text \<open>\<open>leadingFraction\<close>: the digits as a number and the power of ten, digits that no longer fit being dropped.\<close>

fun leadingFraction :: "nat \<Rightarrow> nat \<Rightarrow> bool \<Rightarrow> string \<Rightarrow> nat \<times> nat" where
  "leadingFraction x scale overflow [] = (x, scale)"
| "leadingFraction x scale overflow (c # cs) =
     (if overflow \<or> (2 ^ 63 - 1) div 10 < x \<or> 2 ^ 63 < 10 * x + digit_val c then leadingFraction x scale True cs
      else leadingFraction (10 * x + digit_val c) (10 * scale) False cs)"

text \<open>
  One \<open>number unit\<close> group from the front of a non-empty text: its nanoseconds (or an error) and the rest.
  \<open>f64 f unit scale\<close> is \<open>uint64(float64(f) * (float64(unit) / scale))\<close>.
\<close>

definition duration_group :: "(nat \<Rightarrow> nat \<Rightarrow> nat \<Rightarrow> nat) \<Rightarrow> string \<Rightarrow> (nat \<times> string) option" where
  "duration_group f64 s =
     (let ip = takeWhile is_digit s; s1 = dropWhile is_digit s; v = decimal ip;
          dot = (s1 \<noteq> [] \<and> hd s1 = CHR ''.'');
          fp = (if dot then takeWhile is_digit (tl s1) else []);
          s2 = (if dot then dropWhile is_digit (tl s1) else s1);
          (f, scale) = leadingFraction 0 1 False fp;
          u = takeWhile (\<lambda>c. \<not> (c = CHR ''.'' \<or> is_digit c)) s2;
          s3 = dropWhile (\<lambda>c. \<not> (c = CHR ''.'' \<or> is_digit c)) s2
      in if 2 ^ 63 < v \<or> ip = [] \<and> fp = [] \<or> u = [] then None
         else case unit_of u of
           None \<Rightarrow> None
         | Some unit \<Rightarrow>
             if 2 ^ 63 div unit < v then None
             else let w = (if 0 < f then (v * unit + f64 f unit scale) mod 2 ^ 64 else v * unit)
                  in if 2 ^ 63 < w then None else Some (w, s3))"

lemma length_dropWhile_le [simp]: "length (dropWhile P xs) \<le> length xs"
  by (induction xs) auto

lemma length_dropWhile_less: "takeWhile P xs \<noteq> [] \<Longrightarrow> length (dropWhile P xs) < length xs"
  by (cases xs) (auto simp: le_imp_less_Suc split: if_splits)

lemma duration_group_shorter: "duration_group f64 s = Some (w, rest) \<Longrightarrow> length rest < length s"
proof -
  let ?P = "\<lambda>c. \<not> (c = CHR ''.'' \<or> is_digit c)"
  let ?s1 = "dropWhile is_digit s"
  let ?s2 = "if ?s1 \<noteq> [] \<and> hd ?s1 = CHR ''.'' then dropWhile is_digit (tl ?s1) else ?s1"
  assume "duration_group f64 s = Some (w, rest)"
  then have "takeWhile ?P ?s2 \<noteq> []" "rest = dropWhile ?P ?s2"
    by (auto simp: duration_group_def Let_def split: prod.splits if_splits option.splits)
  then have "length rest < length ?s2" using length_dropWhile_less [of ?P ?s2] by simp
  moreover have "length ?s2 \<le> length s"
  proof (cases "?s1")
    case Nil
    then show ?thesis by simp
  next
    case (Cons c cs)
    then have "length cs < length s" using length_dropWhile_le [of is_digit s] by simp
    then have "length (dropWhile is_digit cs) \<le> length s"
      using length_dropWhile_le [of is_digit cs] by (meson le_trans less_imp_le)
    then show ?thesis using Cons length_dropWhile_le [of is_digit s] by auto
  qed
  ultimately show ?thesis by simp
qed

text \<open>The loop of \<open>time.ParseDuration\<close>; the total is a \<open>uint64\<close>.\<close>

function duration_groups :: "(nat \<Rightarrow> nat \<Rightarrow> nat \<Rightarrow> nat) \<Rightarrow> nat \<Rightarrow> string \<Rightarrow> nat option" where
  "duration_groups f64 d s =
     (if s = [] then Some d
      else case duration_group f64 s of
        None \<Rightarrow> None
      | Some (v, rest) \<Rightarrow>
          (if 2 ^ 63 < (d + v) mod 2 ^ 64 then None else duration_groups f64 ((d + v) mod 2 ^ 64) rest))"
  by pat_completeness auto
termination
  by (relation "measure (\<lambda>(f64, d, s). length s)") (auto dest: duration_group_shorter)

declare duration_groups.simps [simp del]

definition ParseDuration :: "(nat \<Rightarrow> nat \<Rightarrow> nat \<Rightarrow> nat) \<Rightarrow> string \<Rightarrow> duration option" where
  "ParseDuration f64 orig =
     (let neg = (orig \<noteq> [] \<and> hd orig = CHR ''-'');
          s = (if orig \<noteq> [] \<and> (hd orig = CHR ''-'' \<or> hd orig = CHR ''+'') then tl orig else orig)
      in if s = ''0'' then Some 0
         else if s = [] then None
         else case duration_groups f64 0 s of
           None \<Rightarrow> None
         | Some d \<Rightarrow> if neg then Some (- int d) else if 2 ^ 63 - 1 < d then None else Some (int d))"

lemma duration_groups_le: "duration_groups f64 d s = Some d' \<Longrightarrow> d \<le> 2 ^ 63 \<Longrightarrow> d' \<le> 2 ^ 63"
proof (induction f64 d s rule: duration_groups.induct)
  case (1 f64 d s)
  show ?case
  proof (cases "s = []")
    case True
    then show ?thesis using 1(2,3) by (simp add: duration_groups.simps)
  next
    case False
    then obtain v rest where g: "duration_group f64 s = Some (v, rest)" "\<not> 2 ^ 63 < (d + v) mod 2 ^ 64"
      "duration_groups f64 ((d + v) mod 2 ^ 64) rest = Some d'"
      using 1(2) by (subst (asm) duration_groups.simps) (auto split: option.splits prod.splits if_splits)
    then show ?thesis using 1(1) [OF False g(1) refl g(2,3)] by simp
  qed
qed

lemma ParseDuration_range: "ParseDuration f64 s = Some d \<Longrightarrow> - (2 ^ 63) \<le> d \<and> d < 2 ^ 63"
  using duration_groups_le [of f64 0]
  by (fastforce simp: ParseDuration_def Let_def split: if_splits option.splits)

text \<open>Whole seconds as the configuration files write them.\<close>

lemma duration_group_seconds:
  assumes "n * 1000000000 \<le> 2 ^ 63"
  shows "duration_group f64 (dec n @ ''s'') = Some (n * 1000000000, [])"
proof -
  have ip: "takeWhile is_digit (dec n @ ''s'') = dec n" "dropWhile is_digit (dec n @ ''s'') = ''s''"
    using dec_digits(1) [of n] by (simp_all add: takeWhile_append dropWhile_append list_all_iff is_digit_def)
  have "n \<le> 2 ^ 63 div 1000000000" using assms by (subst less_eq_div_iff_mult_less_eq) simp_all
  moreover have "\<not> is_digit CHR ''s''" by (simp add: is_digit_def)
  ultimately show ?thesis using assms by (simp add: duration_group_def ip unit_of_def Let_def)
qed

lemma ParseDuration_seconds:
  assumes "n * 1000000000 < 2 ^ 63"
  shows "ParseDuration f64 (dec n @ ''s'') = Some (int n * Second)"
proof -
  obtain c cs where d: "dec n = c # cs" by (cases "dec n") auto
  then have "is_digit c" using dec_digits(1) [of n] by simp
  then have hd: "hd (dec n @ ''s'') \<noteq> CHR ''-''" "hd (dec n @ ''s'') \<noteq> CHR ''+''" using digit_not_sign [of c] by (simp_all add: d)
  have "duration_groups f64 0 (dec n @ ''s'') = Some (n * 1000000000)"
    using assms duration_group_seconds [of n f64] by (simp add: duration_groups.simps)
  then show ?thesis using assms hd by (simp add: ParseDuration_def Let_def d)
qed

section \<open>JSON objects into structs\<close>

text \<open>
  A JSON text after its syntax was read: numbers keep their literal, strings are decoded, an object
  keeps the order and the repetitions of its members.
\<close>

datatype json = JNull | JBool bool | JNum string | JStr string | JArr "json list" | JObj "(string \<times> json) list"

text \<open>
  \<open>encoding/json\<close> compares a member's name with the field's tag under case folding. Besides the ASCII
  letters only the long s and the Kelvin sign fold to an ASCII letter.
\<close>

fun foldName :: "string \<Rightarrow> string" where
  "foldName [] = []"
| "foldName (c # cs) =
     (if c = CHR 0xC5 \<and> cs \<noteq> [] \<and> hd cs = CHR 0xBF then CHR ''S'' # foldName (drop 1 cs)
      else if c = CHR 0xE2 \<and> 2 \<le> length cs \<and> hd cs = CHR 0x84 \<and> cs ! 1 = CHR 0xAA then CHR ''K'' # foldName (drop 2 cs)
      else (if (97::nat) \<le> of_char c \<and> of_char c \<le> (122::nat) then char_of (of_char c - (32::nat)) else c) # foldName cs)"

type_synonym 'r fields = "(string \<times> (json \<Rightarrow> 'r \<Rightarrow> 'r option)) list"

definition field_setter :: "'r fields \<Rightarrow> string \<Rightarrow> (json \<Rightarrow> 'r \<Rightarrow> 'r option) option" where
  "field_setter fs k = map_option snd (find (\<lambda>(n, _). foldName n = foldName k) fs)"

fun decode_members :: "'r fields \<Rightarrow> (string \<times> json) list \<Rightarrow> 'r \<Rightarrow> 'r option" where
  "decode_members fs [] r = Some r"
| "decode_members fs ((k, v) # ms) r =
     (case field_setter fs k of
        None \<Rightarrow> decode_members fs ms r
      | Some f \<Rightarrow> (case f v r of None \<Rightarrow> None | Some r' \<Rightarrow> decode_members fs ms r'))"

text \<open>
  \<open>utils.DecodeRequestBody\<close> into a zero struct. \<open>None\<close> is a body that is not JSON; \<open>null\<close> leaves
  the struct as it is; anything but an object is a type error.
\<close>

fun DecodeRequestBody :: "'r fields \<Rightarrow> 'r \<Rightarrow> json option \<Rightarrow> 'r result" where
  "DecodeRequestBody fs zero None = Inl ErrMalformedRequestBody"
| "DecodeRequestBody fs zero (Some JNull) = Inr zero"
| "DecodeRequestBody fs zero (Some (JObj ms)) =
     (case decode_members fs ms zero of None \<Rightarrow> Inl ErrMalformedRequestBody | Some r \<Rightarrow> Inr r)"
| "DecodeRequestBody fs zero (Some _) = Inl ErrMalformedRequestBody"

text \<open>The setters of a \<open>string\<close>, a \<open>bool\<close>, a \<open>uint32\<close>, a \<open>uint64\<close>, an \<open>int\<close> and a \<open>*time.Time\<close> field.\<close>

fun json_string :: "(string \<Rightarrow> 'r \<Rightarrow> 'r) \<Rightarrow> json \<Rightarrow> 'r \<Rightarrow> 'r option" where
  "json_string upd JNull r = Some r"
| "json_string upd (JStr s) r = Some (upd s r)"
| "json_string upd _ r = None"

fun json_bool :: "(bool \<Rightarrow> 'r \<Rightarrow> 'r) \<Rightarrow> json \<Rightarrow> 'r \<Rightarrow> 'r option" where
  "json_bool upd JNull r = Some r"
| "json_bool upd (JBool b) r = Some (upd b r)"
| "json_bool upd _ r = None"

fun json_u32 :: "(u32 \<Rightarrow> 'r \<Rightarrow> 'r) \<Rightarrow> json \<Rightarrow> 'r \<Rightarrow> 'r option" where
  "json_u32 upd JNull r = Some r"
| "json_u32 upd (JNum lit) r = map_option (\<lambda>n. upd (of_nat n) r) (ParseUint 32 lit)"
| "json_u32 upd _ r = None"

fun json_u64 :: "(u64 \<Rightarrow> 'r \<Rightarrow> 'r) \<Rightarrow> json \<Rightarrow> 'r \<Rightarrow> 'r option" where
  "json_u64 upd JNull r = Some r"
| "json_u64 upd (JNum lit) r = map_option (\<lambda>n. upd (of_nat n) r) (ParseUint 64 lit)"
| "json_u64 upd _ r = None"

fun json_int :: "(int \<Rightarrow> 'r \<Rightarrow> 'r) \<Rightarrow> json \<Rightarrow> 'r \<Rightarrow> 'r option" where
  "json_int upd JNull r = Some r"
| "json_int upd (JNum lit) r = map_option (\<lambda>n. upd n r) (Atoi lit)"
| "json_int upd _ r = None"

fun json_time :: "(string \<Rightarrow> time option) \<Rightarrow> (time option \<Rightarrow> 'r \<Rightarrow> 'r) \<Rightarrow> json \<Rightarrow> 'r \<Rightarrow> 'r option" where
  "json_time rfc3339 upd JNull r = Some (upd None r)"
| "json_time rfc3339 upd (JStr s) r = map_option (\<lambda>t. upd (Some t) r) (rfc3339 s)"
| "json_time rfc3339 upd _ r = None"

lemma DecodeRequestBody_error:
  assumes "DecodeRequestBody fs zero b = Inl e"
  shows "e = ErrMalformedRequestBody"
  using assms by (cases "(fs, zero, b)" rule: DecodeRequestBody.cases) (auto split: option.splits)

end
