(* ===== verification/ReservationRepo.thy ===== *)
theory ReservationRepo
  imports PostgresReservation
begin

text \<open>
  \<open>src/backend/repository/reservations\<close> above Postgres: the sold-out flag in the process-local
  LRU and in Redis, the cached answers of keyed reserves, the lock that lets one replica sweep,
  and the repository that puts them together. The LRU is a third-party package: its operations
  are the parameter \<open>'l lru_ops\<close>, and \<open>lru_laws\<close> is what its documentation promises.
\<close>

section \<open>The state of one process\<close>

record 'l sys =
  sys_db :: pg
  sys_redis :: cache
  sys_lru :: 'l

text \<open>The readings of the three clocks a call consults: the process, the Redis server, the database.\<close>

record clocks =
  c_wall :: time
  c_redis :: int
  c_pg :: time

definition Milliseconds :: "duration \<Rightarrow> int" where
  "Milliseconds d = d div Millisecond"

section \<open>The local LRU\<close>

definition lruBlockTTL :: duration where
  "lruBlockTTL = 5 * Second"

record 'l lru_ops =
  lru_Add :: "time \<Rightarrow> string \<Rightarrow> 'l \<Rightarrow> 'l \<times> bool"
  lru_Remove :: "string \<Rightarrow> 'l \<Rightarrow> 'l \<times> bool"
  lru_Get :: "time \<Rightarrow> string \<Rightarrow> 'l \<Rightarrow> 'l \<times> bool"
  lru_Purge :: "'l \<Rightarrow> 'l"

text \<open>
  An added key is found until its time runs out, a removed or purged key is not found, a key
  that is not there does not appear by adding or removing others, by looking or by waiting.
\<close>

definition lru_laws :: "duration \<Rightarrow> 'l lru_ops \<Rightarrow> bool" where
  "lru_laws ttl L \<longleftrightarrow>
     (\<forall>t k l t'. t \<le> t' \<longrightarrow> t' < t + ttl \<longrightarrow> snd (lru_Get L t' k (fst (lru_Add L t k l))))
   \<and> (\<forall>t k l t'. t + ttl < t' \<longrightarrow> \<not> snd (lru_Get L t' k (fst (lru_Add L t k l))))
   \<and> (\<forall>t t' k k' l. k \<noteq> k' \<longrightarrow> snd (lru_Get L t' k (fst (lru_Add L t k' l))) \<longrightarrow> snd (lru_Get L t' k l))
   \<and> (\<forall>t k k' l. snd (lru_Get L t k (fst (lru_Remove L k' l))) = (k \<noteq> k' \<and> snd (lru_Get L t k l)))
   \<and> (\<forall>t t' k k' l. snd (lru_Get L t' k (fst (lru_Get L t k' l))) = snd (lru_Get L t' k l))
   \<and> (\<forall>t k l. \<not> snd (lru_Get L t k (lru_Purge L l)))
   \<and> (\<forall>t t' k l. t \<le> t' \<longrightarrow> snd (lru_Get L t' k l) \<longrightarrow> snd (lru_Get L t k l))"

definition lru_BlockEvent :: "'l lru_ops \<Rightarrow> time \<Rightarrow> string \<Rightarrow> 'l \<Rightarrow> 'l \<times> bool" where
  "lru_BlockEvent L t eventId l = lru_Add L t eventId l"

definition lru_UnblockEvent :: "'l lru_ops \<Rightarrow> string \<Rightarrow> 'l \<Rightarrow> 'l \<times> bool" where
  "lru_UnblockEvent L eventId l = lru_Remove L eventId l"

definition lru_IsBlockEvent :: "'l lru_ops \<Rightarrow> time \<Rightarrow> string \<Rightarrow> 'l \<Rightarrow> 'l \<times> bool" where
  "lru_IsBlockEvent L t eventId l = lru_Get L t eventId l"

definition lru_ClearBlockedEvents :: "'l lru_ops \<Rightarrow> 'l \<Rightarrow> 'l" where
  "lru_ClearBlockedEvents L l = lru_Purge L l"

section \<open>Redis\<close>

definition marginTTL :: duration where "marginTTL = 5 * Second"
definition reservationItemTTL :: duration where "reservationItemTTL = 1 * Minute"
definition eventBlockedTTL :: duration where "eventBlockedTTL = 15 * Second"

definition getReservationByIdempotencyKey :: "string \<Rightarrow> string \<Rightarrow> string \<Rightarrow> string" where
  "getReservationByIdempotencyKey eventId userId idempotencyKey =
     ''reservation:event:{'' @ eventId @ ''}:user:{'' @ userId @ ''}:idempotency_key:{'' @ idempotencyKey @ ''}''"

definition getEventBlockedKey :: "string \<Rightarrow> string" where
  "getEventBlockedKey eventId = ''reservation:event:{'' @ eventId @ ''}:blocked''"

definition refreshEventStatusLockKey :: string where
  "refreshEventStatusLockKey = ''reservations:refresh_event:lock''"

definition unlockScript :: "int \<Rightarrow> string \<Rightarrow> string \<Rightarrow> cache \<Rightarrow> cache \<times> nat" where
  "unlockScript now key token r =
     (if rget now key r = Some (RText token) then rdel now key r else (r, 0))"

text \<open>\<open>utils.GetRemainingDeadline\<close>: the context's deadline, if it has one.\<close>

definition GetRemainingDeadline :: "time option \<Rightarrow> time \<Rightarrow> duration result" where
  "GetRemainingDeadline deadline wall =
     (case deadline of
        None \<Rightarrow> Inl ErrMissingDeadline
      | Some d \<Rightarrow> if d - wall \<le> 0 then Inl DeadlineExceeded else Inr (d - wall))"

definition LockRefreshEventStatus ::
  "io \<Rightarrow> clocks \<Rightarrow> time option \<Rightarrow> string \<Rightarrow> cache \<Rightarrow> cache \<times> string result" where
  "LockRefreshEventStatus x c deadline token r =
     (case GetRemainingDeadline deadline (c_wall c) of
        Inl e \<Rightarrow> (r, Inl e)
      | Inr remainingDeadline \<Rightarrow>
          (case io_call x (rset_nx (c_redis c) (Some (c_redis c + Milliseconds (remainingDeadline + marginTTL)))
                             refreshEventStatusLockKey (RText token)) r of
             (r', Inl e) \<Rightarrow> (r', Inl e)
           | (r', Inr ok) \<Rightarrow> (r', if ok then Inr token else Inl ErrRefreshEventStatusInProgress)))"

definition ReleaseRefreshEventStatus :: "io \<Rightarrow> clocks \<Rightarrow> string \<Rightarrow> cache \<Rightarrow> cache \<times> nat result" where
  "ReleaseRefreshEventStatus x c token r = io_call x (unlockScript (c_redis c) refreshEventStatusLockKey token) r"

definition rc_SetReservationByIdempotencyKey ::
  "io \<Rightarrow> clocks \<Rightarrow> string \<Rightarrow> string \<Rightarrow> string \<Rightarrow> ReservationItem \<Rightarrow> cache \<Rightarrow> cache \<times> unit result" where
  "rc_SetReservationByIdempotencyKey x c eventId userId idempotencyKey reservationItem r =
     io_call x (\<lambda>r. (rset (Some (c_redis c + Milliseconds reservationItemTTL))
                        (getReservationByIdempotencyKey eventId userId idempotencyKey)
                        (RDoc (DocReservation reservationItem)) r, ())) r"

definition rc_GetReservationByIdempotencyKey ::
  "io \<Rightarrow> clocks \<Rightarrow> string \<Rightarrow> string \<Rightarrow> string \<Rightarrow> cache \<Rightarrow> ReservationItem result" where
  "rc_GetReservationByIdempotencyKey x c eventId userId idempotencyKey r =
     (case io_err x of
        Some e \<Rightarrow> Inl e
      | None \<Rightarrow>
          (case rget (c_redis c) (getReservationByIdempotencyKey eventId userId idempotencyKey) r of
             None \<Rightarrow> Inl RedisNil
           | Some (RDoc (DocReservation item)) \<Rightarrow> Inr item
           | Some _ \<Rightarrow> Inl (OtherError ''json'')))"

definition rc_BlockEvent :: "io \<Rightarrow> clocks \<Rightarrow> string \<Rightarrow> cache \<Rightarrow> cache \<times> unit result" where
  "rc_BlockEvent x c eventId r =
     io_call x (\<lambda>r. (rset (Some (c_redis c + Milliseconds eventBlockedTTL)) (getEventBlockedKey eventId) (RText ''1'') r, ())) r"

definition rc_UnblockEvent :: "io \<Rightarrow> clocks \<Rightarrow> string \<Rightarrow> cache \<Rightarrow> cache \<times> nat result" where
  "rc_UnblockEvent x c eventId r = io_call x (rdel (c_redis c) (getEventBlockedKey eventId)) r"

definition rc_IsBlockEvent :: "io \<Rightarrow> clocks \<Rightarrow> string \<Rightarrow> cache \<Rightarrow> bool result" where
  "rc_IsBlockEvent x c eventId r = io_read x (rexists (c_redis c) (getEventBlockedKey eventId) r)"

section \<open>The repository\<close>

datatype lookup_call = LK_Redis | LK_Postgres

definition repo_GetReservationByIdempotencyKey ::
  "(lookup_call \<Rightarrow> io) \<Rightarrow> clocks \<Rightarrow> string \<Rightarrow> string \<Rightarrow> string \<Rightarrow> 'l sys \<Rightarrow> ReservationItem result" where
  "repo_GetReservationByIdempotencyKey flt c eventId userId idempotencyKey s =
     (case rc_GetReservationByIdempotencyKey (flt LK_Redis) c eventId userId idempotencyKey (sys_redis s) of
        Inr cached \<Rightarrow> Inr cached
      | Inl _ \<Rightarrow> pg_GetReservationByIdempotencyKey (flt LK_Postgres) eventId userId idempotencyKey (sys_db s))"

definition repo_SetReservationByIdempotencyKey ::
  "io \<Rightarrow> clocks \<Rightarrow> string \<Rightarrow> string \<Rightarrow> string \<Rightarrow> ReservationItem \<Rightarrow> 'l sys \<Rightarrow> 'l sys \<times> unit result" where
  "repo_SetReservationByIdempotencyKey x c eventId userId idempotencyKey reservationItem s =
     (case rc_SetReservationByIdempotencyKey x c eventId userId idempotencyKey reservationItem (sys_redis s) of
        (r', res) \<Rightarrow> (s\<lparr>sys_redis := r'\<rparr>, res))"

definition repo_ReserveEvent ::
  "(reserve_call \<Rightarrow> io) \<Rightarrow> clocks \<Rightarrow> string \<Rightarrow> string \<Rightarrow> string \<Rightarrow> u32 \<Rightarrow> string option \<Rightarrow> u32 \<Rightarrow> 'l sys
    \<Rightarrow> 'l sys \<times> bool \<times> ReservationItem result" where
  "repo_ReserveEvent flt c new_id eventId userId quantity idempotencyKey maxReservePerUser s =
     (case pg_ReserveEvent flt (c_pg c) (c_wall c) new_id eventId userId quantity idempotencyKey (sys_db s) of
        (db', isCapped, res) \<Rightarrow> (s\<lparr>sys_db := db'\<rparr>, isCapped, res))"

text \<open>The sold-out flag: local first, then shared.\<close>

definition repo_BlockEvent :: "'l lru_ops \<Rightarrow> io \<Rightarrow> clocks \<Rightarrow> string \<Rightarrow> 'l sys \<Rightarrow> 'l sys \<times> bool" where
  "repo_BlockEvent L x c eventId s =
     (let (l', evicted) = lru_BlockEvent L (c_wall c) eventId (sys_lru s);
          (r', _) = rc_BlockEvent x c eventId (sys_redis s)
      in (s\<lparr>sys_redis := r', sys_lru := l'\<rparr>, evicted))"

definition repo_UnblockEvent :: "'l lru_ops \<Rightarrow> io \<Rightarrow> clocks \<Rightarrow> string \<Rightarrow> 'l sys \<Rightarrow> 'l sys \<times> bool" where
  "repo_UnblockEvent L x c eventId s =
     (let (l', evicted) = lru_UnblockEvent L eventId (sys_lru s);
          (r', _) = rc_UnblockEvent x c eventId (sys_redis s)
      in (s\<lparr>sys_redis := r', sys_lru := l'\<rparr>, evicted))"

definition repo_IsBlockEvent :: "'l lru_ops \<Rightarrow> io \<Rightarrow> clocks \<Rightarrow> string \<Rightarrow> 'l sys \<Rightarrow> 'l sys \<times> bool" where
  "repo_IsBlockEvent L x c eventId s =
     (let (l1, hit) = lru_IsBlockEvent L (c_wall c) eventId (sys_lru s)
      in if hit then (s\<lparr>sys_lru := l1\<rparr>, True)
         else
           (case rc_IsBlockEvent x c eventId (sys_redis s) of
              Inl e \<Rightarrow> (s\<lparr>sys_lru := l1\<rparr>, False)
            | Inr blocked \<Rightarrow>
                if blocked then (s\<lparr>sys_lru := fst (lru_BlockEvent L (c_wall c) eventId l1)\<rparr>, True)
                else (s\<lparr>sys_lru := l1\<rparr>, False)))"

definition repo_ClearBlockedEvents :: "'l lru_ops \<Rightarrow> 'l sys \<Rightarrow> 'l sys" where
  "repo_ClearBlockedEvents L s = s\<lparr>sys_lru := lru_ClearBlockedEvents L (sys_lru s)\<rparr>"

definition repo_ConfirmReservation ::
  "(update_call \<Rightarrow> io) \<Rightarrow> clocks \<Rightarrow> string \<Rightarrow> string \<Rightarrow> 'l sys \<Rightarrow> 'l sys \<times> unit result" where
  "repo_ConfirmReservation flt c userId reservationId s =
     (case pg_UpdateReservation flt (c_pg c) (c_wall c) userId reservationId StatusConfirmed (sys_db s) of
        (db', Inl e) \<Rightarrow> (s\<lparr>sys_db := db'\<rparr>, Inl e)
      | (db', Inr _) \<Rightarrow> (s\<lparr>sys_db := db'\<rparr>, Inr ()))"

datatype release_call = RL_Update update_call | RL_Unblock

definition repo_ReleaseReservation ::
  "'l lru_ops \<Rightarrow> (release_call \<Rightarrow> io) \<Rightarrow> clocks \<Rightarrow> string \<Rightarrow> string \<Rightarrow> 'l sys \<Rightarrow> 'l sys \<times> unit result" where
  "repo_ReleaseReservation L flt c userId reservationId s =
     (case pg_UpdateReservation (\<lambda>u. flt (RL_Update u)) (c_pg c) (c_wall c) userId reservationId StatusReleased (sys_db s) of
        (db', Inl e) \<Rightarrow> (s\<lparr>sys_db := db'\<rparr>, Inl e)
      | (db', Inr eventId) \<Rightarrow> (fst (repo_UnblockEvent L (flt RL_Unblock) c eventId (s\<lparr>sys_db := db'\<rparr>)), Inr ()))"

datatype sweep_call = RS_Lock | RS_Sweep | RS_Unblock string | RS_Release

text \<open>
  \<open>c\<close> is read when the lock is taken, \<open>c'\<close> when the sweep runs, \<open>c''\<close> when the deferred release runs.
\<close>

definition repo_RefreshEventStatus ::
  "'l lru_ops \<Rightarrow> (sweep_call \<Rightarrow> io) \<Rightarrow> clocks \<Rightarrow> clocks \<Rightarrow> clocks \<Rightarrow> time option \<Rightarrow> string \<Rightarrow> 'l sys
    \<Rightarrow> 'l sys \<times> unit result" where
  "repo_RefreshEventStatus L flt c c' c'' deadline token s =
     (case LockRefreshEventStatus (flt RS_Lock) c deadline token (sys_redis s) of
        (r1, Inl e) \<Rightarrow>
          (s\<lparr>sys_redis := r1\<rparr>, if e = ErrRefreshEventStatusInProgress then Inr () else Inl e)
      | (r1, Inr tok) \<Rightarrow>
          let s1 = s\<lparr>sys_redis := r1\<rparr>;
              (s2, res) =
                (case pg_RefreshEventStatus (flt RS_Sweep) (c_pg c') (sys_db s1) of
                   (db', Inl e) \<Rightarrow> (s1\<lparr>sys_db := db'\<rparr>, Inl e)
                 | (db', Inr (eventIds, expired)) \<Rightarrow>
                     (fold (\<lambda>eventId s. fst (repo_UnblockEvent L (flt (RS_Unblock eventId)) c' eventId s)) eventIds
                        (s1\<lparr>sys_db := db'\<rparr>), Inr ()));
              r3 = fst (ReleaseRefreshEventStatus (flt RS_Release) c'' tok (sys_redis s2))
          in (s2\<lparr>sys_redis := r3\<rparr>, res))"

section \<open>Laws of the LRU, and an LRU\<close>

lemma lru_lawsD:
  assumes "lru_laws ttl L"
  shows "t \<le> t' \<Longrightarrow> t' < t + ttl \<Longrightarrow> snd (lru_Get L t' k (fst (lru_Add L t k l)))"
    and "t + ttl < t' \<Longrightarrow> \<not> snd (lru_Get L t' k (fst (lru_Add L t k l)))"
    and "k \<noteq> k' \<Longrightarrow> snd (lru_Get L t' k (fst (lru_Add L t k' l))) \<Longrightarrow> snd (lru_Get L t' k l)"
    and "snd (lru_Get L t k (fst (lru_Remove L k' l))) = (k \<noteq> k' \<and> snd (lru_Get L t k l))"
    and "snd (lru_Get L t' k (fst (lru_Get L t k' l))) = snd (lru_Get L t' k l)"
    and "\<not> snd (lru_Get L t k (lru_Purge L l))"
    and "t \<le> t' \<Longrightarrow> snd (lru_Get L t' k l) \<Longrightarrow> snd (lru_Get L t k l)"
proof -
  note laws = assms [unfolded lru_laws_def]
  show "t \<le> t' \<Longrightarrow> t' < t + ttl \<Longrightarrow> snd (lru_Get L t' k (fst (lru_Add L t k l)))" by (rule laws [THEN conjunct1, rule_format])
  show "t + ttl < t' \<Longrightarrow> \<not> snd (lru_Get L t' k (fst (lru_Add L t k l)))" by (rule laws [THEN conjunct2, THEN conjunct1, rule_format])
  show "k \<noteq> k' \<Longrightarrow> snd (lru_Get L t' k (fst (lru_Add L t k' l))) \<Longrightarrow> snd (lru_Get L t' k l)" by (rule laws [THEN conjunct2, THEN conjunct2, THEN conjunct1, rule_format])
  show "snd (lru_Get L t k (fst (lru_Remove L k' l))) = (k \<noteq> k' \<and> snd (lru_Get L t k l))" by (rule laws [THEN conjunct2, THEN conjunct2, THEN conjunct2, THEN conjunct1, rule_format])
  show "snd (lru_Get L t' k (fst (lru_Get L t k' l))) = snd (lru_Get L t' k l)" by (rule laws [THEN conjunct2, THEN conjunct2, THEN conjunct2, THEN conjunct2, THEN conjunct1, rule_format])
  show "\<not> snd (lru_Get L t k (lru_Purge L l))" by (rule laws [THEN conjunct2, THEN conjunct2, THEN conjunct2, THEN conjunct2, THEN conjunct2, THEN conjunct1, rule_format])
  show "t \<le> t' \<Longrightarrow> snd (lru_Get L t' k l) \<Longrightarrow> snd (lru_Get L t k l)" by (rule laws [THEN conjunct2, THEN conjunct2, THEN conjunct2, THEN conjunct2, THEN conjunct2, THEN conjunct2, rule_format])
qed

text \<open>A table of deadlines obeys the laws (it never has to evict).\<close>

definition table_lru :: "duration \<Rightarrow> (string \<Rightarrow> time option) lru_ops" where
  "table_lru ttl = \<lparr>
     lru_Add = (\<lambda>t k l. (l(k \<mapsto> t + ttl), False)),
     lru_Remove = (\<lambda>k l. (l(k := None), l k \<noteq> None)),
     lru_Get = (\<lambda>t k l. (l, case l k of None \<Rightarrow> False | Some d \<Rightarrow> t < d)),
     lru_Purge = (\<lambda>_ _. None)\<rparr>"

lemma table_lru_laws: "lru_laws ttl (table_lru ttl)"
  by (auto simp: lru_laws_def table_lru_def split: option.splits if_splits)

section \<open>The sold-out flag\<close>

abbreviation flag_local :: "'l lru_ops \<Rightarrow> time \<Rightarrow> string \<Rightarrow> 'l sys \<Rightarrow> bool" where
  "flag_local L t e s \<equiv> snd (lru_Get L t e (sys_lru s))"

abbreviation flag_shared :: "int \<Rightarrow> string \<Rightarrow> 'l sys \<Rightarrow> bool" where
  "flag_shared now e s \<equiv> rexists now (getEventBlockedKey e) (sys_redis s)"

lemma blocked_key_inj: "getEventBlockedKey e = getEventBlockedKey e' \<longleftrightarrow> e = e'"
  by (simp add: getEventBlockedKey_def)

lemma lock_key_not_blocked: "refreshEventStatusLockKey \<noteq> getEventBlockedKey e"
  by (simp add: refreshEventStatusLockKey_def getEventBlockedKey_def)

lemma IsBlockEvent_value:
  "snd (repo_IsBlockEvent L x c e s) = (flag_local L (c_wall c) e s \<or> x = Done \<and> flag_shared (c_redis c) e s)"
  by (cases x) (auto simp: repo_IsBlockEvent_def lru_IsBlockEvent_def rc_IsBlockEvent_def split_beta split: sum.splits)

lemma IsBlockEvent_frame [simp]:
  "sys_db (fst (repo_IsBlockEvent L x c e s)) = sys_db s" "sys_redis (fst (repo_IsBlockEvent L x c e s)) = sys_redis s"
  by (simp_all add: repo_IsBlockEvent_def split_beta split: sum.splits)

lemma BlockEvent_frame [simp]: "sys_db (fst (repo_BlockEvent L x c e s)) = sys_db s"
  by (simp add: repo_BlockEvent_def split_beta)

lemma UnblockEvent_frame [simp]: "sys_db (fst (repo_UnblockEvent L x c e s)) = sys_db s"
  by (simp add: repo_UnblockEvent_def split_beta)

lemma BlockEvent_flags:
  "sys_lru (fst (repo_BlockEvent L x c e s)) = fst (lru_Add L (c_wall c) e (sys_lru s))"
  "sys_redis (fst (repo_BlockEvent L Done c e s)) =
     rset (Some (c_redis c + 15000)) (getEventBlockedKey e) (RText ''1'') (sys_redis s)"
  by (simp_all add: repo_BlockEvent_def lru_BlockEvent_def rc_BlockEvent_def split_beta eventBlockedTTL_def Milliseconds_def)

lemma UnblockEvent_flags:
  "sys_lru (fst (repo_UnblockEvent L x c e s)) = fst (lru_Remove L e (sys_lru s))"
  "sys_redis (fst (repo_UnblockEvent L Done c e s)) = fst (rdel (c_redis c) (getEventBlockedKey e) (sys_redis s))"
  by (simp_all add: repo_UnblockEvent_def lru_UnblockEvent_def rc_UnblockEvent_def split_beta)

lemma UnblockEvent_shared:
  "flag_shared now e' (fst (repo_UnblockEvent L Done c e s)) = (e' \<noteq> e \<and> flag_shared now e' s)"
  by (simp add: UnblockEvent_flags rexists_def rstore.get_del blocked_key_inj)

lemma fold_unblock:
  assumes "lru_laws ttl L"
  shows "flag_local L t e (fold (\<lambda>e s. fst (repo_UnblockEvent L (flt e) c e s)) es s) = (e \<notin> set es \<and> flag_local L t e s)"
    and "(\<And>e. flt e = Done) \<Longrightarrow>
      flag_shared now e (fold (\<lambda>e s. fst (repo_UnblockEvent L (flt e) c e s)) es s) = (e \<notin> set es \<and> flag_shared now e s)"
    and "sys_db (fold (\<lambda>e s. fst (repo_UnblockEvent L (flt e) c e s)) es s) = sys_db s"
  by (induction es arbitrary: s) (auto simp: UnblockEvent_flags(1) lru_lawsD(4) [OF assms] UnblockEvent_shared)

section \<open>The sweep lock\<close>

definition lock_held :: "int \<Rightarrow> string \<Rightarrow> cache \<Rightarrow> bool" where
  "lock_held now token r \<longleftrightarrow> rget now refreshEventStatusLockKey r = Some (RText token)"

lemma Lock_InrD:
  assumes "LockRefreshEventStatus x c (Some d) token r = (r', Inr tok)"
  shows "tok = token" "x = Done" "\<not> rexists (c_redis c) refreshEventStatusLockKey r" "c_wall c < d"
    "r' = rset (Some (c_redis c + Milliseconds (d - c_wall c + marginTTL))) refreshEventStatusLockKey (RText token) r"
  using assms by (cases x; auto simp: LockRefreshEventStatus_def GetRemainingDeadline_def rset_nx_def split: if_splits)+

lemma Lock_busy:
  assumes "lock_held (c_redis c) tok r"
  shows "isl (snd (LockRefreshEventStatus x c deadline token r)) \<and> fst (LockRefreshEventStatus x c deadline token r) = r"
  using assms
  by (cases x) (auto simp: LockRefreshEventStatus_def lock_held_def rset_nx_def rexists_def split: sum.splits)

section \<open>Properties\<close>

text \<open>
  C32: the sold-out flag is shared at once and stale for at most five seconds. After \<open>BlockEvent\<close>
  every replica, whatever its local LRU holds, sees the event as blocked until the shared flag's
  15 seconds are over; after \<open>UnblockEvent\<close> this replica sees it as open, and another replica at
  most for as long as its own local copy lives, which is gone more than five seconds after it
  was made. A failed Redis call never blocks an event that the local copy does not block.
\<close>

theorem sold_out_flag_bounded_staleness:
  assumes L: "lru_laws lruBlockTTL L"
    and later: "c_redis c \<le> c_redis c'" "c_redis c' < c_redis c + 15000"
  shows "snd (repo_IsBlockEvent L Done c' e ((fst (repo_BlockEvent L Done c e s))\<lparr>sys_lru := other\<rparr>))
    \<and> \<not> snd (repo_IsBlockEvent L x c' e (fst (repo_UnblockEvent L Done c e s)))
    \<and> snd (repo_IsBlockEvent L x c' e ((fst (repo_UnblockEvent L Done c e s))\<lparr>sys_lru := other\<rparr>))
        = snd (lru_Get L (c_wall c') e other)
    \<and> (c_wall c + lruBlockTTL < c_wall c' \<longrightarrow>
        \<not> snd (repo_IsBlockEvent L x c' e ((fst (repo_UnblockEvent L Done c e s))
              \<lparr>sys_lru := fst (lru_Add L (c_wall c) e other)\<rparr>)))
    \<and> snd (repo_IsBlockEvent L (NotSent err) c' e s) = snd (lru_Get L (c_wall c') e (sys_lru s))"
proof -
  let ?u = "fst (repo_UnblockEvent L Done c e s)"
  have open_shared: "\<not> flag_shared (c_redis c') e (?u\<lparr>sys_lru := l\<rparr>)" for l
    using UnblockEvent_shared [of "c_redis c'" e L c e s] by simp
  have "\<not> flag_local L (c_wall c') e ?u" by (simp add: UnblockEvent_flags lru_lawsD(4) [OF L])
  moreover have "flag_shared (c_redis c') e ((fst (repo_BlockEvent L Done c e s))\<lparr>sys_lru := other\<rparr>)"
    using later by (simp add: BlockEvent_flags rexists_def rstore.get_put)
  ultimately show ?thesis
    using open_shared UnblockEvent_shared [of "c_redis c'" e L c e s] lru_lawsD(2) [OF L, of "c_wall c" "c_wall c'" e other]
    by (simp add: IsBlockEvent_value)
qed

theorem sold_out_flag_bounded_staleness_witness:
  "snd (repo_IsBlockEvent (table_lru lruBlockTTL) Done \<lparr>c_wall = 1, c_redis = 14999, c_pg = 1\<rparr> ''e1''
      ((fst (repo_BlockEvent (table_lru lruBlockTTL) Done \<lparr>c_wall = 0, c_redis = 0, c_pg = 0\<rparr> ''e1''
          \<lparr>sys_db = demo_db, sys_redis = empty_redis, sys_lru = (\<lambda>_. None)\<rparr>))\<lparr>sys_lru := (\<lambda>_. None)\<rparr>))"
  by (rule sold_out_flag_bounded_staleness [OF table_lru_laws, THEN conjunct1]) simp_all

text \<open>
  C29: one sweep at a time. While a token holds the lock nobody else gets it, whatever their calls
  meet, and the lock stays as it is; it outlasts the holder's own deadline by five seconds; a
  release with another token leaves it; and after the holder's release it is free.
\<close>

theorem sweep_lock_mutual_exclusion:
  assumes got: "LockRefreshEventStatus x c (Some d) token r = (r', Inr tok)"
    and before: "c_redis c \<le> c_redis c'" "c_redis c' < c_redis c + Milliseconds (d - c_wall c) + 5000"
  shows "lock_held (c_redis c') token r'
    \<and> isl (snd (LockRefreshEventStatus x' c' deadline' token' r')) \<and> fst (LockRefreshEventStatus x' c' deadline' token' r') = r'
    \<and> (token' \<noteq> token \<longrightarrow> fst (ReleaseRefreshEventStatus x' c' token' r') = r')
    \<and> \<not> rexists (c_redis c') refreshEventStatusLockKey (fst (ReleaseRefreshEventStatus Done c' token r'))"
proof -
  have "Milliseconds (d - c_wall c + marginTTL) = Milliseconds (d - c_wall c) + 5000"
    unfolding Milliseconds_def marginTTL_def by (simp add: div_add_self2 algebra_simps)
  then have held: "lock_held (c_redis c') token r'"
    using Lock_InrD [OF got] before by (simp add: lock_held_def rstore.get_put)
  then have "fst (ReleaseRefreshEventStatus x' c' token' r') = r'" if "token' \<noteq> token"
    using that by (cases x') (auto simp: ReleaseRefreshEventStatus_def unlockScript_def lock_held_def)
  moreover have "\<not> rexists (c_redis c') refreshEventStatusLockKey (fst (ReleaseRefreshEventStatus Done c' token r'))"
    using held by (simp add: ReleaseRefreshEventStatus_def unlockScript_def lock_held_def split_beta)
      (simp add: rexists_def rstore.get_del)
  ultimately show ?thesis using held Lock_busy [OF held] by blast
qed

theorem sweep_lock_mutual_exclusion_witness:
  "lock_held 20000 ''t1'' (fst (LockRefreshEventStatus Done \<lparr>c_wall = 0, c_redis = 0, c_pg = 0\<rparr> (Some (30 * Second)) ''t1'' empty_redis))"
proof -
  have got: "LockRefreshEventStatus Done \<lparr>c_wall = 0, c_redis = 0, c_pg = 0\<rparr> (Some (30 * Second)) ''t1'' empty_redis
      = (rset (Some 35000) refreshEventStatusLockKey (RText ''t1'') empty_redis, Inr ''t1'')"
    by (simp add: LockRefreshEventStatus_def GetRemainingDeadline_def rset_nx_def rexists_def rget_def empty_redis_def
        Milliseconds_def marginTTL_def)
  show ?thesis
    unfolding got using sweep_lock_mutual_exclusion [OF got, of "\<lparr>c_wall = 20 * Second, c_redis = 20000, c_pg = 0\<rparr>"]
    by (simp add: Milliseconds_def)
qed

text \<open>
  A sweep that gets the lock reopens every event it freed seats of. With no sweep in progress
  and no failing call, \<open>RefreshEventStatus\<close> leaves the swept database, shows as open every event
  that had a lapsed hold, changes the flag of no other event, and gives the lock back.
\<close>

lemma RefreshEventStatus_reopens_freed_events:
  assumes L: "lru_laws ttl L"
    and free: "\<not> rexists (c_redis c) refreshEventStatusLockKey (sys_redis s)" and dl: "c_wall c < d"
    and before: "c_redis c \<le> c_redis c''" "c_redis c'' < c_redis c + Milliseconds (d - c_wall c) + 5000"
    and run: "repo_RefreshEventStatus L (\<lambda>_. Done) c c' c'' (Some d) token s = (s', res)"
  shows "res = Inr ()
    \<and> reservations_tbl (sys_db s') = map (expire_row (c_pg c')) (reservations_tbl (sys_db s))
    \<and> snd (repo_IsBlockEvent L Done c'' e s') =
        (e \<notin> res_EventId ` set (filter (hold_lapsed (c_pg c')) (reservations_tbl (sys_db s)))
         \<and> snd (repo_IsBlockEvent L Done c'' e s))
    \<and> \<not> rexists (c_redis c'') refreshEventStatusLockKey (sys_redis s')"
proof -
  let ?lock = "rset (Some (c_redis c + Milliseconds (d - c_wall c + marginTTL))) refreshEventStatusLockKey (RText token)"
  let ?es = "map fst (expired_groups (c_pg c') (reservations_tbl (sys_db s)))"
  let ?db = "(sys_db s)\<lparr>reservations_tbl := map (expire_row (c_pg c')) (reservations_tbl (sys_db s))\<rparr>"
  define s1 where "s1 = s\<lparr>sys_redis := ?lock (sys_redis s), sys_db := ?db\<rparr>"
  define s2 where "s2 = fold (\<lambda>e s. fst (repo_UnblockEvent L Done c' e s)) ?es s1"
  have lock: "LockRefreshEventStatus Done c (Some d) token (sys_redis s) = (?lock (sys_redis s), Inr token)"
    using free dl by (simp add: LockRefreshEventStatus_def GetRemainingDeadline_def rset_nx_def)
  have out: "s' = s2\<lparr>sys_redis := fst (ReleaseRefreshEventStatus Done c'' token (sys_redis s2))\<rparr>" "res = Inr ()"
    using run by (simp_all add: repo_RefreshEventStatus_def lock pg_RefreshEventStatus_def s1_def s2_def Let_def split_beta)
  have s2: "sys_db s2 = ?db" "\<And>t. flag_local L t e s2 = (e \<notin> set ?es \<and> flag_local L t e s1)"
    "\<And>now. flag_shared now e s2 = (e \<notin> set ?es \<and> flag_shared now e s1)"
    unfolding s2_def by (simp_all only: fold_unblock [OF L] HOL.simp_thms) (simp add: s1_def)
  have keep: "rget now refreshEventStatusLockKey (sys_redis (fold (\<lambda>e s. fst (repo_UnblockEvent L Done c' e s)) es z))
      = rget now refreshEventStatusLockKey (sys_redis z)" for now es z
    by (induction es arbitrary: z) (simp_all add: UnblockEvent_flags rstore.get_del lock_key_not_blocked)
  have ms: "Milliseconds (d - c_wall c + marginTTL) = Milliseconds (d - c_wall c) + 5000"
    unfolding Milliseconds_def marginTTL_def by (simp add: div_add_self2 algebra_simps)
  have held: "rget (c_redis c'') refreshEventStatusLockKey (sys_redis s2) = Some (RText token)"
    unfolding s2_def keep using before by (simp add: s1_def rstore.get_put ms)
  have rel: "sys_redis s' = fst (rdel (c_redis c'') refreshEventStatusLockKey (sys_redis s2))"
    using held by (simp add: out(1) ReleaseRefreshEventStatus_def unlockScript_def split_beta)
  have "flag_shared now e s' = flag_shared now e s2" for now
    by (simp add: rexists_def rel rstore.get_del lock_key_not_blocked [symmetric])
  moreover have "sys_lru s' = sys_lru s2" by (simp add: out(1))
  moreover have "flag_local L t e s1 = flag_local L t e s" "flag_shared now e s1 = flag_shared now e s" for t now
    by (simp_all add: s1_def rexists_def rstore.get_put lock_key_not_blocked [symmetric])
  moreover have "set ?es = res_EventId ` set (filter (hold_lapsed (c_pg c')) (reservations_tbl (sys_db s)))"
    using expired_groups_events(2) by simp
  moreover have "\<not> rexists (c_redis c'') refreshEventStatusLockKey (sys_redis s')"
    by (simp add: rel rexists_def rstore.get_del)
  moreover have "reservations_tbl (sys_db s') = map (expire_row (c_pg c')) (reservations_tbl (sys_db s))"
    by (simp add: out(1) s2(1))
  ultimately show ?thesis using out(2) s2(2,3) by (auto simp: IsBlockEvent_value)
qed

end
