(* ===== verification/VirtualQueue.thy ===== *)
theory VirtualQueue
  imports Schema
begin

text \<open>
  \<open>src/backend/repository/virtualqueues\<close>: the waiting line and the admission gate of an event,
  kept in Redis. A Lua script is one atomic step of the server: a function of the server's
  clock in milliseconds, its keys and arguments, and the keyspace. Numbers inside the scripts
  are mathematical integers, which Lua's doubles represent exactly up to \<open>2^53\<close>; a duration is
  passed to a script as its whole seconds.
\<close>

section \<open>Configuration and keys\<close>

record VirtualQueueRepository =
  vq_maxConcurrentQueue :: u64
  vq_promoteInterval :: duration
  vq_WhitelistTTL :: duration
  vq_HeartbeatTTL :: duration
  vq_QueueTTL :: duration

definition Seconds :: "duration \<Rightarrow> nat" where
  "Seconds d = nat (d div Second)"

definition getEventVirtualQueueKey :: "string \<Rightarrow> string" where
  "getEventVirtualQueueKey eventId = ''virtual_queue:{'' @ eventId @ ''}:event''"

definition getUserHeartbeatKey :: "string \<Rightarrow> string \<Rightarrow> string" where
  "getUserHeartbeatKey eventId userId = ''virtual_queue:{'' @ eventId @ ''}:user:'' @ userId"

definition getEventWhitelisKey :: "string \<Rightarrow> string" where
  "getEventWhitelisKey eventId = ''virtual_queue:{'' @ eventId @ ''}:whitelist''"

definition getEventMaxConcurrentKey :: "string \<Rightarrow> string" where
  "getEventMaxConcurrentKey eventId = ''virtual_queue:{'' @ eventId @ ''}:max_concurrent''"

definition getActiveEventsKey :: string where
  "getActiveEventsKey = ''virtual_queue:active_events''"

section \<open>Tracked events and the capacity override\<close>

definition TrackActiveEvent :: "io \<Rightarrow> string \<Rightarrow> cache \<Rightarrow> cache \<times> nat result" where
  "TrackActiveEvent x eventId r = io_call x (rsadd getActiveEventsKey eventId) r"

definition untrackIdleEventLuaScript :: "string \<Rightarrow> string \<Rightarrow> string \<Rightarrow> cache \<Rightarrow> cache \<times> nat" where
  "untrackIdleEventLuaScript eventVirtualQueueKey activeEventsKey eventId r =
     (if 0 < rzcard eventVirtualQueueKey r then (r, 0) else rsrem activeEventsKey eventId r)"

definition UntrackIdleEvent :: "io \<Rightarrow> string \<Rightarrow> cache \<Rightarrow> cache \<times> bool result" where
  "UntrackIdleEvent x eventId r =
     (case io_call x (untrackIdleEventLuaScript (getEventVirtualQueueKey eventId) getActiveEventsKey eventId) r of
        (r', Inl e) \<Rightarrow> (r', Inl e)
      | (r', Inr removed) \<Rightarrow> (r', Inr (0 < removed)))"

definition GetActiveEvents :: "io \<Rightarrow> cache \<Rightarrow> string list result" where
  "GetActiveEvents x r = io_read x (rsmembers getActiveEventsKey r)"

definition vqSetEventMaxConcurrent :: "io \<Rightarrow> string \<Rightarrow> u64 \<Rightarrow> cache \<Rightarrow> cache \<times> unit result" where
  "vqSetEventMaxConcurrent x eventId maxConcurrent r =
     io_call x (\<lambda>r. (rset None (getEventMaxConcurrentKey eventId) (RNum (unat maxConcurrent)) r, ())) r"

definition vqClearEventMaxConcurrent :: "io \<Rightarrow> int \<Rightarrow> string \<Rightarrow> cache \<Rightarrow> cache \<times> nat result" where
  "vqClearEventMaxConcurrent x now eventId r = io_call x (rdel now (getEventMaxConcurrentKey eventId)) r"

text \<open>Every failure, a missing key, an unreadable value or a lost connection, gives the fallback.\<close>

definition vqGetEventMaxConcurrent :: "io \<Rightarrow> int \<Rightarrow> string \<Rightarrow> u64 \<Rightarrow> cache \<Rightarrow> u64 result" where
  "vqGetEventMaxConcurrent x now eventId fallback r =
     (case io_err x of
        Some e \<Rightarrow> Inr fallback
      | None \<Rightarrow> (case rget now (getEventMaxConcurrentKey eventId) r of
                   Some (RNum n) \<Rightarrow> Inr (if n < 2 ^ 64 then of_nat n else fallback)
                 | _ \<Rightarrow> Inr fallback))"

section \<open>Enqueue, Dequeue and Ping\<close>

definition enqueueLuaScript ::
  "int \<Rightarrow> string \<Rightarrow> string \<Rightarrow> int \<Rightarrow> int \<Rightarrow> string \<Rightarrow> nat \<Rightarrow> cache \<Rightarrow> cache \<times> int result" where
  "enqueueLuaScript now eventVirtualQueueKey userHeartbeatKey currentTime expiresAt userId heartbeatTTL r =
     (let r1 = rzremrangebyscore eventVirtualQueueKey currentTime r
      in if heartbeatTTL = 0 then (r1, Inl (OtherError ''invalid expire time''))
         else
           let (r2, isSet) = rset_nx now (Some (now + 1000 * int heartbeatTTL)) userHeartbeatKey (RNum 1) r1
           in if isSet
              then let (r3, n) = rzadd eventVirtualQueueKey expiresAt userId r2 in (r3, Inr (int n))
              else (r2, Inr (- 1)))"

datatype enqueue_call = EQ_Script | EQ_Track

text \<open>\<open>wall\<close> is the process clock, \<open>now\<close> the server's.\<close>

definition vqEnqueue ::
  "VirtualQueueRepository \<Rightarrow> (enqueue_call \<Rightarrow> io) \<Rightarrow> time \<Rightarrow> int \<Rightarrow> string \<Rightarrow> string \<Rightarrow> cache
    \<Rightarrow> cache \<times> bool result" where
  "vqEnqueue repo flt wall now eventId userId r =
     (case io_call (flt EQ_Script)
             (enqueueLuaScript now (getEventVirtualQueueKey eventId) (getUserHeartbeatKey eventId userId)
                (Unix wall) (Unix (wall + vq_QueueTTL repo)) userId (Seconds (vq_HeartbeatTTL repo))) r of
        (r1, Inl e) \<Rightarrow> (r1, Inl e)
      | (r1, Inr (Inl e)) \<Rightarrow> (r1, Inl e)
      | (r1, Inr (Inr affected)) \<Rightarrow>
          let r2 = fst (TrackActiveEvent (flt EQ_Track) eventId r1)
          in if affected < 0 then (r2, Inl ErrVirtualQueueExist) else (r2, Inr (0 < affected)))"

definition dequeueLuaScript ::
  "int \<Rightarrow> string \<Rightarrow> string \<Rightarrow> string \<Rightarrow> string \<Rightarrow> cache \<Rightarrow> cache \<times> nat list" where
  "dequeueLuaScript now eventVirtualQueueKey eventWhitelistKey userHeartbeatKey userId r =
     (let (r1, removedFromWhitelist) = rhdel now eventWhitelistKey userId r;
          (r2, removedFromQueue) = rzrem eventVirtualQueueKey userId r1;
          (r3, _) = rdel now userHeartbeatKey r2
      in (r3, [removedFromQueue + removedFromWhitelist, removedFromWhitelist]))"

definition vqDequeue :: "io \<Rightarrow> int \<Rightarrow> string \<Rightarrow> string \<Rightarrow> cache \<Rightarrow> cache \<times> (bool \<times> bool) result" where
  "vqDequeue x now eventId userId r =
     (case io_call x (dequeueLuaScript now (getEventVirtualQueueKey eventId) (getEventWhitelisKey eventId)
                        (getUserHeartbeatKey eventId userId) userId) r of
        (r', Inl e) \<Rightarrow> (r', Inl e)
      | (r', Inr (a # b # _)) \<Rightarrow> (r', Inr (0 < a, 0 < b))
      | (r', Inr _) \<Rightarrow> (r', Inr (False, False)))"

definition pingLuaScript ::
  "int \<Rightarrow> string \<Rightarrow> string \<Rightarrow> string \<Rightarrow> nat \<Rightarrow> cache \<Rightarrow> cache \<times> int" where
  "pingLuaScript now eventWhitelistKey userHeartbeatKey userId heartbeatTTL r =
     (case rhttl now eventWhitelistKey userId r of
        ttl # _ \<Rightarrow>
          if 0 < ttl then (r, ttl)
          else let (r', n) = rexpire now heartbeatTTL userHeartbeatKey r in (r', if n = 1 then 0 else - 1)
      | [] \<Rightarrow> let (r', n) = rexpire now heartbeatTTL userHeartbeatKey r in (r', if n = 1 then 0 else - 1))"

definition vqPing ::
  "VirtualQueueRepository \<Rightarrow> io \<Rightarrow> int \<Rightarrow> string \<Rightarrow> string \<Rightarrow> cache \<Rightarrow> cache \<times> (duration \<times> bool) result" where
  "vqPing repo x now eventId userId r =
     (case io_call x (pingLuaScript now (getEventWhitelisKey eventId) (getUserHeartbeatKey eventId userId) userId
                        (Seconds (vq_HeartbeatTTL repo))) r of
        (r', Inl e) \<Rightarrow> (r', Inl e)
      | (r', Inr result) \<Rightarrow> (r', Inr (if result < 0 then (0, False) else (result * Second, True))))"

section \<open>Admission\<close>

text \<open>One pass of the \<open>for\<close> loop over a batch of candidates; it stops at \<open>desiredCount\<close>.\<close>

fun admit_candidates ::
  "int \<Rightarrow> string \<Rightarrow> string \<Rightarrow> nat \<Rightarrow> nat \<Rightarrow> string list \<Rightarrow> string list \<Rightarrow> cache \<Rightarrow> string list \<times> cache" where
  "admit_candidates now eventVirtualQueueKey eventId whitelistTTL desiredCount [] alive r = (alive, r)"
| "admit_candidates now eventVirtualQueueKey eventId whitelistTTL desiredCount (userId # candidates) alive r =
     (let heartbeatKey = ''virtual_queue:{'' @ eventId @ ''}:user:'' @ userId;
          whitelistKey = ''virtual_queue:{'' @ eventId @ ''}:whitelist''
      in if rexists now heartbeatKey r
         then
           let alive' = alive @ [userId];
               r1 = fst (rzrem eventVirtualQueueKey userId r);
               r2 = rhset whitelistKey userId ''1'' r1;
               r3 = rhexpire now whitelistTTL whitelistKey userId r2;
               r4 = fst (rdel now heartbeatKey r3)
           in if desiredCount \<le> length alive' then (alive', r4)
              else admit_candidates now eventVirtualQueueKey eventId whitelistTTL desiredCount candidates alive' r4
         else
           admit_candidates now eventVirtualQueueKey eventId whitelistTTL desiredCount candidates alive
             (fst (rzrem eventVirtualQueueKey userId r)))"

lemma rzrem_card: "rzcard q (fst (rzrem k m r)) \<le> rzcard q r"
  by (simp add: rzcard_def rzrem_def zwithout_def)

lemma rzcard_frame [simp]:
  "rzcard q (rhset k f v r) = rzcard q r" "rzcard q (rhexpire now s k f r) = rzcard q r"
  "rzcard q (fst (rdel now k r)) = rzcard q r"
  by (simp_all add: rzcard_def)

lemma admit_candidates_card:
  "rzcard q (snd (admit_candidates now q e ttl n cs alive r)) \<le> rzcard q r"
proof (induction cs arbitrary: alive r)
  case (Cons u cs)
  show ?case
    by (auto simp: Let_def rzrem_card intro: order_trans [OF Cons.IH])
qed simp

lemma admit_candidates_progress:
  assumes "u \<in> set (zmembers (r_zsets r q))"
  shows "rzcard q (snd (admit_candidates now q e ttl n (u # cs) alive r)) < rzcard q r"
proof -
  have less: "rzcard q (fst (rzrem q u r)) < rzcard q r"
    using assms by (simp add: rzcard_def rzrem_def length_zwithout_less)
  show ?thesis
    by (auto simp: Let_def less intro: le_less_trans [OF admit_candidates_card])
qed

text \<open>
  The \<open>while\<close> loop: batches from the head of the line until enough users are admitted or the
  line is empty. Every pass removes at least the first candidate, so the loop ends.
\<close>

function admit_loop ::
  "int \<Rightarrow> string \<Rightarrow> string \<Rightarrow> nat \<Rightarrow> nat \<Rightarrow> nat \<Rightarrow> string list \<Rightarrow> cache \<Rightarrow> string list \<times> cache" where
  "admit_loop now eventVirtualQueueKey eventId whitelistTTL desiredCount batchSize alive r =
     (if length alive < desiredCount
      then (case rzrange eventVirtualQueueKey batchSize r of
              [] \<Rightarrow> (alive, r)
            | userId # candidates \<Rightarrow>
                let (alive', r') = admit_candidates now eventVirtualQueueKey eventId whitelistTTL desiredCount
                                     (userId # candidates) alive r
                in admit_loop now eventVirtualQueueKey eventId whitelistTTL desiredCount batchSize alive' r')
      else (alive, r))"
  by pat_completeness auto

termination
proof (relation "measure (\<lambda>(now, q, e, ttl, n, b, alive, r). rzcard q r)", goal_cases)
  case 1
  then show ?case by simp
next
  case (2 now q e ttl n b alive r u cs x alive' r')
  have "u \<in> set (rzrange q b r)" using 2(2) by simp
  then have "u \<in> set (zmembers (r_zsets r q))" unfolding rzrange_def by (rule in_set_takeD)
  then have less: "rzcard q (snd (admit_candidates now q e ttl n (u # cs) alive r)) < rzcard q r"
    by (rule admit_candidates_progress)
  have "snd x = r'" by (subst 2(4) [symmetric]) (rule snd_conv)
  then have "rzcard q r' < rzcard q r" using less unfolding 2(3) [symmetric] by (simp only:)
  then show ?case by (simp only: in_measure prod.case)
qed

declare admit_loop.simps [simp del]

definition tryWhitelistEventQueueLuaScript ::
  "int \<Rightarrow> string \<Rightarrow> string \<Rightarrow> string \<Rightarrow> string \<Rightarrow> nat \<Rightarrow> nat \<Rightarrow> nat \<Rightarrow> cache \<Rightarrow> cache \<times> nat" where
  "tryWhitelistEventQueueLuaScript now eventVirtualQueueKey eventWhitelistKey eventMaxConcurrentKey eventId
      desiredCount maxConcurrency whitelistTTL r =
     (let maxConcurrency' = (case rget now eventMaxConcurrentKey r of
                               Some (RNum n) \<Rightarrow> n
                             | _ \<Rightarrow> maxConcurrency);
          room = int maxConcurrency' - int (rhlen eventWhitelistKey r)
      in if room \<le> 0 then (r, 0)
         else
           let desiredCount' = (if room < int desiredCount then nat room else desiredCount);
               (alive, r') = admit_loop now eventVirtualQueueKey eventId whitelistTTL desiredCount'
                               (desiredCount' * 2) [] r
           in (r', length alive))"

definition vqTryWhitelistEventQueue ::
  "VirtualQueueRepository \<Rightarrow> io \<Rightarrow> int \<Rightarrow> string \<Rightarrow> u64 \<Rightarrow> cache \<Rightarrow> cache \<times> bool result" where
  "vqTryWhitelistEventQueue repo x now eventId desiredCount r =
     (case io_call x (tryWhitelistEventQueueLuaScript now (getEventVirtualQueueKey eventId) (getEventWhitelisKey eventId)
                        (getEventMaxConcurrentKey eventId) eventId (unat desiredCount)
                        (unat (vq_maxConcurrentQueue repo)) (Seconds (vq_WhitelistTTL repo))) r of
        (r', Inl e) \<Rightarrow> (r', Inl e)
      | (r', Inr result) \<Rightarrow> (r', Inr (0 < result)))"

section \<open>Counts, slots and the promoter\<close>

definition vqGetTotalVirtualQueue :: "io \<Rightarrow> string \<Rightarrow> cache \<Rightarrow> nat result" where
  "vqGetTotalVirtualQueue x eventId r = io_read x (rzcard (getEventVirtualQueueKey eventId) r)"

definition vqGetTotalEventWhitelist :: "io \<Rightarrow> string \<Rightarrow> cache \<Rightarrow> nat result" where
  "vqGetTotalEventWhitelist x eventId r = io_read x (rhlen (getEventWhitelisKey eventId) r)"

definition vqGetWhitelistedUserTTL :: "io \<Rightarrow> int \<Rightarrow> string \<Rightarrow> string \<Rightarrow> cache \<Rightarrow> duration result" where
  "vqGetWhitelistedUserTTL x now eventId userId r =
     (case io_read x (rhttl now (getEventWhitelisKey eventId) userId r) of
        Inl e \<Rightarrow> Inl e
      | Inr [] \<Rightarrow> Inl ErrMissingWhitelistKey
      | Inr (v # _) \<Rightarrow> Inr (v * Second))"

definition vqDeleteWhitelistedUserTTL :: "io \<Rightarrow> int \<Rightarrow> string \<Rightarrow> string \<Rightarrow> cache \<Rightarrow> cache \<times> bool result" where
  "vqDeleteWhitelistedUserTTL x now eventId userId r =
     (case io_call x (rhdel now (getEventWhitelisKey eventId) userId) r of
        (r', Inl e) \<Rightarrow> (r', Inl e)
      | (r', Inr affected) \<Rightarrow> (r', if 0 < affected then Inr True else Inl ErrMissingWhitelistKey))"

datatype promote_call = PA_Events | PA_QueueSize string | PA_Untrack string | PA_WhitelistSize string
  | PA_Cap string | PA_Admit string

text \<open>
  The body of the promoter's loop for one event. \<open>int64(maxConcurrent)\<close> reinterprets the
  unsigned value, as the conversion in Go does.
\<close>

definition promote_event ::
  "VirtualQueueRepository \<Rightarrow> (promote_call \<Rightarrow> io) \<Rightarrow> int \<Rightarrow> string \<Rightarrow> cache \<Rightarrow> cache" where
  "promote_event repo flt now eventId r =
     (case vqGetTotalVirtualQueue (flt (PA_QueueSize eventId)) eventId r of
        Inl e \<Rightarrow> r
      | Inr queued \<Rightarrow>
          if queued = 0 then fst (UntrackIdleEvent (flt (PA_Untrack eventId)) eventId r)
          else
            (case vqGetTotalEventWhitelist (flt (PA_WhitelistSize eventId)) eventId r of
               Inl e \<Rightarrow> r
             | Inr whitelisted \<Rightarrow>
                 (case vqGetEventMaxConcurrent (flt (PA_Cap eventId)) now eventId (vq_maxConcurrentQueue repo) r of
                    Inl e \<Rightarrow> r
                  | Inr maxConcurrent \<Rightarrow>
                      let free = wrap_i64 (sint maxConcurrent - int whitelisted)
                      in if free \<le> 0 then r
                         else
                           let free' = (if int queued < free then int queued else free)
                           in fst (vqTryWhitelistEventQueue repo (flt (PA_Admit eventId)) now eventId (of_int free') r))))"

definition PromoteActiveEvents ::
  "VirtualQueueRepository \<Rightarrow> (promote_call \<Rightarrow> io) \<Rightarrow> int \<Rightarrow> cache \<Rightarrow> cache \<times> go_error option" where
  "PromoteActiveEvents repo flt now r =
     (case GetActiveEvents (flt PA_Events) r of
        Inl e \<Rightarrow> (r, Some e)
      | Inr eventIds \<Rightarrow> (fold (promote_event repo flt now) eventIds r, None))"

section \<open>Keys\<close>

lemma heartbeat_key_inj: "getUserHeartbeatKey e u = getUserHeartbeatKey e u' \<longleftrightarrow> u = u'"
  by (simp add: getUserHeartbeatKey_def)

lemma event_keys_inj:
  "getEventVirtualQueueKey e = getEventVirtualQueueKey e' \<longleftrightarrow> e = e'"
  "getEventWhitelisKey e = getEventWhitelisKey e' \<longleftrightarrow> e = e'"
  "getEventMaxConcurrentKey e = getEventMaxConcurrentKey e' \<longleftrightarrow> e = e'"
  by (simp_all add: getEventVirtualQueueKey_def getEventWhitelisKey_def getEventMaxConcurrentKey_def)

text \<open>
  User ids are UUIDs written out by the database. Event ids come from the request body
  unchecked, so nothing is assumed of them.
\<close>

definition uuid_text :: "string \<Rightarrow> bool" where
  "uuid_text s \<longleftrightarrow> length s = 36 \<and> list_all (\<lambda>c. c \<in> set ''0123456789abcdef-'') s"

lemma heartbeat_key_unique:
  assumes "uuid_text u" and "uuid_text u'" and "getUserHeartbeatKey e u = getUserHeartbeatKey e' u'"
  shows "e = e' \<and> u = u'"
proof -
  have len: "length u = length u'" using assms(1,2) by (simp add: uuid_text_def)
  have "(e @ ''}:user:'') @ u = (e' @ ''}:user:'') @ u'" using assms(3) by (simp add: getUserHeartbeatKey_def)
  then have "e @ ''}:user:'' = e' @ ''}:user:'' \<and> u = u'" 
    using append_eq_append_conv [of "e @ ''}:user:''" "e' @ ''}:user:''" u u'] len by blast
  then show ?thesis by simp
qed

lemma heartbeat_key_not_cap:
  assumes "uuid_text u"
  shows "getUserHeartbeatKey e u \<noteq> getEventMaxConcurrentKey e'"
proof
  assume eq: "getUserHeartbeatKey e u = getEventMaxConcurrentKey e'"
  have u: "u \<noteq> []" using assms by (auto simp: uuid_text_def)
  then have "last u = last (getUserHeartbeatKey e u)" by (simp add: getUserHeartbeatKey_def)
  also have "\<dots> = CHR ''t''" unfolding eq by (simp add: getEventMaxConcurrentKey_def)
  finally have t: "CHR ''t'' \<in> set u" using u by (metis last_in_set)
  have "\<forall>c \<in> set u. c \<in> set ''0123456789abcdef-''" using assms unfolding uuid_text_def list_all_iff by (rule conjunct2)
  then have "CHR ''t'' \<in> set ''0123456789abcdef-''" using t by (rule bspec)
  then show False by simp
qed

section \<open>The reference for admission\<close>

text \<open>
  The prefix of the line that is looked at when \<open>k\<close> users are wanted: up to and including the
  \<open>k\<close>-th user whose heartbeat is alive, or the whole line.
\<close>

fun scan_alive :: "(string \<Rightarrow> bool) \<Rightarrow> nat \<Rightarrow> string list \<Rightarrow> string list" where
  "scan_alive P 0 us = []"
| "scan_alive P (Suc k) [] = []"
| "scan_alive P (Suc k) (u # us) = u # (if P u then scan_alive P k us else scan_alive P (Suc k) us)"

text \<open>What happens to one user who is looked at: admitted if alive, dropped from the line if not.\<close>

definition settle :: "int \<Rightarrow> string \<Rightarrow> string \<Rightarrow> nat \<Rightarrow> string \<Rightarrow> cache \<Rightarrow> cache" where
  "settle now q e ttl u r =
     (if rexists now (getUserHeartbeatKey e u) r
      then fst (rdel now (getUserHeartbeatKey e u)
             (rhexpire now ttl (getEventWhitelisKey e) u
               (rhset (getEventWhitelisKey e) u ''1'' (fst (rzrem q u r)))))
      else fst (rzrem q u r))"

abbreviation beating :: "int \<Rightarrow> string \<Rightarrow> cache \<Rightarrow> string \<Rightarrow> bool" where
  "beating now e r u \<equiv> rexists now (getUserHeartbeatKey e u) r"

abbreviation waiting :: "string \<Rightarrow> cache \<Rightarrow> string list" where
  "waiting q r \<equiv> zmembers (r_zsets r q)"

definition effective_cap :: "int \<Rightarrow> string \<Rightarrow> nat \<Rightarrow> cache \<Rightarrow> nat" where
  "effective_cap now e maxConcurrency r =
     (case rget now (getEventMaxConcurrentKey e) r of Some (RNum n) \<Rightarrow> n | _ \<Rightarrow> maxConcurrency)"

definition admission_reference :: "int \<Rightarrow> string \<Rightarrow> nat \<Rightarrow> nat \<Rightarrow> nat \<Rightarrow> cache \<Rightarrow> cache \<times> nat" where
  "admission_reference now e desiredCount maxConcurrency ttl r =
     (let q = getEventVirtualQueueKey e;
          k = min desiredCount (effective_cap now e maxConcurrency r - rhlen (getEventWhitelisKey e) r);
          seen = scan_alive (beating now e r) k (waiting q r)
      in (fold (settle now q e ttl) seen r, length (filter (beating now e r) seen)))"

lemma scan_alive_cong: "(\<And>u. u \<in> set us \<Longrightarrow> P u = Q u) \<Longrightarrow> scan_alive P k us = scan_alive Q k us"
  by (induction P k us rule: scan_alive.induct) auto

lemma scan_alive_set: "set (scan_alive P k us) \<subseteq> set us"
  by (induction P k us rule: scan_alive.induct) auto

lemma scan_alive_filter: "filter P (scan_alive P k us) = take k (filter P us)"
  by (induction P k us rule: scan_alive.induct) auto

lemma scan_alive_prefix: "scan_alive P k us = take (length (scan_alive P k us)) us"
  by (induction P k us rule: scan_alive.induct) auto

lemma scan_alive_append:
  "scan_alive P k (xs @ ys) = scan_alive P k xs @ scan_alive P (k - length (filter P xs)) ys"
  by (induction P k xs rule: scan_alive.induct) auto

lemma scan_alive_all: "length (filter P us) < k \<Longrightarrow> scan_alive P k us = us"
  by (induction P k us rule: scan_alive.induct) (auto split: if_splits)

lemma scan_alive_enough: "k \<le> length (filter P xs) \<Longrightarrow> scan_alive P k (xs @ ys) = scan_alive P k xs"
  by (simp add: scan_alive_append)

section \<open>The loop computes the reference\<close>

lemma rexists_frame [simp]:
  "rexists now k (rhset h f v r) = rexists now k r" "rexists now k (rhexpire now' s h f r) = rexists now k r"
  "rexists now k (fst (rzrem z m r)) = rexists now k r"
  by (simp_all add: rexists_def rget_def)

lemma rexists_rdel [simp]: "rexists now k (fst (rdel now' k' r)) = (k \<noteq> k' \<and> rexists now k r)"
  by (simp add: rexists_def rstore.get_del)

lemma settle_zsets [simp]:
  "r_zsets (settle now q e ttl u r) = (r_zsets r)(q := zwithout u (r_zsets r q))"
  by (simp add: settle_def) (simp add: rzrem_def)

lemma settle_beating: "v \<noteq> u \<Longrightarrow> beating now e (settle now q e ttl u r) v = beating now e r v"
  by (simp add: settle_def heartbeat_key_inj)

lemma fold_settle_waiting:
  "waiting q (fold (settle now q e ttl) s r) = filter (\<lambda>u. u \<notin> set s) (waiting q r)"
  by (induction s arbitrary: r) (auto simp: filter_filter conj_commute intro: filter_cong)

lemma fold_settle_beating:
  "v \<notin> set s \<Longrightarrow> beating now e (fold (settle now q e ttl) s r) v = beating now e r v"
  by (induction s arbitrary: r) (auto simp: settle_beating)

lemma admit_candidates_step:
  "admit_candidates now q e ttl n (u # cs) alive r =
     (if beating now e r u
      then (if n \<le> Suc (length alive) then (alive @ [u], settle now q e ttl u r)
            else admit_candidates now q e ttl n cs (alive @ [u]) (settle now q e ttl u r))
      else admit_candidates now q e ttl n cs alive (settle now q e ttl u r))"
  by (simp add: Let_def settle_def getUserHeartbeatKey_def getEventWhitelisKey_def)

declare admit_candidates.simps(2) [simp del]

lemma admit_candidates_reference:
  assumes "distinct cs" and "length alive < n"
  shows "admit_candidates now q e ttl n cs alive r =
    (let seen = scan_alive (beating now e r) (n - length alive) cs
     in (alive @ filter (beating now e r) seen, fold (settle now q e ttl) seen r))"
  using assms
proof (induction cs arbitrary: alive r)
  case Nil
  then obtain k where "n - length alive = Suc k" by (metis Suc_diff_Suc)
  then show ?case by simp
next
  case (Cons u cs)
  obtain k where k: "n - length alive = Suc k" using Cons.prems(2) by (metis Suc_diff_Suc)
  let ?r = "settle now q e ttl u r"
  have same: "beating now e ?r v = beating now e r v" if "v \<in> set cs" for v
    by (rule settle_beating) (use Cons.prems(1) that in auto)
  have scan: "scan_alive (beating now e ?r) m cs = scan_alive (beating now e r) m cs" for m
    by (rule scan_alive_cong) (simp add: same)
  have filt: "filter (beating now e ?r) (scan_alive (beating now e r) m cs)
      = filter (beating now e r) (scan_alive (beating now e r) m cs)" for m
    by (rule filter_cong [OF refl]) (use same scan_alive_set in blast)
  show ?case
  proof (cases "beating now e r u")
    case False
    then show ?thesis
      using Cons.IH [of alive ?r] Cons.prems k by (simp add: admit_candidates_step Let_def scan filt)
  next
    case True
    show ?thesis
    proof (cases k)
      case 0
      then have "n \<le> Suc (length alive)" using k by simp
      then show ?thesis using True k 0 by (simp add: admit_candidates_step)
    next
      case (Suc j)
      then have n: "\<not> n \<le> Suc (length alive)" "n - Suc (length alive) = k" using k by auto
      then show ?thesis
        using True k Cons.IH [of "alive @ [u]" ?r] Cons.prems(1)
        by (simp add: admit_candidates_step Let_def scan filt)
    qed
  qed
qed

lemma admit_loop_reference:
  assumes "distinct (waiting q r)" and "0 < b" and "length alive \<le> n"
  shows "admit_loop now q e ttl n b alive r =
    (let seen = scan_alive (beating now e r) (n - length alive) (waiting q r)
     in (alive @ filter (beating now e r) seen, fold (settle now q e ttl) seen r))"
  using assms
proof (induction now q e ttl n b alive r rule: admit_loop.induct)
  case (1 now q e ttl n b alive r)
  let ?P = "beating now e r" and ?w = "waiting q r" and ?k = "n - length alive"
  show ?case
  proof (cases "length alive < n")
    case False
    then show ?thesis using "1.prems"(3) by (simp add: admit_loop.simps [of now q e ttl n b alive r])
  next
    case more: True
    then obtain m where m: "?k = Suc m" by (metis Suc_diff_Suc)
    show ?thesis
    proof (cases "rzrange q b r")
      case Nil
      then have "?w = []" using "1.prems"(2) by (simp add: rzrange_def)
      then show ?thesis using more Nil m by (simp add: admit_loop.simps [of now q e ttl n b alive r])
    next
      case (Cons u cs)
      let ?s = "scan_alive ?P ?k (u # cs)"
      let ?alive = "alive @ filter ?P ?s" and ?r = "fold (settle now q e ttl) ?s r"
      have split: "?w = (u # cs) @ drop b ?w" using Cons unfolding rzrange_def by (metis append_take_drop_id)
      have dist: "distinct ((u # cs) @ drop b ?w)" using "1.prems"(1) split by metis
      have step: "admit_candidates now q e ttl n (u # cs) alive r = (?alive, ?r)"
        using admit_candidates_reference [of "u # cs" alive n now q e ttl r] dist more by (simp add: Let_def)
      have unfold: "admit_loop now q e ttl n b alive r = admit_loop now q e ttl n b ?alive ?r"
        using more Cons step by (simp add: admit_loop.simps [of now q e ttl n b alive r])
      have got: "filter ?P ?s = take ?k (filter ?P (u # cs))" by (rule scan_alive_filter)
      have le: "length ?alive \<le> n" using more unfolding got length_append length_take by linarith
      have dist': "distinct (waiting q ?r)" unfolding fold_settle_waiting using "1.prems"(1) by simp
      note IH = "1.IH" [OF more Cons step [symmetric] refl dist' "1.prems"(2) le]
      show ?thesis
      proof (cases "?k \<le> length (filter ?P (u # cs))")
        case True
        then have full: "n - length ?alive = 0" unfolding got by simp
        have "scan_alive ?P ?k ?w = ?s" by (subst split) (rule scan_alive_enough [OF True])
        then show ?thesis unfolding unfold IH full by (simp add: Let_def)
      next
        case False
        then have s: "?s = u # cs" by (intro scan_alive_all) simp
        have rest: "waiting q ?r = drop b ?w"
          unfolding fold_settle_waiting s by (subst split) (use dist in \<open>auto simp: filter_empty_conv intro!: filter_True\<close>)
        have same: "beating now e ?r v = ?P v" if "v \<in> set (drop b ?w)" for v
          by (rule fold_settle_beating) (use dist that s in auto)
        have left: "n - length ?alive = ?k - length (filter ?P (u # cs))" using False s by simp
        let ?t = "scan_alive ?P (?k - length (filter ?P (u # cs))) (drop b ?w)"
        have "scan_alive (beating now e ?r) (n - length ?alive) (waiting q ?r) = ?t"
          unfolding rest left by (rule scan_alive_cong) (rule same)
        moreover have "filter (beating now e ?r) ?t = filter ?P ?t"
          by (rule filter_cong [OF refl]) (use same scan_alive_set in blast)
        moreover have "scan_alive ?P ?k ?w = ?s @ ?t" by (subst split) (rule scan_alive_append)
        ultimately show ?thesis unfolding unfold IH by (simp add: Let_def)
      qed
    qed
  qed
qed

lemma tryWhitelist_reference:
  assumes "distinct (waiting (getEventVirtualQueueKey e) r)"
  shows "tryWhitelistEventQueueLuaScript now (getEventVirtualQueueKey e) (getEventWhitelisKey e)
      (getEventMaxConcurrentKey e) e desiredCount maxConcurrency ttl r
    = admission_reference now e desiredCount maxConcurrency ttl r"
proof -
  let ?cap = "effective_cap now e maxConcurrency r" and ?h = "rhlen (getEventWhitelisKey e) r"
  have cap: "(case rget now (getEventMaxConcurrentKey e) r of Some (RNum n) \<Rightarrow> n | _ \<Rightarrow> maxConcurrency) = ?cap"
    by (simp add: effective_cap_def)
  show ?thesis
  proof (cases "int ?cap - int ?h \<le> 0")
    case True
    then show ?thesis by (simp add: tryWhitelistEventQueueLuaScript_def admission_reference_def cap Let_def)
  next
    case False
    let ?k = "min desiredCount (?cap - ?h)"
    have k: "(if int ?cap - int ?h < int desiredCount then nat (int ?cap - int ?h) else desiredCount) = ?k"
      using False by (simp add: min_def nat_diff_distrib') (intro conjI impI; linarith)
    show ?thesis
    proof (cases "?k = 0")
      case True
      then show ?thesis using False k
        by (simp add: tryWhitelistEventQueueLuaScript_def admission_reference_def cap Let_def
            admit_loop.simps [of _ _ _ _ 0])
    next
      case pos: False
      let ?seen = "scan_alive (beating now e r) ?k (waiting (getEventVirtualQueueKey e) r)"
      have "admit_loop now (getEventVirtualQueueKey e) e ttl ?k (?k * 2) [] r =
        (filter (beating now e r) ?seen, fold (settle now (getEventVirtualQueueKey e) e ttl) ?seen r)"
        using admit_loop_reference [OF assms, of "?k * 2" "[]" ?k now e ttl] pos by (simp add: Let_def)
      then show ?thesis using False
        unfolding tryWhitelistEventQueueLuaScript_def admission_reference_def cap Let_def k by simp
    qed
  qed
qed

section \<open>What admission changes\<close>

abbreviation slot :: "int \<Rightarrow> string \<Rightarrow> string \<Rightarrow> cache \<Rightarrow> (string \<times> int option) option" where
  "slot now e u r \<equiv> hfind now u (r_hashes r (getEventWhitelisKey e))"

lemma hwithout_idem [simp]: "hwithout f (hwithout f h) = hwithout f h"
  by (simp add: hwithout_def)

lemma rhset_hashes: "r_hashes (rhset k f v r) = (r_hashes r)(k := (f, v, None) # hwithout f (r_hashes r k))"
  by (simp add: rhset_def)

lemma rhexpire_rhset:
  "r_hashes (rhexpire now ttl k f (rhset k f v r)) = (r_hashes r)(k :=
     (if ttl = 0 then hwithout f (r_hashes r k) else (f, v, Some (now + 1000 * int ttl)) # hwithout f (r_hashes r k)))"
proof -
  have "hfind now f (r_hashes (rhset k f v r) k) = Some (v, None)" by (simp add: rhset_hashes hfind_Cons)
  moreover have "hwithout f (r_hashes (rhset k f v r) k) = hwithout f (r_hashes r k)"
    by (simp add: rhset_hashes) (simp add: hwithout_def)
  ultimately show ?thesis by (simp add: rhexpire_def rhset_hashes)
qed

lemma settle_hash:
  assumes "0 < ttl"
  shows "r_hashes (settle now q e ttl u r) =
    (if beating now e r u
     then (r_hashes r)(getEventWhitelisKey e :=
            (u, ''1'', Some (now + 1000 * int ttl)) # hwithout u (r_hashes r (getEventWhitelisKey e)))
     else r_hashes r)"
  using assms by (simp add: settle_def rhexpire_rhset)

lemma settle_slot:
  assumes "0 < ttl"
  shows "slot t e v (settle now q e ttl u r) =
    (if v = u \<and> beating now e r u
     then (if t < now + 1000 * int ttl then Some (''1'', Some (now + 1000 * int ttl)) else None)
     else slot t e v r)"
  using assms by (simp add: settle_hash hfind_Cons hfind_hwithout)

lemma settle_rhlen:
  "rhlen k (settle now q e ttl u r) \<le> rhlen k r + (if beating now e r u then 1 else 0)"
  using length_hwithout_le [of u "r_hashes r k"]
  by (simp add: settle_def rhlen_def rhexpire_rhset) (auto simp: rzrem_def le_SucI)

lemma settle_strs: "v \<noteq> getUserHeartbeatKey e u \<Longrightarrow> r_strs (settle now q e ttl u r) v = r_strs r v"
  by (simp add: settle_def) (simp add: rdel_def)

lemma fold_settle_slot:
  assumes "0 < ttl" and "distinct s"
  shows "slot t e v (fold (settle now q e ttl) s r) =
    (if v \<in> set s \<and> beating now e r v
     then (if t < now + 1000 * int ttl then Some (''1'', Some (now + 1000 * int ttl)) else None)
     else slot t e v r)"
  using assms(2)
proof (induction s arbitrary: r)
  case (Cons u s)
  then show ?case
    by (cases "v = u") (auto simp: settle_slot [OF assms(1)] settle_beating)
qed simp

lemma fold_settle_rhlen:
  assumes "distinct s"
  shows "rhlen k (fold (settle now q e ttl) s r) \<le> rhlen k r + length (filter (beating now e r) s)"
  using assms
proof (induction s arbitrary: r)
  case (Cons u s)
  have "filter (beating now e (settle now q e ttl u r)) s = filter (beating now e r) s"
    by (rule filter_cong [OF refl], rule settle_beating) (use Cons.prems in auto)
  then show ?case
    using Cons.IH [of "settle now q e ttl u r"] Cons.prems settle_rhlen [of k now q e ttl u r] by (auto split: if_splits)
qed simp

lemma fold_settle_admitted_beat:
  "distinct s \<Longrightarrow> v \<in> set s \<Longrightarrow> \<not> beating now e (fold (settle now q e ttl) s r) v"
proof (induction s arbitrary: r)
  case (Cons u s)
  show ?case
  proof (cases "v \<in> set s")
    case True
    then show ?thesis using Cons by simp
  next
    case False
    then have "v = u" using Cons.prems by simp
    then have "\<not> beating now e (settle now q e ttl u r) v" by (simp add: settle_def)
    then show ?thesis using False by (simp add: fold_settle_beating)
  qed
qed simp

lemma fold_settle_strs:
  "v \<notin> getUserHeartbeatKey e ` set s \<Longrightarrow> r_strs (fold (settle now q e ttl) s r) v = r_strs r v"
  by (induction s arbitrary: r) (auto simp: settle_strs)

lemma fold_settle_zsets_other: "k \<noteq> q \<Longrightarrow> r_zsets (fold (settle now q e ttl) s r) k = r_zsets r k"
  by (induction s arbitrary: r) auto

lemma fold_settle_zset: "r_zsets (fold (settle now q e ttl) s r) q = filter (\<lambda>p. snd p \<notin> set s) (r_zsets r q)"
  by (induction s arbitrary: r) (auto simp: zwithout_def filter_filter conj_commute intro: filter_cong)

lemma settle_hash_other:
  "k \<noteq> getEventWhitelisKey e \<Longrightarrow> r_hashes (settle now q e ttl u r) k = r_hashes r k"
  by (simp add: settle_def rhexpire_rhset)

lemma fold_settle_hash_other:
  "k \<noteq> getEventWhitelisKey e \<Longrightarrow> r_hashes (fold (settle now q e ttl) s r) k = r_hashes r k"
  by (induction s arbitrary: r) (auto simp: settle_hash_other)

section \<open>The admission gate as a state machine\<close>

text \<open>
  Every atomic step that the program takes on the queue keys, by any client, for any event and
  in any order, together with the passage of time and the server's removal of expired
  entries. \<open>cap\<close> bounds the configured maximum and every override that is set.
\<close>

inductive vq_step :: "nat \<Rightarrow> int \<times> cache \<Rightarrow> int \<times> cache \<Rightarrow> bool" for cap :: nat where
  tick: "now \<le> now' \<Longrightarrow> vq_step cap (now, r) (now', r)"
| expire: "vq_step cap (now, r) (now, reap now r)"
| enqueue: "uuid_text u \<Longrightarrow> vq_step cap (now, r) (now, fst (vqEnqueue repo flt wall now e u r))"
| dequeue: "uuid_text u \<Longrightarrow> vq_step cap (now, r) (now, fst (vqDequeue x now e u r))"
| ping: "uuid_text u \<Longrightarrow> vq_step cap (now, r) (now, fst (vqPing repo x now e u r))"
| admit: "unat (vq_maxConcurrentQueue repo) \<le> cap \<Longrightarrow>
    vq_step cap (now, r) (now, fst (vqTryWhitelistEventQueue repo x now e n r))"
| give_up: "vq_step cap (now, r) (now, fst (vqDeleteWhitelistedUserTTL x now e u r))"
| set_cap: "unat n \<le> cap \<Longrightarrow> vq_step cap (now, r) (now, fst (vqSetEventMaxConcurrent x e n r))"
| clear_cap: "vq_step cap (now, r) (now, fst (vqClearEventMaxConcurrent x now e r))"
| track: "vq_step cap (now, r) (now, fst (TrackActiveEvent x e r))"
| untrack: "vq_step cap (now, r) (now, fst (UntrackIdleEvent x e r))"

definition cap_at_most :: "nat \<Rightarrow> string \<Rightarrow> cache \<Rightarrow> bool" where
  "cap_at_most cap e r \<longleftrightarrow>
     (case r_strs r (getEventMaxConcurrentKey e) of Some (RNum n, _) \<Rightarrow> n \<le> cap | _ \<Rightarrow> True)"

definition gate_inv :: "nat \<Rightarrow> int \<times> cache \<Rightarrow> bool" where
  "gate_inv cap s \<longleftrightarrow>
     (\<forall>e. rhlen (getEventWhitelisKey e) (snd s) \<le> cap \<and> cap_at_most cap e (snd s)
          \<and> zset_ok (r_zsets (snd s) (getEventVirtualQueueKey e))
          \<and> list_all uuid_text (waiting (getEventVirtualQueueKey e) (snd s)))"

lemma gate_invD:
  assumes "gate_inv cap (now, r)"
  shows "rhlen (getEventWhitelisKey e) r \<le> cap" "cap_at_most cap e r" "zset_ok (r_zsets r (getEventVirtualQueueKey e))"
    "list_all uuid_text (waiting (getEventVirtualQueueKey e) r)"
  using assms by (auto simp: gate_inv_def)

text \<open>
  A step that keeps the override, gives no slot away and treats the lines well keeps the gate.
\<close>

lemma gate_invI:
  assumes "gate_inv cap (now, r)"
    and "\<And>e. rhlen (getEventWhitelisKey e) r' \<le> rhlen (getEventWhitelisKey e) r"
    and "\<And>e. cap_at_most cap e r'"
    and "\<And>e. zset_ok (r_zsets r' (getEventVirtualQueueKey e)) \<and>
      list_all uuid_text (waiting (getEventVirtualQueueKey e) r')"
  shows "gate_inv cap (now', r')"
  unfolding gate_inv_def snd_conv using order_trans [OF assms(2) gate_invD(1) [OF assms(1)]] assms(3,4) by blast

lemma effective_cap_le:
  assumes "cap_at_most cap e r" and "m \<le> cap"
  shows "effective_cap now e m r \<le> cap"
  using assms by (auto simp: effective_cap_def cap_at_most_def rget_def split: option.splits prod.splits if_splits rstr.splits)

lemma rhlen_frame [simp]:
  "rhlen k (rset d s v r) = rhlen k r" "rhlen k (fst (rzadd z sc m r)) = rhlen k r"
  "rhlen k (fst (rzrem z m r)) = rhlen k r" "rhlen k (rzremrangebyscore z sc r) = rhlen k r"
  "rhlen k (fst (rdel now s r)) = rhlen k r" "rhlen k (fst (rexpire now n s r)) = rhlen k r"
  "rhlen k (fst (rsadd st m r)) = rhlen k r" "rhlen k (fst (rsrem st m r)) = rhlen k r"
  by (simp_all add: rhlen_def)

lemma cap_at_most_cong: "r_strs r (getEventMaxConcurrentKey e) = r_strs r' (getEventMaxConcurrentKey e) \<Longrightarrow>
  cap_at_most cap e r = cap_at_most cap e r'"
  by (simp add: cap_at_most_def)

lemma rset_other: "k \<noteq> k' \<Longrightarrow> r_strs (rset d k v r) k' = r_strs r k'"
  by (simp add: rset_def)

lemma rdel_other: "k \<noteq> k' \<Longrightarrow> r_strs (fst (rdel now k r)) k' = r_strs r k'"
  by (simp add: rdel_def)

lemma rexpire_other: "k \<noteq> k' \<Longrightarrow> r_strs (fst (rexpire now n k r)) k' = r_strs r k'"
  by (simp add: rexpire_def rset_def split: option.splits)

text \<open>A change of one string key other than an override, or of the set of tracked events, keeps the gate.\<close>

lemma gate_strs:
  assumes inv: "gate_inv cap (now, r)"
    and "r_zsets r' = r_zsets r" and "r_hashes r' = r_hashes r"
    and "\<And>e. r_strs r' (getEventMaxConcurrentKey e) = r_strs r (getEventMaxConcurrentKey e)"
  shows "gate_inv cap (now', r')"
  by (rule gate_invI [OF inv])
     (use assms gate_invD [OF inv] cap_at_most_cong [of r' _ r] in \<open>auto simp: rhlen_def\<close>)

text \<open>A change of the line of one event keeps the gate when the line stays well-formed.\<close>

lemma gate_line:
  assumes inv: "gate_inv cap (now, r)"
    and "r_strs r' = r_strs r" and "r_hashes r' = r_hashes r" and "r_zsets r' = (r_zsets r)(q := z)"
    and "zset_ok z" and "list_all uuid_text (zmembers z)"
  shows "gate_inv cap (now', r')"
  by (rule gate_invI [OF inv])
     (use assms gate_invD [OF inv] cap_at_most_cong [of r' _ r] in \<open>auto simp: rhlen_def\<close>)

lemma line_filter:
  "list_all uuid_text (zmembers z) \<Longrightarrow> list_all uuid_text (zmembers (filter P z))"
  by (auto simp: list_all_iff)

lemma gate_zremrange:
  assumes "gate_inv cap (now, r)"
  shows "gate_inv cap (now, rzremrangebyscore (getEventVirtualQueueKey e) sc r)"
  by (rule gate_line [OF assms _ _ _ zset_ok_filter line_filter])
     (simp_all add: rzremrangebyscore_def, rule gate_invD(3) [OF assms], rule gate_invD(4) [OF assms])

lemma gate_zrem:
  assumes "gate_inv cap (now, r)"
  shows "gate_inv cap (now, fst (rzrem (getEventVirtualQueueKey e) u r))"
  by (rule gate_line [OF assms _ _ _ zset_ok_filter line_filter])
     (simp_all add: rzrem_def zwithout_def, rule gate_invD(3) [OF assms], rule gate_invD(4) [OF assms])

lemma gate_zadd:
  assumes "gate_inv cap (now, r)" and "uuid_text u"
  shows "gate_inv cap (now, fst (rzadd (getEventVirtualQueueKey e) sc u r))"
proof (rule gate_line [OF assms(1) _ _ _ zset_ok_zadd])
  show "r_zsets (fst (rzadd (getEventVirtualQueueKey e) sc u r)) = (r_zsets r)(getEventVirtualQueueKey e :=
      zinsert (sc, u) (zwithout u (r_zsets r (getEventVirtualQueueKey e))))"
    by (simp add: rzadd_def)
  show "list_all uuid_text (zmembers (zinsert (sc, u) (zwithout u (r_zsets r (getEventVirtualQueueKey e)))))"
    using assms(2) gate_invD(4) [OF assms(1), of e] by (auto simp: list_all_iff zwithout_def)
qed (simp_all add: gate_invD(3) [OF assms(1), of e])

lemma gate_heartbeat:
  assumes "gate_inv cap (now, r)" and "uuid_text u"
  shows "gate_inv cap (now, rset d (getUserHeartbeatKey e u) v r)"
    and "gate_inv cap (now, fst (rdel t (getUserHeartbeatKey e u) r))"
    and "gate_inv cap (now, fst (rexpire t n (getUserHeartbeatKey e u) r))"
  by (rule gate_strs [OF assms(1)];
      simp add: rset_other rdel_other rexpire_other heartbeat_key_not_cap [OF assms(2)])+

lemma gate_hdel:
  assumes "gate_inv cap (now, r)"
  shows "gate_inv cap (now, fst (rhdel t k u r))"
proof (rule gate_invI [OF assms])
  show "rhlen (getEventWhitelisKey e) (fst (rhdel t k u r)) \<le> rhlen (getEventWhitelisKey e) r" for e
    using length_hwithout_le by (simp add: rhlen_def rhdel_def)
  show "cap_at_most cap e (fst (rhdel t k u r))" for e
    using gate_invD(2) [OF assms, of e] by (simp add: cap_at_most_def)
qed (use gate_invD(3,4) [OF assms] in simp)

lemma gate_sets:
  assumes "gate_inv cap (now, r)"
  shows "gate_inv cap (now, fst (rsadd k m r))" "gate_inv cap (now, fst (rsrem k m r))"
  by (rule gate_strs [OF assms]; simp)+

lemma gate_enqueue_script:
  assumes "gate_inv cap (now, r)" and "uuid_text u"
  shows "gate_inv cap (now, fst (enqueueLuaScript now (getEventVirtualQueueKey e) (getUserHeartbeatKey e u) ct ea u ttl r))"
  using gate_zremrange [OF assms(1), of e ct] assms(2)
  by (auto simp: enqueueLuaScript_def Let_def rset_nx_def split: prod.splits intro: gate_heartbeat)
     (metis fst_conv gate_heartbeat(1) gate_zadd)

lemma gate_admission_reference:
  assumes inv: "gate_inv cap (now, r)" and m: "m \<le> cap"
  shows "gate_inv cap (now, fst (admission_reference now e n m ttl r))"
proof -
  let ?q = "getEventVirtualQueueKey e" and ?w = "getEventWhitelisKey e"
  let ?k = "min n (effective_cap now e m r - rhlen ?w r)"
  let ?s = "scan_alive (beating now e r) ?k (waiting ?q r)"
  let ?r = "fold (settle now ?q e ttl) ?s r"
  have line: "zset_ok (r_zsets r ?q)" "list_all uuid_text (waiting ?q r)" using gate_invD(3,4) [OF inv] by auto
  then have dist: "distinct (waiting ?q r)" by (simp add: zset_ok_def)
  have "distinct ?s" by (subst scan_alive_prefix) (rule distinct_take [OF dist])
  then have "rhlen ?w ?r \<le> rhlen ?w r + length (filter (beating now e r) ?s)" by (rule fold_settle_rhlen)
  also have "\<dots> \<le> rhlen ?w r + ?k" unfolding scan_alive_filter length_take by (rule add_left_mono) (rule min.cobounded2)
  also have "\<dots> \<le> cap"
    using gate_invD(1) [OF inv, of e] effective_cap_le [OF gate_invD(2) [OF inv, of e] m, of now] by linarith
  finally have len: "rhlen ?w ?r \<le> cap" .
  have uuids: "u \<in> set ?s \<Longrightarrow> uuid_text u" for u
    using line(2) scan_alive_set by (fastforce simp: list_all_iff)
  have "rhlen (getEventWhitelisKey e') ?r \<le> cap" for e'
    using len gate_invD(1) [OF inv, of e'] fold_settle_hash_other [of "getEventWhitelisKey e'" e now ?q ttl ?s r]
    by (cases "e' = e") (simp_all add: rhlen_def event_keys_inj)
  moreover have "r_strs ?r (getEventMaxConcurrentKey e') = r_strs r (getEventMaxConcurrentKey e')" for e'
    by (rule fold_settle_strs) (auto dest: uuids heartbeat_key_not_cap [THEN not_sym])
  then have "cap_at_most cap e' ?r" for e'
    using cap_at_most_cong gate_invD(2) [OF inv, of e'] by blast
  moreover have "zset_ok (r_zsets ?r (getEventVirtualQueueKey e')) \<and> list_all uuid_text (waiting (getEventVirtualQueueKey e') ?r)" for e'
    using gate_invD(3,4) [OF inv, of e']
    by (cases "e' = e") (simp_all add: fold_settle_zset fold_settle_zsets_other event_keys_inj zset_ok_filter line_filter)
  ultimately show ?thesis by (simp add: gate_inv_def admission_reference_def Let_def)
qed

lemma gate_reap:
  assumes "gate_inv cap (now, r)"
  shows "gate_inv cap (now, reap t r)"
proof (rule gate_invI [OF assms])
  show "rhlen (getEventWhitelisKey e) (reap t r) \<le> rhlen (getEventWhitelisKey e) r" for e
    by (simp add: rhlen_def reap_def)
  show "cap_at_most cap e (reap t r)" for e
    using gate_invD(2) [OF assms, of e] by (auto simp: cap_at_most_def reap_def split: option.splits)
qed (use gate_invD(3,4) [OF assms] in \<open>simp add: reap_def\<close>)

lemma gate_dequeue_script:
  assumes "gate_inv cap (now, r)" and "uuid_text u"
  shows "gate_inv cap (now, fst (dequeueLuaScript now (getEventVirtualQueueKey e) (getEventWhitelisKey e) (getUserHeartbeatKey e u) u r))"
  using gate_heartbeat(2) [OF gate_zrem [OF gate_hdel [OF assms(1)]] assms(2)]
  by (simp add: dequeueLuaScript_def Let_def split_beta)

lemma gate_ping_script:
  assumes "gate_inv cap (now, r)" and "uuid_text u"
  shows "gate_inv cap (now, fst (pingLuaScript now (getEventWhitelisKey e) (getUserHeartbeatKey e u) u ttl r))"
  using gate_heartbeat(3) [OF assms] assms(1)
  by (simp add: pingLuaScript_def Let_def split_beta split: list.splits)

lemma gate_admission:
  assumes "gate_inv cap (now, r)" and "m \<le> cap"
  shows "gate_inv cap (now, fst (tryWhitelistEventQueueLuaScript now (getEventVirtualQueueKey e) (getEventWhitelisKey e)
      (getEventMaxConcurrentKey e) e n m ttl r))"
  using gate_admission_reference [OF assms] gate_invD(3) [OF assms(1), of e]
  by (simp add: tryWhitelist_reference zset_ok_def)

lemma gate_set_cap:
  assumes inv: "gate_inv cap (now, r)" and "n \<le> cap"
  shows "gate_inv cap (now, rset None (getEventMaxConcurrentKey e) (RNum n) r)"
proof (rule gate_invI [OF inv])
  show "cap_at_most cap e' (rset None (getEventMaxConcurrentKey e) (RNum n) r)" for e'
    using assms(2) gate_invD(2) [OF inv, of e'] by (simp add: cap_at_most_def rset_def)
qed (use gate_invD(3,4) [OF inv] in auto)

lemma gate_clear_cap:
  assumes inv: "gate_inv cap (now, r)"
  shows "gate_inv cap (now, fst (rdel t (getEventMaxConcurrentKey e) r))"
proof (rule gate_invI [OF inv])
  show "cap_at_most cap e' (fst (rdel t (getEventMaxConcurrentKey e) r))" for e'
    using gate_invD(2) [OF inv, of e'] by (simp add: cap_at_most_def rdel_def)
qed (use gate_invD(3,4) [OF inv] in auto)

text \<open>The repository's operations leave what their script, or none of it, left.\<close>

lemma fst_case_result:
  "fst (case y of (r, Inl e) \<Rightarrow> (r, Inl e) | (r, Inr v) \<Rightarrow> (r, g r v)) = fst y"
  by (simp split: prod.splits sum.splits)

lemma vqDequeue_state: "fst (vqDequeue x now e u r) = fst (io_call x (dequeueLuaScript now (getEventVirtualQueueKey e)
    (getEventWhitelisKey e) (getUserHeartbeatKey e u) u) r)"
  by (simp add: vqDequeue_def split: prod.splits sum.splits list.splits)

lemma vqPing_state: "fst (vqPing repo x now e u r) = fst (io_call x (pingLuaScript now (getEventWhitelisKey e)
    (getUserHeartbeatKey e u) u (Seconds (vq_HeartbeatTTL repo))) r)"
  unfolding vqPing_def by (rule fst_case_result)

lemma vqTryWhitelist_state: "fst (vqTryWhitelistEventQueue repo x now e n r) =
  fst (io_call x (tryWhitelistEventQueueLuaScript now (getEventVirtualQueueKey e) (getEventWhitelisKey e)
    (getEventMaxConcurrentKey e) e (unat n) (unat (vq_maxConcurrentQueue repo)) (Seconds (vq_WhitelistTTL repo))) r)"
  unfolding vqTryWhitelistEventQueue_def by (rule fst_case_result)

lemma vqDeleteWhitelisted_state:
  "fst (vqDeleteWhitelistedUserTTL x now e u r) = fst (io_call x (rhdel now (getEventWhitelisKey e) u) r)"
  unfolding vqDeleteWhitelistedUserTTL_def by (rule fst_case_result)

lemma UntrackIdleEvent_state:
  "fst (UntrackIdleEvent x e r) =
   fst (io_call x (untrackIdleEventLuaScript (getEventVirtualQueueKey e) getActiveEventsKey e) r)"
  unfolding UntrackIdleEvent_def by (rule fst_case_result)

lemma vqEnqueue_state:
  obtains (script) "fst (vqEnqueue repo flt wall now e u r) =
      fst (io_call (flt EQ_Script) (enqueueLuaScript now (getEventVirtualQueueKey e) (getUserHeartbeatKey e u)
        (Unix wall) (Unix (wall + vq_QueueTTL repo)) u (Seconds (vq_HeartbeatTTL repo))) r)"
  | (tracked) "fst (vqEnqueue repo flt wall now e u r) = fst (TrackActiveEvent (flt EQ_Track) e
      (fst (io_call (flt EQ_Script) (enqueueLuaScript now (getEventVirtualQueueKey e) (getUserHeartbeatKey e u)
        (Unix wall) (Unix (wall + vq_QueueTTL repo)) u (Seconds (vq_HeartbeatTTL repo))) r)))"
proof -
  obtain r1 v where y: "io_call (flt EQ_Script) (enqueueLuaScript now (getEventVirtualQueueKey e) (getUserHeartbeatKey e u)
      (Unix wall) (Unix (wall + vq_QueueTTL repo)) u (Seconds (vq_HeartbeatTTL repo))) r = (r1, v)"
    by (rule prod.exhaust)
  show thesis
  proof (cases "\<exists>n. v = Inr (Inr n)")
    case True
    then show thesis by (intro that(2)) (auto simp: vqEnqueue_def y Let_def)
  next
    case False
    then show thesis by (intro that(1)) (auto simp: vqEnqueue_def y split: sum.splits)
  qed
qed

lemma vq_step_inv: "vq_step cap s s' \<Longrightarrow> gate_inv cap s \<Longrightarrow> gate_inv cap s'"
proof (induction rule: vq_step.induct)
  case (tick now now' r)
  then show ?case by (simp add: gate_inv_def)
next
  case (expire now r)
  then show ?case by (rule gate_reap)
next
  case (enqueue u now r repo flt wall e)
  then have scr: "gate_inv cap (now, fst (io_call (flt EQ_Script) (enqueueLuaScript now (getEventVirtualQueueKey e)
      (getUserHeartbeatKey e u) (Unix wall) (Unix (wall + vq_QueueTTL repo)) u (Seconds (vq_HeartbeatTTL repo))) r))"
    by (intro io_call_inv [where P = "\<lambda>r. gate_inv cap (now, r)"] gate_enqueue_script)
  then show ?case
    by (cases rule: vqEnqueue_state [of repo flt wall now e u r])
       (auto simp: TrackActiveEvent_def intro: io_call_inv [where P = "\<lambda>r. gate_inv cap (now, r)"] gate_sets)
next
  case (admit repo now r x e n)
  then show ?case
    unfolding vqTryWhitelist_state by (intro io_call_inv [where P = "\<lambda>r. gate_inv cap (now, r)"] gate_admission)
next
  case (untrack now r x e)
  then show ?case
    unfolding UntrackIdleEvent_state
    by (intro io_call_inv [where P = "\<lambda>r. gate_inv cap (now, r)"]) (simp_all add: untrackIdleEventLuaScript_def gate_sets)
next
  case (set_cap n now r x e)
  then show ?case
    unfolding vqSetEventMaxConcurrent_def
    by (intro io_call_inv [where P = "\<lambda>r. gate_inv cap (now, r)"]) (simp_all add: gate_set_cap)
qed (auto simp: vqDequeue_state vqPing_state vqDeleteWhitelisted_state vqClearEventMaxConcurrent_def TrackActiveEvent_def
      intro!: io_call_inv [where P = "\<lambda>r. gate_inv cap (now, r)" for now] intro: gate_dequeue_script gate_ping_script gate_hdel
        gate_clear_cap gate_sets)

lemma gate_inv_empty: "gate_inv cap (now, empty_redis)"
  by (simp add: gate_inv_def empty_redis_def rhlen_def cap_at_most_def zset_ok_def zsorted_def)

interpretation gate: inductive_invariant "\<lambda>s. snd s = empty_redis" "vq_step cap" "gate_inv cap" for cap
  by unfold_locales (auto intro: gate_inv_empty vq_step_inv)

section \<open>Outcome of one admission\<close>

lemma waiting_after_scan:
  assumes "distinct ws"
  shows "filter (\<lambda>u. u \<notin> set (scan_alive P k ws)) ws = drop (length (scan_alive P k ws)) ws"
proof -
  let ?m = "length (scan_alive P k ws)"
  have set_s: "set (scan_alive P k ws) = set (take ?m ws)" using scan_alive_prefix [of P k ws] by metis
  have "filter (\<lambda>u. u \<notin> set (take ?m ws)) (take ?m ws @ drop ?m ws) = drop ?m ws"
    using assms unfolding filter_append by (simp add: filter_empty_conv filter_id_conv)
       (metis IntI append_take_drop_id distinct_append empty_iff)
  then show ?thesis by (simp add: set_s)
qed

lemma alive_left_waiting:
  assumes "distinct ws"
  shows "length (filter P (drop (length (scan_alive P k ws)) ws)) = length (filter P ws) - k"
proof -
  let ?m = "length (scan_alive P k ws)"
  have "filter P (take ?m ws) = take k (filter P ws)"
    using scan_alive_filter [of P k ws] scan_alive_prefix [of P k ws] by metis
  moreover have "filter P ws = filter P (take ?m ws) @ filter P (drop ?m ws)"
    by (metis append_take_drop_id filter_append)
  ultimately show ?thesis by (metis append_eq_conv_conj append_take_drop_id length_drop same_append_eq)
qed

lemma GetEventMaxConcurrent_effective:
  assumes "effective_cap now e (unat fb) r < 2 ^ 63"
  shows "\<exists>w. vqGetEventMaxConcurrent Done now e fb r = Inr w \<and> sint w = int (effective_cap now e (unat fb) r)"
proof -
  have small: "sint w = int (unat w)" if "unat w < 2 ^ 63" for w :: u64
  proof -
    have "uint w < 2 ^ 63" using that by (metis of_nat_less_iff of_nat_numeral of_nat_power of_nat_unat)
    then have "signed_take_bit 63 (uint w) = uint w" by (intro signed_take_bit_int_eq_self) (auto intro: order_trans [OF _ uint_ge_0])
    then show ?thesis by (simp add: sint_uint)
  qed
  have "\<exists>w. vqGetEventMaxConcurrent Done now e fb r = Inr w \<and> unat w = effective_cap now e (unat fb) r"
    using assms
    by (simp add: vqGetEventMaxConcurrent_def effective_cap_def unat_of_nat split: option.splits rstr.splits)
  then show ?thesis using small assms by metis
qed

lemma vqTryWhitelist_waiting:
  assumes line: "distinct (waiting (getEventVirtualQueueKey e) r)"
    and k: "k = min (unat n) (effective_cap now e (unat (vq_maxConcurrentQueue repo)) r - rhlen (getEventWhitelisKey e) r)"
  shows "length (filter (beating now e r) (waiting (getEventVirtualQueueKey e) (fst (vqTryWhitelistEventQueue repo Done now e n r))))
    = length (filter (beating now e r) (waiting (getEventVirtualQueueKey e) r)) - k"
proof -
  let ?q = "getEventVirtualQueueKey e" and ?s = "scan_alive (beating now e r) k (waiting (getEventVirtualQueueKey e) r)"
  have "fst (vqTryWhitelistEventQueue repo Done now e n r) =
      fold (settle now ?q e (Seconds (vq_WhitelistTTL repo))) ?s r"
    unfolding vqTryWhitelist_state k by (simp add: tryWhitelist_reference [OF line] admission_reference_def Let_def)
  then have "waiting ?q (fst (vqTryWhitelistEventQueue repo Done now e n r)) = drop (length ?s) (waiting ?q r)"
    by (simp only: fold_settle_waiting waiting_after_scan [OF line])
  then show ?thesis by (simp only: alive_left_waiting [OF line])
qed

lemma Seconds_pos: "Second \<le> d \<Longrightarrow> 0 < Seconds d"
  using zdiv_mono1 [of Second d Second] by (simp add: Seconds_def)

lemma vqPing_eq:
  "vqPing repo Done now e u r =
     (case slot now e u r of
        Some (_, Some d) \<Rightarrow> (r, Inr ((d - now + 999) div 1000 * Second, True))
      | _ \<Rightarrow>
        (case rget now (getUserHeartbeatKey e u) r of
           Some v \<Rightarrow> (rset (Some (now + 1000 * int (Seconds (vq_HeartbeatTTL repo)))) (getUserHeartbeatKey e u) v r, Inr (0, True))
         | None \<Rightarrow> (r, Inr (0, False))))"
proof (cases "\<exists>v d. slot now e u r = Some (v, Some d)")
  case True
  then obtain v d where sl: "slot now e u r = Some (v, Some d)" by blast
  then have "now < d" by (auto simp: hfind_def split: option.splits if_splits)
  then have "0 < (d - now + 999) div 1000" by (simp add: pos_imp_zdiv_pos_iff)
  then show ?thesis using sl by (simp add: vqPing_def pingLuaScript_def rhttl_def)
next
  case False
  then have "\<not> 0 < hd (rhttl now (getEventWhitelisKey e) u r)" by (simp add: rhttl_pos_iff)
  then obtain a where a: "rhttl now (getEventWhitelisKey e) u r = [a]" "\<not> 0 < a"
    by (simp add: rhttl_def)
  from False have other: "(case slot now e u r of Some (_, Some d) \<Rightarrow> A d | _ \<Rightarrow> B) = B" for A B
    by (auto split: option.splits)
  show ?thesis
    unfolding other using a by (auto simp: vqPing_def pingLuaScript_def rexpire_def split: option.splits)
qed

text \<open>A user with a heartbeat is refused; only lapsed entries leave the line.\<close>

lemma vqEnqueue_duplicate:
  assumes "beating now e r u" and "Second \<le> vq_HeartbeatTTL repo"
  shows "vqEnqueue repo (\<lambda>_. Done) wall now e u r =
    (fst (rsadd getActiveEventsKey e (rzremrangebyscore (getEventVirtualQueueKey e) (Unix wall) r)), Inl ErrVirtualQueueExist)"
proof -
  have "rexists now (getUserHeartbeatKey e u) (rzremrangebyscore (getEventVirtualQueueKey e) (Unix wall) r)"
    using assms(1) by (simp add: rexists_def rget_def)
  then show ?thesis using Seconds_pos [OF assms(2)]
    by (simp add: vqEnqueue_def enqueueLuaScript_def rset_nx_def TrackActiveEvent_def Let_def split_beta)
qed

lemma vqEnqueue_joins:
  assumes silent: "\<not> beating now e r u" and ttl: "Second \<le> vq_HeartbeatTTL repo"
    and newest: "\<And>p. p \<in> set (r_zsets r (getEventVirtualQueueKey e)) \<Longrightarrow> fst p < Unix (wall + vq_QueueTTL repo)"
    and run: "vqEnqueue repo (\<lambda>_. Done) wall now e u r = (r', res)"
    and kept: "kept = map snd (filter (\<lambda>p. Unix wall < fst p) (r_zsets r (getEventVirtualQueueKey e)))"
  shows "res = Inr (u \<notin> set kept)
    \<and> map snd (r_zsets r' (getEventVirtualQueueKey e)) = filter (\<lambda>v. v \<noteq> u) kept @ [u]
    \<and> (\<forall>t. beating t e r' u = (t < now + 1000 * int (Seconds (vq_HeartbeatTTL repo))))
    \<and> GetActiveEvents Done r' = Inr (if e \<in> set (r_sets r getActiveEventsKey) then r_sets r getActiveEventsKey
                                      else r_sets r getActiveEventsKey @ [e])"
proof -
  let ?q = "getEventVirtualQueueKey e" and ?hb = "getUserHeartbeatKey e u"
  let ?s = "Unix (wall + vq_QueueTTL repo)" and ?d = "Some (now + 1000 * int (Seconds (vq_HeartbeatTTL repo)))"
  let ?r1 = "rzremrangebyscore ?q (Unix wall) r"
  let ?r3 = "fst (rzadd ?q ?s u (rset ?d ?hb (RNum 1) ?r1))"
  let ?z = "filter (\<lambda>p. Unix wall < fst p) (r_zsets r ?q)"
  have pos: "Seconds (vq_HeartbeatTTL repo) \<noteq> 0" using Seconds_pos [OF ttl] by simp
  have "\<not> rexists now ?hb ?r1" using silent by (simp add: rexists_def rget_def)
  then have script: "enqueueLuaScript now ?q ?hb (Unix wall) ?s u (Seconds (vq_HeartbeatTTL repo)) r
      = (?r3, Inr (if u \<in> set kept then 0 else 1))"
    using pos by (simp add: enqueueLuaScript_def rset_nx_def kept Let_def split_beta)
      (simp add: rzadd_def rzremrangebyscore_def)
  have out: "r' = fst (rsadd getActiveEventsKey e ?r3)" "res = Inr (u \<notin> set kept)"
    using run by (cases "u \<in> set kept"; simp add: vqEnqueue_def script TrackActiveEvent_def Let_def split_beta)+
  have "zinsert (?s, u) (zwithout u ?z) = zwithout u ?z @ [(?s, u)]"
    by (rule zinsert_greatest) (use newest in \<open>auto simp: zwithout_def\<close>)
  then have line: "map snd (r_zsets r' ?q) = filter (\<lambda>v. v \<noteq> u) kept @ [u]"
    by (simp add: out(1) kept) (simp add: rzadd_def rzremrangebyscore_def)
  have "beating t e r' u = (t < now + 1000 * int (Seconds (vq_HeartbeatTTL repo)))" for t
    by (simp add: out(1) rexists_def rget_def) (simp add: rset_def)
  moreover have "r_sets ?r3 = r_sets r" by simp
  then have "GetActiveEvents Done r' = Inr (if e \<in> set (r_sets r getActiveEventsKey) then r_sets r getActiveEventsKey
      else r_sets r getActiveEventsKey @ [e])"
    by (simp add: GetActiveEvents_def rsmembers_def out(1)) (simp add: rsadd_def)
  ultimately show ?thesis using out(2) line by blast
qed

lemma vqEnqueue_frame:
  "r_hashes (fst (vqEnqueue repo flt wall now e u r)) = r_hashes r"
  "k \<noteq> getUserHeartbeatKey e u \<Longrightarrow> r_strs (fst (vqEnqueue repo flt wall now e u r)) k = r_strs r k"
proof -
  let ?scr = "enqueueLuaScript now (getEventVirtualQueueKey e) (getUserHeartbeatKey e u) (Unix wall)
    (Unix (wall + vq_QueueTTL repo)) u (Seconds (vq_HeartbeatTTL repo))"
  have scr: "r_hashes (fst (?scr z)) = r_hashes z" "k \<noteq> getUserHeartbeatKey e u \<Longrightarrow> r_strs (fst (?scr z)) k = r_strs z k" for z
    by (auto simp: enqueueLuaScript_def rset_nx_def Let_def split_beta rset_other)
  have call: "r_hashes (fst (io_call (flt EQ_Script) ?scr r)) = r_hashes r"
    "k \<noteq> getUserHeartbeatKey e u \<Longrightarrow> r_strs (fst (io_call (flt EQ_Script) ?scr r)) k = r_strs r k"
    by (cases "flt EQ_Script"; simp add: scr split_beta)+
  have track: "r_hashes (fst (TrackActiveEvent x e z)) = r_hashes z" "r_strs (fst (TrackActiveEvent x e z)) = r_strs z" for x z
    by (cases x; simp add: TrackActiveEvent_def split_beta)+
  show "r_hashes (fst (vqEnqueue repo flt wall now e u r)) = r_hashes r"
    by (cases rule: vqEnqueue_state [of repo flt wall now e u r]) (simp_all add: call track)
  show "k \<noteq> getUserHeartbeatKey e u \<Longrightarrow> r_strs (fst (vqEnqueue repo flt wall now e u r)) k = r_strs r k"
    by (cases rule: vqEnqueue_state [of repo flt wall now e u r]) (simp_all add: call track)
qed

section \<open>The gate as the reservation service sees it\<close>

text \<open>
  What giving a slot back relies on: a slot that is left is gone, leaving does not touch the
  line, and an admission only gives slots to users of the line.
\<close>

locale admission_gate =
  fixes has_slot :: "int \<Rightarrow> string \<Rightarrow> string \<Rightarrow> 'q \<Rightarrow> bool"
    and line_of :: "string \<Rightarrow> 'q \<Rightarrow> string list"
    and leave :: "int \<Rightarrow> string \<Rightarrow> string \<Rightarrow> 'q \<Rightarrow> 'q"
    and admit :: "int \<Rightarrow> string \<Rightarrow> 'q \<Rightarrow> 'q"
  assumes leave_slot: "has_slot t e v (leave now e u q) \<longleftrightarrow> v \<noteq> u \<and> has_slot t e v q"
    and leave_line: "line_of e (leave now e u q) = line_of e q"
    and admit_outside: "distinct (line_of e q) \<Longrightarrow> v \<notin> set (line_of e q) \<Longrightarrow> has_slot t e v (admit now e q) = has_slot t e v q"
begin

lemma given_back:
  assumes "distinct (line_of e q)" and "u \<notin> set (line_of e q)"
  shows "\<not> has_slot t e u (admit now e (leave now e u q))"
  using assms by (simp add: admit_outside leave_line leave_slot)

lemma others_keep:
  assumes "distinct (line_of e q)" and "v \<notin> set (line_of e q)" and "v \<noteq> u"
  shows "has_slot t e v (admit now e (leave now e u q)) = has_slot t e v q"
  using assms by (simp add: admit_outside leave_line leave_slot)

end

lemma vqTryWhitelist_fold:
  assumes line: "distinct (waiting (getEventVirtualQueueKey e) r)"
  shows "fst (vqTryWhitelistEventQueue repo Done now e n r) =
    fold (settle now (getEventVirtualQueueKey e) e (Seconds (vq_WhitelistTTL repo)))
      (scan_alive (beating now e r)
        (min (unat n) (effective_cap now e (unat (vq_maxConcurrentQueue repo)) r - rhlen (getEventWhitelisKey e) r))
        (waiting (getEventVirtualQueueKey e) r)) r"
  unfolding vqTryWhitelist_state by (simp add: tryWhitelist_reference [OF line] admission_reference_def Let_def)

lemma settle_slot_other: "v \<noteq> u \<Longrightarrow> slot t e' v (settle now q e ttl u r) = slot t e' v r"
  by (simp add: settle_def rhexpire_rhset hfind_hwithout hfind_Cons)

lemma fold_settle_slot_other: "v \<notin> set s \<Longrightarrow> slot t e' v (fold (settle now q e ttl) s r) = slot t e' v r"
  by (induction s arbitrary: r) (auto simp: settle_slot_other)

lemma vqTryWhitelist_outside:
  assumes "distinct (waiting (getEventVirtualQueueKey e) r)" and "v \<notin> set (waiting (getEventVirtualQueueKey e) r)"
  shows "slot t e v (fst (vqTryWhitelistEventQueue repo Done now e n r)) = slot t e v r"
  unfolding vqTryWhitelist_fold [OF assms(1)]
  by (rule fold_settle_slot_other) (use assms(2) scan_alive_set in blast)

lemma vqDelete_effect:
  "slot t e v (fst (vqDeleteWhitelistedUserTTL Done now e u r)) = (if v = u then None else slot t e v r)"
  "r_zsets (fst (vqDeleteWhitelistedUserTTL Done now e u r)) = r_zsets r"
  "r_strs (fst (vqDeleteWhitelistedUserTTL Done now e u r)) = r_strs r"
  by (simp_all add: vqDeleteWhitelisted_state split_beta) (simp_all add: rhdel_def hfind_hwithout)

interpretation redis_gate: admission_gate "\<lambda>t e u r. slot t e u r \<noteq> None" "\<lambda>e. waiting (getEventVirtualQueueKey e)"
  "\<lambda>now e u r. fst (vqDeleteWhitelistedUserTTL Done now e u r)"
  "\<lambda>now e r. fst (vqTryWhitelistEventQueue repo Done now e 1 r)" for repo
  by unfold_locales (simp_all add: vqDelete_effect vqTryWhitelist_outside)

text \<open>
  What the promoter does for an event with a line: nothing when the gate is full, else one
  admission for as many users as wait or as there is room for.
\<close>

lemma promoter_room:
  assumes cap: "effective_cap now e (unat (vq_maxConcurrentQueue repo)) r < 2 ^ 63" and slots: "rhlen (getEventWhitelisKey e) r < 2 ^ 63"
  obtains w where "vqGetEventMaxConcurrent Done now e (vq_maxConcurrentQueue repo) r = Inr w"
    "wrap_i64 (sint w - int (rhlen (getEventWhitelisKey e) r)) =
       int (effective_cap now e (unat (vq_maxConcurrentQueue repo)) r) - int (rhlen (getEventWhitelisKey e) r)"
proof -
  obtain w where w: "vqGetEventMaxConcurrent Done now e (vq_maxConcurrentQueue repo) r = Inr w"
    "sint w = int (effective_cap now e (unat (vq_maxConcurrentQueue repo)) r)"
    using GetEventMaxConcurrent_effective [OF cap] by blast
  have "wrap_i64 (sint w - int (rhlen (getEventWhitelisKey e) r)) = sint w - int (rhlen (getEventWhitelisKey e) r)"
    unfolding w(2) by (rule wrap_i64_id) (use cap slots in auto)
  then show thesis by (intro that [OF w(1)]) (simp only: w(2))
qed

lemma promote_event_full:
  assumes "effective_cap now e (unat (vq_maxConcurrentQueue repo)) r < 2 ^ 63" and "rhlen (getEventWhitelisKey e) r < 2 ^ 63"
    and "effective_cap now e (unat (vq_maxConcurrentQueue repo)) r \<le> rhlen (getEventWhitelisKey e) r"
  shows "r_zsets (promote_event repo (\<lambda>_. Done) now e r) = r_zsets r"
proof -
  obtain w where w: "vqGetEventMaxConcurrent Done now e (vq_maxConcurrentQueue repo) r = Inr w"
    "wrap_i64 (sint w - int (rhlen (getEventWhitelisKey e) r)) =
       int (effective_cap now e (unat (vq_maxConcurrentQueue repo)) r) - int (rhlen (getEventWhitelisKey e) r)"
    by (rule promoter_room [OF assms(1,2)])
  then show ?thesis using assms(3)
    by (simp add: promote_event_def vqGetTotalVirtualQueue_def vqGetTotalEventWhitelist_def UntrackIdleEvent_state
        untrackIdleEventLuaScript_def split_beta)
qed

lemma promote_event_admits:
  assumes "effective_cap now e (unat (vq_maxConcurrentQueue repo)) r < 2 ^ 63"
    and len: "length (r_zsets r (getEventVirtualQueueKey e)) < 2 ^ 63" and "rhlen (getEventWhitelisKey e) r < 2 ^ 63"
    and some: "rzcard (getEventVirtualQueueKey e) r \<noteq> 0"
    and room: "rhlen (getEventWhitelisKey e) r < effective_cap now e (unat (vq_maxConcurrentQueue repo)) r"
  obtains n where "unat n = min (rzcard (getEventVirtualQueueKey e) r)
      (effective_cap now e (unat (vq_maxConcurrentQueue repo)) r - rhlen (getEventWhitelisKey e) r)"
    "promote_event repo (\<lambda>_. Done) now e r = fst (vqTryWhitelistEventQueue repo Done now e n r)"
proof -
  let ?c = "effective_cap now e (unat (vq_maxConcurrentQueue repo)) r" and ?h = "rhlen (getEventWhitelisKey e) r"
  let ?n = "rzcard (getEventVirtualQueueKey e) r"
  let ?f = "if int ?n < int ?c - int ?h then int ?n else int ?c - int ?h"
  obtain w where w: "vqGetEventMaxConcurrent Done now e (vq_maxConcurrentQueue repo) r = Inr w"
    "wrap_i64 (sint w - int ?h) = int ?c - int ?h" by (rule promoter_room [OF assms(1,3)])
  have f: "?f = int (min ?n (?c - ?h))" using room by auto
  have "min ?n (?c - ?h) < 2 ^ 64" using len by (simp add: rzcard_def)
  then have u: "unat (of_int ?f :: u64) = min ?n (?c - ?h)" unfolding f of_int_of_nat_eq by (simp add: unat_of_nat)
  have "promote_event repo (\<lambda>_. Done) now e r = fst (vqTryWhitelistEventQueue repo Done now e (of_int ?f) r)"
    using some room w by (simp add: promote_event_def vqGetTotalVirtualQueue_def vqGetTotalEventWhitelist_def Let_def)
  with u show thesis by (rule that)
qed

section \<open>Properties of the waiting line and the gate\<close>

text \<open>
  C13: the gate never admits more users than its cap. Starting from an empty Redis, whatever
  enqueues, dequeues, pings, admissions, slot releases, override changes, expiries and faults
  happen for whatever events and in whatever order, the number of slots stored for an event
  never exceeds any \<open>cap\<close> that bounds the configured maximum and every override that is set.
\<close>

theorem gate_never_exceeds_cap:
  assumes "(vq_step cap)\<^sup>*\<^sup>* (t, empty_redis) (t', r)"
  shows "rhlen (getEventWhitelisKey e) r \<le> cap"
  using gate.reach_inv [OF _ assms] by (simp add: gate_inv_def)

theorem gate_never_exceeds_cap_witness:
  "rhlen (getEventWhitelisKey ''e1'') (fst (vqSetEventMaxConcurrent Done ''e1'' 3 empty_redis)) \<le> 3"
  by (rule gate_never_exceeds_cap [of 3 0 0], rule r_into_rtranclp, rule vq_step.set_cap) simp

text \<open>
  C16: the batched admission loop computes the reference. The Lua script, with its batches of
  twice the wanted size, its early exits and its clean-up of silent users, does exactly what
  looking at the line user by user up to the \<open>k\<close>-th living one does, where \<open>k\<close> is the wanted
  number limited by the room left under the effective cap.
\<close>

theorem tryWhitelist_refines_reference:
  assumes "distinct (zmembers (r_zsets r (getEventVirtualQueueKey e)))"
  shows "tryWhitelistEventQueueLuaScript now (getEventVirtualQueueKey e) (getEventWhitelisKey e)
      (getEventMaxConcurrentKey e) e desiredCount maxConcurrency ttl r
    = admission_reference now e desiredCount maxConcurrency ttl r"
  by (rule tryWhitelist_reference [OF assms])

theorem tryWhitelist_refines_reference_witness:
  "tryWhitelistEventQueueLuaScript 0 (getEventVirtualQueueKey ''e1'') (getEventWhitelisKey ''e1'')
      (getEventMaxConcurrentKey ''e1'') ''e1'' 1 1 45 (fst (rzadd (getEventVirtualQueueKey ''e1'') 300 ''u1'' empty_redis))
    = admission_reference 0 ''e1'' 1 1 45 (fst (rzadd (getEventVirtualQueueKey ''e1'') 300 ''u1'' empty_redis))"
  by (rule tryWhitelist_refines_reference) (simp add: rzadd_def empty_redis_def zwithout_def)

text \<open>
  Who is admitted and what remains. The users admitted are the first \<open>k\<close> in the line whose
  heartbeat is alive, in the order of the line, and their number is returned; each of them gets
  a slot that lasts exactly the whitelist time and loses the heartbeat; the others keep their
  slots; the users looked at leave the line and the rest of it keeps its order.
\<close>

lemma admission_outcome:
  assumes line: "distinct (zmembers (r_zsets r (getEventVirtualQueueKey e)))" and ttl: "0 < ttl"
    and k: "k = min n (effective_cap now e m r - rhlen (getEventWhitelisKey e) r)"
    and chosen: "chosen = take k (filter (beating now e r) (zmembers (r_zsets r (getEventVirtualQueueKey e))))"
    and run: "tryWhitelistEventQueueLuaScript now (getEventVirtualQueueKey e) (getEventWhitelisKey e)
      (getEventMaxConcurrentKey e) e n m ttl r = (r', admitted)"
  shows "admitted = length chosen
    \<and> (\<forall>t u. hfind t u (r_hashes r' (getEventWhitelisKey e)) =
         (if u \<in> set chosen then (if t < now + 1000 * int ttl then Some (''1'', Some (now + 1000 * int ttl)) else None)
          else hfind t u (r_hashes r (getEventWhitelisKey e))))
    \<and> (\<forall>u \<in> set chosen. \<not> beating now e r' u)
    \<and> (\<exists>j. zmembers (r_zsets r' (getEventVirtualQueueKey e)) = drop j (zmembers (r_zsets r (getEventVirtualQueueKey e)))
         \<and> chosen = filter (beating now e r) (take j (zmembers (r_zsets r (getEventVirtualQueueKey e)))))"
proof -
  let ?q = "getEventVirtualQueueKey e" and ?P = "beating now e r"
  let ?s = "scan_alive ?P k (waiting ?q r)"
  have out: "r' = fold (settle now ?q e ttl) ?s r" "admitted = length (filter ?P ?s)"
    using run tryWhitelist_reference [OF line, of now n m ttl] by (auto simp: admission_reference_def Let_def k)
  have ch: "chosen = filter ?P ?s" by (simp only: chosen scan_alive_filter)
  have d: "distinct ?s" by (subst scan_alive_prefix) (rule distinct_take [OF line])
  have "u \<in> set chosen \<longleftrightarrow> u \<in> set ?s \<and> ?P u" for u by (simp add: ch)
  moreover have "waiting ?q r' = drop (length ?s) (waiting ?q r)"
    unfolding out(1) fold_settle_waiting by (rule waiting_after_scan [OF line])
  moreover have "chosen = filter ?P (take (length ?s) (waiting ?q r))" unfolding ch by (metis scan_alive_prefix)
  ultimately show ?thesis
    using out(2) ch fold_settle_admitted_beat [OF d] by (auto simp: out(1) fold_settle_slot [OF ttl d])
qed

text \<open>
  A tick of the promoter fills the gate. For an event whose line is not empty and whose cap
  is below \<open>2^63\<close>, the promoter's step leaves waiting exactly those living users that the room
  under the cap could not take; in particular no living user waits while there is room.
\<close>

lemma promoter_fills_gate:
  assumes line: "distinct (zmembers (r_zsets r (getEventVirtualQueueKey e)))"
    and cap: "effective_cap now e (unat (vq_maxConcurrentQueue repo)) r < 2 ^ 63"
    and len: "length (r_zsets r (getEventVirtualQueueKey e)) < 2 ^ 63"
    and slots: "rhlen (getEventWhitelisKey e) r < 2 ^ 63"
  shows "length (filter (beating now e r) (zmembers (r_zsets (promote_event repo (\<lambda>_. Done) now e r) (getEventVirtualQueueKey e))))
    = length (filter (beating now e r) (zmembers (r_zsets r (getEventVirtualQueueKey e))))
      - (effective_cap now e (unat (vq_maxConcurrentQueue repo)) r - rhlen (getEventWhitelisKey e) r)"
proof (cases "rzcard (getEventVirtualQueueKey e) r = 0")
  case True
  then show ?thesis
    by (simp add: promote_event_def vqGetTotalVirtualQueue_def UntrackIdleEvent_state untrackIdleEventLuaScript_def rzcard_def split_beta)
next
  case False
  let ?c = "effective_cap now e (unat (vq_maxConcurrentQueue repo)) r" and ?h = "rhlen (getEventWhitelisKey e) r"
  have alive: "length (filter (beating now e r) (waiting (getEventVirtualQueueKey e) r)) \<le> rzcard (getEventVirtualQueueKey e) r"
    by (metis length_filter_le length_map rzcard_def)
  show ?thesis
  proof (cases "?c \<le> ?h")
    case True
    then show ?thesis using promote_event_full [OF cap slots] by simp
  next
    case room: False
    obtain n where n: "unat n = min (rzcard (getEventVirtualQueueKey e) r) (?c - ?h)"
      "promote_event repo (\<lambda>_. Done) now e r = fst (vqTryWhitelistEventQueue repo Done now e n r)"
      by (rule promote_event_admits [OF cap len slots]) (use False room in auto)
    have "length (filter (beating now e r) (waiting (getEventVirtualQueueKey e) (promote_event repo (\<lambda>_. Done) now e r)))
        = length (filter (beating now e r) (waiting (getEventVirtualQueueKey e) r)) - min (unat n) (?c - ?h)"
      unfolding n(2) by (rule vqTryWhitelist_waiting [OF line refl])
    then show ?thesis using alive unfolding n(1) by linarith
  qed
qed

text \<open>
  The whole promoter run respects the gate, whatever its calls meet. From a state within the
  cap, \<open>PromoteActiveEvents\<close> over all tracked events, with any call failing or losing its reply,
  ends within the cap.
\<close>

lemma PromoteActiveEvents_respects_cap:
  assumes "gate_inv cap (now, r)" and "unat (vq_maxConcurrentQueue repo) \<le> cap"
  shows "gate_inv cap (now, fst (PromoteActiveEvents repo flt now r))"
proof -
  have step: "gate_inv cap (now, promote_event repo flt now e r)" if "gate_inv cap (now, r)" for e r
  proof -
    have "gate_inv cap (now, fst (UntrackIdleEvent x e r))" for x
      by (rule vq_step_inv [OF vq_step.untrack that])
    moreover have "gate_inv cap (now, fst (vqTryWhitelistEventQueue repo x now e n r))" for x n
      by (rule vq_step_inv [OF vq_step.admit [OF assms(2)] that])
    ultimately show ?thesis using that by (simp add: promote_event_def Let_def split: sum.splits)
  qed
  have "gate_inv cap (now, fold (promote_event repo flt now) es r)" if "gate_inv cap (now, r)" for es r
    using that by (induction es arbitrary: r) (auto intro: step)
  then show ?thesis using assms(1) by (simp add: PromoteActiveEvents_def split: sum.splits)
qed

text \<open>
  Joining the line. A user without a heartbeat joins behind everybody whose entry was made in
  an earlier second, entries past their queue time are dropped, the others keep their order, the
  heartbeat runs for exactly the heartbeat time and the event is tracked for the promoter; the
  answer says whether the user was not yet in the line.
\<close>

lemma Enqueue_joins_at_the_end:
  assumes silent: "\<not> beating now e r u" and ttl: "Second \<le> vq_HeartbeatTTL repo"
    and newest: "\<And>p. p \<in> set (r_zsets r (getEventVirtualQueueKey e)) \<Longrightarrow> fst p < Unix (wall + vq_QueueTTL repo)"
    and run: "vqEnqueue repo (\<lambda>_. Done) wall now e u r = (r', res)"
    and kept: "kept = map snd (filter (\<lambda>p. Unix wall < fst p) (r_zsets r (getEventVirtualQueueKey e)))"
  shows "res = Inr (u \<notin> set kept)
    \<and> map snd (r_zsets r' (getEventVirtualQueueKey e)) = filter (\<lambda>v. v \<noteq> u) kept @ [u]
    \<and> (\<forall>t. beating t e r' u = (t < now + 1000 * int (Seconds (vq_HeartbeatTTL repo))))
    \<and> GetActiveEvents Done r' = Inr (if e \<in> set (r_sets r getActiveEventsKey) then r_sets r getActiveEventsKey
                                      else r_sets r getActiveEventsKey @ [e])"
  by (rule vqEnqueue_joins [OF silent ttl newest run kept])

definition demo_repo :: VirtualQueueRepository where
  "demo_repo = \<lparr>vq_maxConcurrentQueue = 0, vq_promoteInterval = Second, vq_WhitelistTTL = 2 * Second,
     vq_HeartbeatTTL = 2 * Second, vq_QueueTTL = 2 * Second\<rparr>"

text \<open>
  Leaving. \<open>Dequeue\<close> removes the user from the line, the gate and the heartbeats of the event,
  and nobody else; it reports whether the user held either and whether a slot was freed.
\<close>

lemma Dequeue_removes_only_the_user:
  "case vqDequeue Done now e u r of
     (r', res) \<Rightarrow>
       res = Inr (u \<in> set (zmembers (r_zsets r (getEventVirtualQueueKey e))) \<or> (\<exists>x. slot now e u r = Some x),
                  \<exists>x. slot now e u r = Some x)
       \<and> zmembers (r_zsets r' (getEventVirtualQueueKey e)) = filter (\<lambda>v. v \<noteq> u) (zmembers (r_zsets r (getEventVirtualQueueKey e)))
       \<and> (\<forall>t v. slot t e v r' = (if v = u then None else slot t e v r))
       \<and> (\<forall>t v. beating t e r' v = (v \<noteq> u \<and> beating t e r v))"
proof -
  let ?q = "getEventVirtualQueueKey e" and ?w = "getEventWhitelisKey e" and ?hb = "getUserHeartbeatKey e u"
  let ?r' = "fst (rdel now ?hb (fst (rzrem ?q u (fst (rhdel now ?w u r)))))"
  let ?a = "if slot now e u r = None then 0 else 1 :: nat" and ?b = "if u \<in> set (waiting ?q r) then 1 else 0 :: nat"
  have "dequeueLuaScript now ?q ?w ?hb u r = (?r', [?b + ?a, ?a])"
    unfolding dequeueLuaScript_def Let_def split_beta by (simp add: rzrem_def) (simp add: rhdel_def)
  then have "vqDequeue Done now e u r = (?r', Inr (0 < ?b + ?a, 0 < ?a))"
    by (simp add: vqDequeue_def)
  moreover have "waiting ?q ?r' = filter (\<lambda>v. v \<noteq> u) (waiting ?q r)" by (simp) (simp add: rzrem_def)
  moreover have "slot t e v ?r' = (if v = u then None else slot t e v r)" for t v
    by simp (simp add: rhdel_def hfind_hwithout)
  moreover have "beating t e ?r' v = (v \<noteq> u \<and> beating t e r v)" for t v
    by (simp add: heartbeat_key_inj) (simp add: rexists_def rget_def)
  ultimately show ?thesis by (cases "slot now e u r") (simp_all del: rexists_rdel)
qed

text \<open>
  Polling. \<open>Ping\<close> tells an admitted user the seconds left of the slot, rounded up and so never
  zero, and changes nothing; it renews the heartbeat of a waiting user and reports no slot; and
  it reports a user without slot and heartbeat as gone.
\<close>

lemma Ping_reports_slot_or_renews:
  "vqPing repo Done now e u r =
     (case slot now e u r of
        Some (_, Some d) \<Rightarrow> (r, Inr ((d - now + 999) div 1000 * Second, True))
      | _ \<Rightarrow>
        (case rget now (getUserHeartbeatKey e u) r of
           Some v \<Rightarrow> (rset (Some (now + 1000 * int (Seconds (vq_HeartbeatTTL repo)))) (getUserHeartbeatKey e u) v r, Inr (0, True))
         | None \<Rightarrow> (r, Inr (0, False))))"
  by (rule vqPing_eq)

section \<open>A polling user whose entry has lapsed\<close>

text \<open>
  The queue entry has a deadline of its own that polling does not renew, and another user's
  \<open>Enqueue\<close> drops the entry. The user is then without an entry but with a heartbeat.
\<close>

definition stranded :: "int \<Rightarrow> string \<Rightarrow> string \<Rightarrow> cache \<Rightarrow> bool" where
  "stranded now e u r \<longleftrightarrow>
     beating now e r u \<and> u \<notin> set (zmembers (r_zsets r (getEventVirtualQueueKey e))) \<and> slot now e u r = None"

text \<open>
  A user whose queue entry lapsed while polling is stuck. \<open>Ping\<close> keeps answering that the user
  is waiting and keeps the user in this state, \<open>Enqueue\<close> is refused as a duplicate and leaves the
  user out of the line, and no admission ever picks the user.
\<close>

lemma stranded_user_is_stuck:
  assumes "stranded now e u r" and ttl: "Second \<le> vq_HeartbeatTTL repo" "Second \<le> vq_WhitelistTTL repo"
    and line: "distinct (zmembers (r_zsets r (getEventVirtualQueueKey e)))"
  shows "snd (vqPing repo Done now e u r) = Inr (0, True) \<and> stranded now e u (fst (vqPing repo Done now e u r))
    \<and> snd (vqEnqueue repo (\<lambda>_. Done) wall now e u r) = Inl ErrVirtualQueueExist
    \<and> stranded now e u (fst (vqEnqueue repo (\<lambda>_. Done) wall now e u r))
    \<and> stranded now e u (fst (vqTryWhitelistEventQueue repo Done now e n r))"
proof -
  let ?q = "getEventVirtualQueueKey e"
  have beat: "beating now e r u" and out: "u \<notin> set (waiting ?q r)" and none: "slot now e u r = None"
    using assms(1) by (auto simp: stranded_def)
  obtain v where v: "rget now (getUserHeartbeatKey e u) r = Some v" using beat by (auto simp: rexists_def)
  have ping: "vqPing repo Done now e u r =
      (rset (Some (now + 1000 * int (Seconds (vq_HeartbeatTTL repo)))) (getUserHeartbeatKey e u) v r, Inr (0, True))"
    by (simp add: vqPing_eq none v)
  then have "stranded now e u (fst (vqPing repo Done now e u r))"
    using out none Seconds_pos [OF ttl(1)] by (simp add: stranded_def rexists_def rstore.get_put)
  moreover have "stranded now e u (fst (vqEnqueue repo (\<lambda>_. Done) wall now e u r))"
    using beat out none unfolding vqEnqueue_duplicate [OF beat ttl(1)]
    by (simp add: stranded_def rexists_def rget_def) (auto simp: rzremrangebyscore_def)
  moreover have "stranded now e u (fst (vqTryWhitelistEventQueue repo Done now e n r))"
  proof -
    obtain k where st: "fst (vqTryWhitelistEventQueue repo Done now e n r) =
        fold (settle now ?q e (Seconds (vq_WhitelistTTL repo))) (scan_alive (beating now e r) k (waiting ?q r)) r"
      unfolding vqTryWhitelist_state by (simp add: tryWhitelist_reference [OF line] admission_reference_def Let_def)
    have "u \<notin> set (scan_alive (beating now e r) k (waiting ?q r))" using out scan_alive_set by blast
    moreover have "distinct (scan_alive (beating now e r) k (waiting ?q r))"
      by (subst scan_alive_prefix) (rule distinct_take [OF line])
    ultimately show ?thesis using beat out none
      by (simp add: st stranded_def fold_settle_waiting fold_settle_beating fold_settle_slot [OF Seconds_pos [OF ttl(2)]])
  qed
  ultimately show ?thesis using ping vqEnqueue_duplicate [OF beat ttl(1)] by simp
qed

text \<open>The state is reached by \<open>u1\<close> joining at 0 s, polling at 1 s, and \<open>u2\<close> joining at 2 s.\<close>

end
