(* ===== verification/Events.thy ===== *)
theory Events
  imports Schema
begin

text \<open>
  \<open>src/backend/repository/events\<close> and \<open>src/backend/service/events\<close>: creating and listing events,
  and the read path through the Redis cache. The interface \<open>cache_aside\<close> states what such a
  read path relies on; theory \<open>Users\<close> interprets it a second time.
\<close>

section \<open>A cache beside a table\<close>

text \<open>Every value that the cache would return, now or at any time, is the row's.\<close>

definition coherent :: "(int \<Rightarrow> string \<Rightarrow> 'c \<Rightarrow> 'v option) \<Rightarrow> (string \<Rightarrow> 'v option) \<Rightarrow> 'c \<Rightarrow> bool" where
  "coherent cached rows c \<longleftrightarrow> (\<forall>now k v. cached now k c = Some v \<longrightarrow> rows k = Some v)"

locale cache_aside =
  fixes cached :: "int \<Rightarrow> string \<Rightarrow> 'c \<Rightarrow> 'v option"
    and fill :: "int \<Rightarrow> 'v \<Rightarrow> 'c \<Rightarrow> 'c"
    and drop_key :: "int \<Rightarrow> string \<Rightarrow> 'c \<Rightarrow> 'c"
    and ident :: "'v \<Rightarrow> string"
  assumes cached_fill: "cached now k (fill expires v c) =
      (if k = ident v then (if now < expires then Some v else None) else cached now k c)"
    and cached_drop: "cached now k (drop_key now' k' c) = (if k = k' then None else cached now k c)"
begin

lemma fill_coherent: "coherent cached rows c \<Longrightarrow> rows (ident v) = Some v \<Longrightarrow> coherent cached rows (fill expires v c)"
  by (auto simp: coherent_def cached_fill split: if_splits)

lemma hit_coherent: "coherent cached rows c \<Longrightarrow> cached now k c = Some v \<Longrightarrow> rows k = Some v"
  by (simp add: coherent_def)

text \<open>After a row changed, dropping its key restores coherence.\<close>

lemma drop_after_update:
  assumes "coherent cached rows c" and "\<And>k'. k' \<noteq> k \<Longrightarrow> rows' k' = rows k'"
  shows "coherent cached rows' (drop_key now k c)"
  using assms by (auto simp: coherent_def cached_drop split: if_splits)

lemma drop_coherent: "coherent cached rows c \<Longrightarrow> coherent cached rows (drop_key now k c)"
  by (auto simp: coherent_def cached_drop split: if_splits)

end

section \<open>Postgres\<close>

text \<open>\<open>TIMESTAMPTZ(0)\<close> rounds to whole seconds.\<close>

definition timestamptz0 :: "time \<Rightarrow> time" where
  "timestamptz0 t = (t + Second div 2) div Second * Second"

definition int4_fits :: "NewEvent \<Rightarrow> bool" where
  "int4_fits ne \<longleftrightarrow> unat (ne_Capacity ne) < 2 ^ 31 \<and> unat (ne_MaxReservePerUser ne) < 2 ^ 31"

definition insert_event :: "time \<Rightarrow> string \<Rightarrow> NewEvent \<Rightarrow> pg \<Rightarrow> (pg \<times> EventItem) result" where
  "insert_event now new_id ne db =
     (if \<not> int4_fits ne
      then Inl (OtherError ''value out of range for int4'')
      else if \<not> name_not_blank (ne_Name ne) \<or> ne_Capacity ne = 0 \<or> ne_MaxReservePerUser ne = 0 then Inl (PgError ''23514'')
      else if new_id \<in> set (map er_id (events_tbl db)) then Inl (PgError ''23505'')
      else
        let item = \<lparr>ev_Id = new_id, ev_Name = ne_Name ne, ev_MaxReservePerUser = ne_MaxReservePerUser ne,
                    ev_Capacity = ne_Capacity ne, ev_StartSalesAt = map_option timestamptz0 (ne_StartSalesAt ne),
                    ev_CreatedAt = now, ev_UpdatedAt = now\<rparr>
        in Inr (db\<lparr>events_tbl := events_tbl db @ [\<lparr>er_item = item, er_deleted_at = None\<rparr>]\<rparr>, item))"

fun commit_insert :: "io \<Rightarrow> ('s \<times> 'a) result \<Rightarrow> 's \<Rightarrow> 's \<times> 'a result" where
  "commit_insert x (Inl e) s = (s, Inl (case io_err x of Some e' \<Rightarrow> e' | None \<Rightarrow> e))"
| "commit_insert x (Inr (s', a)) s = io_call x (\<lambda>_. (s', a)) s"

definition pg_CreateEvent :: "io \<Rightarrow> time \<Rightarrow> string \<Rightarrow> NewEvent \<Rightarrow> pg \<Rightarrow> pg \<times> EventItem result" where
  "pg_CreateEvent x now new_id event db = commit_insert x (insert_event now new_id event db) db"

text \<open>\<open>INSERT INTO events ... SELECT ... FROM minted_events RETURNING ...\<close>; the database draws the ids.\<close>

fun insert_events :: "time \<Rightarrow> string list \<Rightarrow> NewEvent list \<Rightarrow> pg \<Rightarrow> (pg \<times> EventItem list) result" where
  "insert_events now ids [] db = Inr (db, [])"
| "insert_events now ids (ne # nes) db =
     (case insert_event now (hd ids) ne db of
        Inl e \<Rightarrow> Inl e
      | Inr (db', item) \<Rightarrow>
          (case insert_events now (tl ids) nes db' of
             Inl e \<Rightarrow> Inl e
           | Inr (db'', items) \<Rightarrow> Inr (db'', item # items)))"

datatype create_call = CE_Begin | CE_TempTable | CE_Copy | CE_Insert | CE_Commit

text \<open>
  \<open>CopyFrom\<close> fails where a value does not fit its \<open>INTEGER\<close> column; the checks of the table
  itself apply at the insert. Nothing is visible before the commit.
\<close>

definition pg_CreateEvents ::
  "(create_call \<Rightarrow> io) \<Rightarrow> time \<Rightarrow> string list \<Rightarrow> NewEvent list \<Rightarrow> pg \<Rightarrow> pg \<times> EventItem list result" where
  "pg_CreateEvents flt now ids events db =
     (if events = [] then (db, Inr [])
      else case io_err (flt CE_Begin) of Some e \<Rightarrow> (db, Inl e) | None \<Rightarrow>
      (case io_err (flt CE_TempTable) of Some e \<Rightarrow> (db, Inl e) | None \<Rightarrow>
      (case io_err (flt CE_Copy) of Some e \<Rightarrow> (db, Inl e) | None \<Rightarrow>
      if \<not> list_all int4_fits events then (db, Inl (OtherError ''value out of range for int4'')) else
      (case io_err (flt CE_Insert) of Some e \<Rightarrow> (db, Inl e) | None \<Rightarrow>
      (case insert_events now ids events db of
         Inl e \<Rightarrow> (db, Inl e)
       | Inr (db', created) \<Rightarrow> io_call (flt CE_Commit) (\<lambda>_. (db', created)) db)))))"

text \<open>Rows created at the same instant come in the order of the table, which SQL leaves open.\<close>

definition pg_ListEvents :: "io \<Rightarrow> u64 \<Rightarrow> pg \<Rightarrow> EventItem list result" where
  "pg_ListEvents x limit db =
     io_read x (take (unat limit)
       (sort_key (\<lambda>e. - ev_CreatedAt e) (map er_item (filter (\<lambda>e. er_deleted_at e = None) (events_tbl db)))))"

definition pg_GetEvent :: "io \<Rightarrow> string \<Rightarrow> pg \<Rightarrow> EventItem result" where
  "pg_GetEvent x eid db =
     (case io_err x of
        Some e \<Rightarrow> Inl e
      | None \<Rightarrow> (case find (\<lambda>e. er_id e = eid) (events_tbl db) of
                   None \<Rightarrow> Inl ErrEventNotFound
                 | Some e \<Rightarrow> Inr (er_item e)))"

section \<open>Redis\<close>

definition eventIdCacheTTL :: duration where
  "eventIdCacheTTL = 1 * Minute"

definition eventIdCacheKey :: "string \<Rightarrow> string" where
  "eventIdCacheKey i = ''event:id:'' @ i"

text \<open>\<open>utils.JitterTtl\<close>; \<open>rnd\<close> is the random draw, below 30 as \<open>rand.IntN(30)\<close> returns it.\<close>

definition JitterTtl :: "nat \<Rightarrow> duration \<Rightarrow> duration" where
  "JitterTtl rnd baseTTL = baseTTL + int (rnd mod 30) * Second"

definition rc_GetEvent :: "io \<Rightarrow> int \<Rightarrow> string \<Rightarrow> cache \<Rightarrow> EventItem result" where
  "rc_GetEvent x now i r =
     (case io_err x of
        Some e \<Rightarrow> Inl e
      | None \<Rightarrow> (case rget now (eventIdCacheKey i) r of
                   None \<Rightarrow> Inl ErrCacheMiss
                 | Some (RDoc (DocEvent item)) \<Rightarrow> Inr item
                 | Some _ \<Rightarrow> Inl ErrCacheMalformed))"

definition rc_SetCache :: "io \<Rightarrow> int \<Rightarrow> nat \<Rightarrow> EventItem \<Rightarrow> cache \<Rightarrow> cache \<times> unit result" where
  "rc_SetCache x now rnd event r =
     io_call x (\<lambda>r. (rset (Some (now + JitterTtl rnd eventIdCacheTTL div Millisecond)) (eventIdCacheKey (ev_Id event))
                        (RDoc (DocEvent event)) r, ())) r"

definition rc_InvalidateCache :: "io \<Rightarrow> int \<Rightarrow> string \<Rightarrow> cache \<Rightarrow> cache \<times> nat result" where
  "rc_InvalidateCache x now eventId r = io_call x (rdel now (eventIdCacheKey eventId)) r"

section \<open>The repository and the service\<close>

datatype get_event_call = GE_Cache | GE_Query | GE_Fill

text \<open>
  \<open>deadline\<close> says whether the context has one; \<open>gone\<close> is the context's error when it ended before
  the query answered. The query runs on a context of its own, and the cache is filled in the
  background, so both still happen then. A fill that has not happened yet is \<open>NotSent\<close>.
\<close>

definition repo_GetEvent ::
  "(get_event_call \<Rightarrow> io) \<Rightarrow> int \<Rightarrow> nat \<Rightarrow> bool \<Rightarrow> go_error option \<Rightarrow> string \<Rightarrow> pg \<Rightarrow> cache \<Rightarrow> cache \<times> EventItem result" where
  "repo_GetEvent flt now rnd deadline gone eid db r =
     (case rc_GetEvent (flt GE_Cache) now eid r of
        Inr event \<Rightarrow> (r, Inr event)
      | Inl _ \<Rightarrow>
          let (r', res) =
            (if \<not> deadline then (r, Inl ErrMissingDeadline)
             else (case pg_GetEvent (flt GE_Query) eid db of
                     Inl e \<Rightarrow> (r, Inl e)
                   | Inr eventItem \<Rightarrow> (fst (rc_SetCache (flt GE_Fill) now rnd eventItem r), Inr eventItem)))
          in (r', case gone of Some e \<Rightarrow> Inl e | None \<Rightarrow> res))"

record CreateEventRequest =
  cer_Name :: string
  cer_Capacity :: u32
  cer_MaxReservePerUser :: u32
  cer_StartSalesAt :: "time option"

definition svc_CreateEvent :: "io \<Rightarrow> time \<Rightarrow> string \<Rightarrow> CreateEventRequest \<Rightarrow> pg \<Rightarrow> pg \<times> EventItem result" where
  "svc_CreateEvent x now new_id request db =
     (if cer_Name request = [] \<or> cer_Capacity request = 0 \<or> cer_MaxReservePerUser request = 0 then (db, Inl ErrInvalidEvent)
      else pg_CreateEvent x now new_id
             \<lparr>ne_Name = cer_Name request, ne_Capacity = cer_Capacity request,
              ne_MaxReservePerUser = cer_MaxReservePerUser request, ne_StartSalesAt = cer_StartSalesAt request\<rparr> db)"

definition defaultEventListLimit :: u64 where
  "defaultEventListLimit = 100"

definition svc_ListEvents :: "io \<Rightarrow> u64 \<Rightarrow> pg \<Rightarrow> EventItem list result" where
  "svc_ListEvents x limit db =
     pg_ListEvents x (if limit = 0 \<or> defaultEventListLimit < limit then defaultEventListLimit else limit) db"

section \<open>The cache interface for events\<close>

definition event_cached :: "int \<Rightarrow> string \<Rightarrow> cache \<Rightarrow> EventItem option" where
  "event_cached now k r = (case rc_GetEvent Done now k r of Inr e \<Rightarrow> Some e | Inl _ \<Rightarrow> None)"

definition event_rows :: "pg \<Rightarrow> string \<Rightarrow> EventItem option" where
  "event_rows db k = map_option er_item (find (\<lambda>e. er_id e = k) (events_tbl db))"

lemma event_cached_iff: "event_cached now k r = Some e \<longleftrightarrow> rget now (eventIdCacheKey k) r = Some (RDoc (DocEvent e))"
  by (auto simp: event_cached_def rc_GetEvent_def split: option.splits rstr.splits doc.splits)

interpretation event_cache: cache_aside event_cached
  "\<lambda>expires e. rset (Some expires) (eventIdCacheKey (ev_Id e)) (RDoc (DocEvent e))"
  "\<lambda>now k r. fst (rdel now (eventIdCacheKey k) r)" ev_Id
  by unfold_locales
     (auto simp: event_cached_def rc_GetEvent_def rstore.get_put rstore.get_del eventIdCacheKey_def)

lemma pg_GetEvent_rows: "pg_GetEvent Done k db = (case event_rows db k of None \<Rightarrow> Inl ErrEventNotFound | Some e \<Rightarrow> Inr e)"
  by (simp add: pg_GetEvent_def event_rows_def split: option.splits)

lemma event_rows_id: "event_rows db k = Some e \<Longrightarrow> ev_Id e = k"
  by (auto simp: event_rows_def dest: find_SomeD)

lemma rc_SetCache_coherent:
  assumes "coherent event_cached rows r" and "rows (ev_Id e) = Some e"
  shows "coherent event_cached rows (fst (rc_SetCache x now rnd e r))"
  unfolding rc_SetCache_def
  by (rule io_call_inv [where P = "coherent event_cached rows"]) (simp_all add: assms event_cache.fill_coherent)

lemma repo_GetEvent_coherent:
  assumes "coherent event_cached (event_rows db) r"
  shows "coherent event_cached (event_rows db) (fst (repo_GetEvent flt now rnd deadline gone k db r))"
proof (cases "\<exists>e. pg_GetEvent (flt GE_Query) k db = Inr e")
  case True
  then obtain e where e: "pg_GetEvent (flt GE_Query) k db = Inr e" by blast
  then have "event_rows db k = Some e"
    by (auto simp: pg_GetEvent_def event_rows_def split: option.splits)
  then have "coherent event_cached (event_rows db) (fst (rc_SetCache (flt GE_Fill) now rnd e r))"
    using rc_SetCache_coherent [OF assms] event_rows_id by metis
  then show ?thesis using assms e by (simp add: repo_GetEvent_def Let_def split: sum.splits)
next
  case False
  then show ?thesis using assms by (auto simp: repo_GetEvent_def Let_def split: sum.splits)
qed

section \<open>Inserted rows\<close>

abbreviation fresh_row :: "EventItem \<Rightarrow> event_row" where
  "fresh_row i \<equiv> \<lparr>er_item = i, er_deleted_at = None\<rparr>"

lemma insert_event_InrD:
  assumes "insert_event now new_id ne db = Inr (db', item)"
  shows "db' = db\<lparr>events_tbl := events_tbl db @ [fresh_row item]\<rparr>" "event_row_ok (fresh_row item)"
    "ev_Id item = new_id" "new_id \<notin> set (map er_id (events_tbl db))"
    "ev_Name item = ne_Name ne" "ev_Capacity item = ne_Capacity ne" "ev_MaxReservePerUser item = ne_MaxReservePerUser ne"
  using assms by (auto simp: insert_event_def Let_def event_row_ok_def int4_pos_def int4_fits_def unat_gt_0 split: if_splits)

lemma insert_event_wf:
  assumes "pg_wf db" and "insert_event now new_id ne db = Inr (db', item)"
  shows "pg_wf db'"
  using assms(1) insert_event_InrD [OF assms(2)]
  by (auto simp: pg_wf_def events_ok_def reservations_ok_def list_all_iff)

lemma insert_events_InrD:
  assumes "insert_events now ids nes db = Inr (db', items)" and "pg_wf db"
  shows "pg_wf db' \<and> db' = db\<lparr>events_tbl := events_tbl db @ map fresh_row items\<rparr>
    \<and> map ev_Name items = map ne_Name nes \<and> map ev_Capacity items = map ne_Capacity nes
    \<and> map ev_MaxReservePerUser items = map ne_MaxReservePerUser nes"
  using assms
proof (induction nes arbitrary: ids db db' items)
  case (Cons ne nes)
  obtain db1 i where i: "insert_event now (hd ids) ne db = Inr (db1, i)"
    using Cons.prems(1) by (cases "insert_event now (hd ids) ne db") auto
  obtain js where js: "insert_events now (tl ids) nes db1 = Inr (db', js)" "items = i # js"
    using Cons.prems(1) i by (cases "insert_events now (tl ids) nes db1") auto
  show ?case
    using Cons.IH [OF js(1) insert_event_wf [OF Cons.prems(2) i]] insert_event_InrD [OF i] js(2) by (simp, metis)
qed simp

lemma pg_CreateEvents_cases:
  obtains (unchanged) "fst (pg_CreateEvents flt now ids evs db) = db"
    "evs = [] \<or> isl (snd (pg_CreateEvents flt now ids evs db))"
  | (created) items db' where "insert_events now ids evs db = Inr (db', items)"
    "fst (pg_CreateEvents flt now ids evs db) = db'"
    "\<And>is. snd (pg_CreateEvents flt now ids evs db) = Inr is \<Longrightarrow> is = items"
proof (cases "insert_events now ids evs db")
  case (Inl e)
  then show ?thesis by (intro that(1)) (auto simp: pg_CreateEvents_def split: option.splits)
next
  case (Inr p)
  then obtain db' items where ins: "insert_events now ids evs db = Inr (db', items)" by (cases p) auto
  show ?thesis
  proof (cases "fst (pg_CreateEvents flt now ids evs db) = db \<and> (evs = [] \<or> isl (snd (pg_CreateEvents flt now ids evs db)))")
    case True
    then show ?thesis by (intro that(1)) auto
  next
    case False
    then have "fst (pg_CreateEvents flt now ids evs db) = db'
        \<and> (\<forall>is. snd (pg_CreateEvents flt now ids evs db) = Inr is \<longrightarrow> is = items)"
      using ins by (cases "flt CE_Commit") (auto simp: pg_CreateEvents_def split: option.splits if_splits)
    then show ?thesis by (intro that(2) [OF ins]) auto
  qed
qed

section \<open>Properties\<close>

lemma event_read_through:
  assumes coh: "coherent event_cached (event_rows db) r" and flt: "flt GE_Query = Done"
  shows "snd (repo_GetEvent flt now rnd True None k db r) =
    (case event_rows db k of None \<Rightarrow> Inl ErrEventNotFound | Some e \<Rightarrow> Inr e)"
proof (cases "rc_GetEvent (flt GE_Cache) now k r")
  case (Inr e)
  then have "event_cached now k r = Some e"
    by (cases "flt GE_Cache") (auto simp: rc_GetEvent_def event_cached_def)
  then have "event_rows db k = Some e" by (rule event_cache.hit_coherent [OF coh])
  then show ?thesis by (simp add: repo_GetEvent_def Inr)
next
  case (Inl e)
  then show ?thesis by (simp add: repo_GetEvent_def flt pg_GetEvent_rows Let_def split: option.splits)
qed

text \<open>
  Reading an event through the cache gives the row. While the cache is coherent with the
  table, \<open>GetEvent\<close> answers with the row or with \<open>ErrEventNotFound\<close>, whatever happens to its two
  Redis calls; and whatever happens to any of its calls, the cache stays coherent.
\<close>

lemma GetEvent_reads_through:
  assumes "coherent event_cached (event_rows db) r" and "flt GE_Query = Done"
  shows "snd (repo_GetEvent flt now rnd True None k db r) =
      (case event_rows db k of None \<Rightarrow> Inl ErrEventNotFound | Some e \<Rightarrow> Inr e)
    \<and> coherent event_cached (event_rows db) (fst (repo_GetEvent flt' now rnd deadline gone k db r))"
  using event_read_through [where flt = flt, OF assms] repo_GetEvent_coherent [OF assms(1)] by blast

text \<open>
  Creating events in bulk is all or nothing. Whatever fails, the table is as before or has
  exactly one new row per requested event, in order and with the requested name, capacity and
  quota; the schema's constraints hold; and a successful call returns exactly the new rows.
\<close>

lemma CreateEvents_all_or_nothing:
  assumes wf: "pg_wf db" and run: "pg_CreateEvents flt now ids evs db = (db', res)"
  shows "pg_wf db' \<and> (\<exists>items. events_tbl db' = events_tbl db @ map fresh_row items
      \<and> users_tbl db' = users_tbl db \<and> reservations_tbl db' = reservations_tbl db
      \<and> (items = [] \<or> map ev_Name items = map ne_Name evs \<and> map ev_Capacity items = map ne_Capacity evs
           \<and> map ev_MaxReservePerUser items = map ne_MaxReservePerUser evs)
      \<and> (\<forall>is. res = Inr is \<longrightarrow> is = items \<and> length is = length evs))"
proof (cases rule: pg_CreateEvents_cases [of flt now ids evs db])
  case unchanged
  then have "db' = db" "evs = [] \<or> isl res" using run by auto
  moreover have "res = Inr []" if "evs = []" using run that by (auto simp: pg_CreateEvents_def)
  ultimately show ?thesis using wf by (auto intro!: exI [of _ "[]"])
next
  case (created items db1)
  note ins = insert_events_InrD [OF created(1) wf]
  have "length items = length evs" using ins by (metis length_map)
  then show ?thesis using ins created(2,3) run by (auto intro!: exI [of _ items])
qed

text \<open>
  A listing shows at most 100 events that are not deleted, newest first, and all of them when
  they fit under the limit that was asked for (100 when none or more was asked for).
\<close>

lemma ListEvents_limited_newest_first:
  "case svc_ListEvents Done limit db of
     Inl _ \<Rightarrow> False
   | Inr es \<Rightarrow>
       length es \<le> 100 \<and> sorted_wrt (\<lambda>a b. ev_CreatedAt b \<le> ev_CreatedAt a) es
       \<and> set es \<subseteq> er_item ` {e \<in> set (events_tbl db). er_deleted_at e = None}
       \<and> length es = min (if limit = 0 \<or> 100 < limit then 100 else unat limit)
                         (length (filter (\<lambda>e. er_deleted_at e = None) (events_tbl db)))"
proof -
  let ?es = "map er_item (filter (\<lambda>e. er_deleted_at e = None) (events_tbl db))"
  let ?l = "if limit = 0 \<or> defaultEventListLimit < limit then defaultEventListLimit else limit"
  let ?sorted = "sort_key (\<lambda>e. - ev_CreatedAt e) ?es"
  have l: "unat ?l = (if limit = 0 \<or> 100 < limit then 100 else unat limit)"
    by (simp add: defaultEventListLimit_def)
  have le: "unat ?l \<le> 100"
    by (auto simp: defaultEventListLimit_def not_less word_le_nat_alt)
  have "sorted (map (\<lambda>e. - ev_CreatedAt e) (take (unat ?l) ?sorted))"
    using sorted_sort_key [of "\<lambda>e. - ev_CreatedAt e" ?es] by (metis sorted_wrt_take take_map)
  then have "sorted_wrt (\<lambda>a b. ev_CreatedAt b \<le> ev_CreatedAt a) (take (unat ?l) ?sorted)"
    by (simp add: sorted_map)
  moreover have "set (take (unat ?l) ?sorted) \<subseteq> er_item ` {e \<in> set (events_tbl db). er_deleted_at e = None}"
    using set_take_subset by fastforce
  ultimately show ?thesis using le l by (simp add: svc_ListEvents_def pg_ListEvents_def min.commute)
qed


end
