(* ===== verification/Users.thy ===== *)
theory Users
  imports Events
begin

text \<open>
  \<open>src/backend/repository/users\<close> and \<open>src/backend/service/users\<close>: accounts with one address each,
  bulk creation that skips taken addresses, and the cached read path. Password hashing
  (\<open>bcrypt\<close>) is the parameter \<open>hash\<close>.
\<close>

section \<open>Postgres\<close>

definition uniqueViolationCode :: string where
  "uniqueViolationCode = ''23505''"

definition email_taken :: "string \<Rightarrow> pg \<Rightarrow> bool" where
  "email_taken email db \<longleftrightarrow> lower email \<in> set (map (\<lambda>u. lower (us_Email (ur_item u))) (users_tbl db))"

definition mk_user :: "time \<Rightarrow> string \<Rightarrow> NewUser \<Rightarrow> user_row" where
  "mk_user now new_id nu =
     \<lparr>ur_item = \<lparr>us_Id = new_id, us_Name = nu_Name nu, us_Email = nu_Email nu, us_CreatedAt = now, us_UpdatedAt = now\<rparr>,
      ur_password_hash = nu_PasswordHash nu\<rparr>"

definition insert_user :: "time \<Rightarrow> string \<Rightarrow> NewUser \<Rightarrow> pg \<Rightarrow> (pg \<times> UserItem) result" where
  "insert_user now new_id nu db =
     (if \<not> name_not_blank (nu_Name nu) \<or> \<not> email_format (nu_Email nu) then Inl (PgError ''23514'')
      else if new_id \<in> set (map ur_id (users_tbl db)) \<or> email_taken (nu_Email nu) db then Inl (PgError ''23505'')
      else let u = mk_user now new_id nu
           in Inr (db\<lparr>users_tbl := users_tbl db @ [u]\<rparr>, ur_item u))"

definition pg_CreateUser :: "io \<Rightarrow> time \<Rightarrow> string \<Rightarrow> string \<Rightarrow> string \<Rightarrow> string \<Rightarrow> pg \<Rightarrow> pg \<times> UserItem result" where
  "pg_CreateUser x now new_id name email passwordHash db =
     (case commit_insert x
             (insert_user now new_id \<lparr>nu_Name = name, nu_Email = email, nu_PasswordHash = passwordHash\<rparr> db) db of
        (db', Inl (PgError code)) \<Rightarrow>
          (db', Inl (if code = uniqueViolationCode then ErrUserEmailTaken else PgError code))
      | (db', res) \<Rightarrow> (db', res))"

text \<open>
  \<open>INSERT ... ON CONFLICT DO NOTHING RETURNING id\<close>: a row that would break a uniqueness constraint
  is skipped, a row that breaks a check fails the statement.
\<close>

fun insert_users :: "time \<Rightarrow> string list \<Rightarrow> NewUser list \<Rightarrow> pg \<Rightarrow> (pg \<times> string list) result" where
  "insert_users now ids [] db = Inr (db, [])"
| "insert_users now ids (nu # nus) db =
     (case insert_user now (hd ids) nu db of
        Inl (PgError code) \<Rightarrow>
          if code = ''23505'' then insert_users now (tl ids) nus db else Inl (PgError code)
      | Inl e \<Rightarrow> Inl e
      | Inr (db', u) \<Rightarrow>
          (case insert_users now (tl ids) nus db' of
             Inl e \<Rightarrow> Inl e
           | Inr (db'', created) \<Rightarrow> Inr (db'', us_Id u # created)))"

definition pg_CreateUsers ::
  "(create_call \<Rightarrow> io) \<Rightarrow> time \<Rightarrow> string list \<Rightarrow> NewUser list \<Rightarrow> pg \<Rightarrow> pg \<times> string list result" where
  "pg_CreateUsers flt now ids users db =
     (if users = [] then (db, Inr [])
      else case io_err (flt CE_Begin) of Some e \<Rightarrow> (db, Inl e) | None \<Rightarrow>
      (case io_err (flt CE_TempTable) of Some e \<Rightarrow> (db, Inl e) | None \<Rightarrow>
      (case io_err (flt CE_Copy) of Some e \<Rightarrow> (db, Inl e) | None \<Rightarrow>
      (case io_err (flt CE_Insert) of Some e \<Rightarrow> (db, Inl e) | None \<Rightarrow>
      (case insert_users now ids users db of
         Inl e \<Rightarrow> (db, Inl e)
       | Inr (db', created) \<Rightarrow> io_call (flt CE_Commit) (\<lambda>_. (db', created)) db)))))"

definition pg_ListUsers :: "io \<Rightarrow> u64 \<Rightarrow> pg \<Rightarrow> UserItem list result" where
  "pg_ListUsers x limit db =
     io_read x (take (unat limit) (sort_key (\<lambda>u. - us_CreatedAt u) (map ur_item (users_tbl db))))"

definition pg_CountUsers :: "io \<Rightarrow> pg \<Rightarrow> nat result" where
  "pg_CountUsers x db = io_read x (length (users_tbl db))"

definition pg_GetUser :: "io \<Rightarrow> string \<Rightarrow> pg \<Rightarrow> UserItem result" where
  "pg_GetUser x uid db =
     (case io_err x of
        Some e \<Rightarrow> Inl e
      | None \<Rightarrow> (case find (\<lambda>u. ur_id u = uid) (users_tbl db) of
                   None \<Rightarrow> Inl ErrUserNotFound
                 | Some u \<Rightarrow> Inr (ur_item u)))"

section \<open>Redis, the repository and the service\<close>

definition userCacheTTL :: duration where
  "userCacheTTL = 5 * Minute"

definition userCacheKey :: "string \<Rightarrow> string" where
  "userCacheKey i = ''user:{'' @ i @ ''}''"

definition rc_GetUser :: "io \<Rightarrow> int \<Rightarrow> string \<Rightarrow> cache \<Rightarrow> UserItem result" where
  "rc_GetUser x now i r =
     (case io_err x of
        Some e \<Rightarrow> Inl e
      | None \<Rightarrow> (case rget now (userCacheKey i) r of
                   None \<Rightarrow> Inl RedisNil
                 | Some (RDoc (DocUser item)) \<Rightarrow> Inr item
                 | Some _ \<Rightarrow> Inl (OtherError ''json'')))"

definition rc_SetUser :: "io \<Rightarrow> int \<Rightarrow> UserItem \<Rightarrow> cache \<Rightarrow> cache \<times> unit result" where
  "rc_SetUser x now userItem r =
     io_call x (\<lambda>r. (rset (Some (now + userCacheTTL div Millisecond)) (userCacheKey (us_Id userItem))
                        (RDoc (DocUser userItem)) r, ())) r"

datatype get_user_call = GU_Cache | GU_Query | GU_Fill

definition repo_GetUser :: "(get_user_call \<Rightarrow> io) \<Rightarrow> int \<Rightarrow> string \<Rightarrow> pg \<Rightarrow> cache \<Rightarrow> cache \<times> UserItem result" where
  "repo_GetUser flt now uid db r =
     (case rc_GetUser (flt GU_Cache) now uid r of
        Inr cached \<Rightarrow> (r, Inr cached)
      | Inl _ \<Rightarrow>
          (case pg_GetUser (flt GU_Query) uid db of
             Inl e \<Rightarrow> (r, Inl e)
           | Inr userItem \<Rightarrow> (fst (rc_SetUser (flt GU_Fill) now userItem r), Inr userItem)))"

record CreateUserRequest =
  cur_Name :: string
  cur_Email :: string
  cur_Password :: string

definition svc_CreateUser ::
  "(string \<Rightarrow> string result) \<Rightarrow> io \<Rightarrow> time \<Rightarrow> string \<Rightarrow> CreateUserRequest \<Rightarrow> pg \<Rightarrow> pg \<times> UserItem result" where
  "svc_CreateUser hash x now new_id request db =
     (if cur_Name request = [] \<or> cur_Email request = [] then (db, Inl ErrInvalidUser)
      else case hash (cur_Password request) of
        Inl e \<Rightarrow> (db, Inl e)
      | Inr passwordHash \<Rightarrow> pg_CreateUser x now new_id (cur_Name request) (cur_Email request) passwordHash db)"

definition defaultUserListLimit :: u64 where
  "defaultUserListLimit = 100"

definition svc_ListUsers :: "io \<Rightarrow> u64 \<Rightarrow> pg \<Rightarrow> UserItem list result" where
  "svc_ListUsers x limit db =
     pg_ListUsers x (if limit = 0 \<or> defaultUserListLimit < limit then defaultUserListLimit else limit) db"

section \<open>The cache interface for users\<close>

definition user_cached :: "int \<Rightarrow> string \<Rightarrow> cache \<Rightarrow> UserItem option" where
  "user_cached now k r = (case rc_GetUser Done now k r of Inr u \<Rightarrow> Some u | Inl _ \<Rightarrow> None)"

definition user_rows :: "pg \<Rightarrow> string \<Rightarrow> UserItem option" where
  "user_rows db k = map_option ur_item (find (\<lambda>u. ur_id u = k) (users_tbl db))"

interpretation user_cache: cache_aside user_cached
  "\<lambda>expires u. rset (Some expires) (userCacheKey (us_Id u)) (RDoc (DocUser u))"
  "\<lambda>now k r. fst (rdel now (userCacheKey k) r)" us_Id
  by unfold_locales
     (auto simp: user_cached_def rc_GetUser_def rstore.get_put rstore.get_del userCacheKey_def)

lemma user_rows_id: "user_rows db k = Some u \<Longrightarrow> us_Id u = k"
  by (auto simp: user_rows_def dest: find_SomeD)

lemma rc_SetUser_coherent:
  assumes "coherent user_cached rows r" and "rows (us_Id u) = Some u"
  shows "coherent user_cached rows (fst (rc_SetUser x now u r))"
  unfolding rc_SetUser_def
  by (rule io_call_inv [where P = "coherent user_cached rows"]) (simp_all add: assms user_cache.fill_coherent)

section \<open>Inserted accounts\<close>

lemma insert_user_InrD:
  assumes "insert_user now new_id nu db = Inr (db', u)"
  shows "db' = db\<lparr>users_tbl := users_tbl db @ [mk_user now new_id nu]\<rparr>" "u = ur_item (mk_user now new_id nu)"
    "user_row_ok (mk_user now new_id nu)" "new_id \<notin> set (map ur_id (users_tbl db))" "\<not> email_taken (nu_Email nu) db"
  using assms by (auto simp: insert_user_def Let_def user_row_ok_def mk_user_def split: if_splits)

lemma insert_user_wf:
  assumes "pg_wf db" and "insert_user now new_id nu db = Inr (db', u)"
  shows "pg_wf db'"
  using assms(1) insert_user_InrD [OF assms(2)]
  by (auto simp: pg_wf_def users_ok_def reservations_ok_def list_all_iff email_taken_def mk_user_def)

lemma insert_users_InrD:
  assumes "insert_users now ids nus db = Inr (db', created)" and "pg_wf db"
  shows "pg_wf db' \<and> events_tbl db' = events_tbl db \<and> reservations_tbl db' = reservations_tbl db
    \<and> (\<exists>new. users_tbl db' = users_tbl db @ new \<and> created = map ur_id new)"
  using assms
proof (induction nus arbitrary: ids db db' created)
  case (Cons nu nus)
  show ?case
  proof (cases "insert_user now (hd ids) nu db")
    case (Inl e)
    then have "insert_users now (tl ids) nus db = Inr (db', created)"
      using Cons.prems(1) by (cases e) (auto split: if_splits)
    then show ?thesis using Cons.IH Cons.prems(2) by blast
  next
    case (Inr p)
    obtain db1 u where ins: "insert_user now (hd ids) nu db = Inr (db1, u)" using Inr by (cases p) auto
    obtain rest where rest: "insert_users now (tl ids) nus db1 = Inr (db', rest)" "created = us_Id u # rest"
      using Cons.prems(1) ins by (cases "insert_users now (tl ids) nus db1") auto
    obtain new where "users_tbl db' = users_tbl db1 @ new" "rest = map ur_id new"
      using Cons.IH [OF rest(1) insert_user_wf [OF Cons.prems(2) ins]] by blast
    then show ?thesis
      using Cons.IH [OF rest(1) insert_user_wf [OF Cons.prems(2) ins]] insert_user_InrD [OF ins] rest(2)
      by (auto intro!: exI [of _ "mk_user now (hd ids) nu # new"])
  qed
qed simp

text \<open>With fresh ids a skipped row can only be one whose address is taken.\<close>

lemma insert_users_registered:
  assumes "insert_users now ids nus db = Inr (db', created)" and "length ids = length nus" and "distinct ids"
    and "set ids \<inter> set (map ur_id (users_tbl db)) = {}" and "nu \<in> set nus \<or> email_taken (nu_Email nu) db"
  shows "email_taken (nu_Email nu) db'"
  using assms
proof (induction nus arbitrary: ids db created)
  case Nil
  then show ?case by simp
next
  case (Cons n nus)
  obtain i js where ids: "ids = i # js" using Cons.prems(2) by (cases ids) auto
  show ?case
  proof (cases "insert_user now i n db")
    case (Inl e)
    then have "email_taken (nu_Email n) db" "insert_users now js nus db = Inr (db', created)"
      using Cons.prems(1,4) by (auto simp: ids insert_user_def Let_def split: if_splits)
    then show ?thesis using Cons.IH [of js db created] Cons.prems(2-5) ids by auto
  next
    case (Inr p)
    obtain db1 u where ins: "insert_user now i n db = Inr (db1, u)" using Inr by (cases p) auto
    obtain rest where rest: "insert_users now js nus db1 = Inr (db', rest)"
      using Cons.prems(1) ins ids by (cases "insert_users now js nus db1") auto
    note new = insert_user_InrD [OF ins]
    have "email_taken (nu_Email n) db1" "email_taken m db \<Longrightarrow> email_taken m db1" for m
      using new(1) by (auto simp: email_taken_def mk_user_def)
    moreover have "set js \<inter> set (map ur_id (users_tbl db1)) = {}"
      using new(1) Cons.prems(3,4) ids by (auto simp: mk_user_def)
    ultimately show ?thesis using Cons.IH [OF rest] Cons.prems(2,3,5) ids by auto
  qed
qed

lemma pg_CreateUsers_cases:
  obtains (unchanged) "fst (pg_CreateUsers flt now ids us db) = db" "us = [] \<or> isl (snd (pg_CreateUsers flt now ids us db))"
  | (created) new db' where "insert_users now ids us db = Inr (db', new)" "fst (pg_CreateUsers flt now ids us db) = db'"
    "\<And>is. snd (pg_CreateUsers flt now ids us db) = Inr is \<Longrightarrow> is = new"
proof (cases "insert_users now ids us db")
  case (Inl e)
  then show ?thesis by (intro that(1)) (auto simp: pg_CreateUsers_def split: option.splits)
next
  case (Inr p)
  then obtain db' new where ins: "insert_users now ids us db = Inr (db', new)" by (cases p) auto
  show ?thesis
  proof (cases "fst (pg_CreateUsers flt now ids us db) = db \<and> (us = [] \<or> isl (snd (pg_CreateUsers flt now ids us db)))")
    case True
    then show ?thesis by (intro that(1)) auto
  next
    case False
    then have "fst (pg_CreateUsers flt now ids us db) = db'
        \<and> (\<forall>is. snd (pg_CreateUsers flt now ids us db) = Inr is \<longrightarrow> is = new)"
      using ins by (cases "flt CE_Commit") (auto simp: pg_CreateUsers_def split: option.splits if_splits)
    then show ?thesis by (intro that(2) [OF ins]) auto
  qed
qed

section \<open>Properties\<close>

text \<open>
  One account per address. \<open>CreateUser\<close> on a database that satisfies the schema either adds
  exactly the requested account, and then nobody had an address that differs from the new one
  only in letter case, or leaves the table alone; it answers \<open>ErrUserEmailTaken\<close> exactly when the
  request is well-formed and the address (or, never in practice, the drawn id) is taken; and
  the constraints still hold.
\<close>

lemma CreateUser_unique_address:
  assumes wf: "pg_wf db" and run: "pg_CreateUser Done now new_id name email hash db = (db', res)"
  shows "pg_wf db'
    \<and> (case res of
         Inr u \<Rightarrow> \<not> email_taken email db \<and> us_Name u = name \<and> us_Email u = email \<and> us_Id u = new_id
           \<and> users_tbl db' = users_tbl db @ [\<lparr>ur_item = u, ur_password_hash = hash\<rparr>]
       | Inl e \<Rightarrow> db' = db \<and> (e = ErrUserEmailTaken) =
           (name_not_blank name \<and> email_format email \<and> (email_taken email db \<or> new_id \<in> set (map ur_id (users_tbl db)))))"
proof -
  let ?nu = "\<lparr>nu_Name = name, nu_Email = email, nu_PasswordHash = hash\<rparr>"
  show ?thesis
  proof (cases "insert_user now new_id ?nu db")
    case (Inl e)
    then show ?thesis using wf run
      by (auto simp: pg_CreateUser_def insert_user_def uniqueViolationCode_def Let_def split: if_splits)
  next
    case (Inr p)
    then obtain db1 u where ins: "insert_user now new_id ?nu db = Inr (db1, u)" by (cases p) auto
    then have "db' = db1" "res = Inr u" using run by (auto simp: pg_CreateUser_def)
    then show ?thesis using insert_user_wf [OF wf ins] insert_user_InrD [OF ins] by (simp add: mk_user_def)
  qed
qed

text \<open>
  Bulk creation registers every address once. Whatever fails, the table is as before or has
  new accounts at its end and the schema's constraints hold; when the call answers, the ids it
  returns are those of the new accounts, and every requested address is registered.
\<close>

lemma CreateUsers_registers_all:
  assumes wf: "pg_wf db" and ids: "length ids = length us" "distinct ids" "set ids \<inter> set (map ur_id (users_tbl db)) = {}"
    and run: "pg_CreateUsers flt now ids us db = (db', res)"
  shows "pg_wf db' \<and> (\<exists>new. users_tbl db' = users_tbl db @ new
      \<and> events_tbl db' = events_tbl db \<and> reservations_tbl db' = reservations_tbl db
      \<and> (\<forall>is. res = Inr is \<longrightarrow> is = map ur_id new \<and> (\<forall>nu \<in> set us. email_taken (nu_Email nu) db')))"
proof (cases rule: pg_CreateUsers_cases [of flt now ids us db])
  case unchanged
  then have "db' = db" "us = [] \<or> isl res" using run by auto
  moreover have "res = Inr []" if "us = []" using run that by (auto simp: pg_CreateUsers_def)
  ultimately show ?thesis using wf by (auto intro!: exI [of _ "[]"])
next
  case (created new db1)
  have db: "db1 = db'" using created(2) run by simp
  note ins = insert_users_InrD [OF created(1) wf]
  then obtain rows where rows: "users_tbl db1 = users_tbl db @ rows" "new = map ur_id rows" by blast
  have "email_taken (nu_Email nu) db1" if "nu \<in> set us" for nu
    by (rule insert_users_registered [OF created(1) ids]) (use that in blast)
  then show ?thesis using ins rows created(3) run db by (auto intro!: exI [of _ rows])
qed

text \<open>
  Reading a user through the cache gives the row, for any outcome of the two Redis calls, and
  every call keeps the cache coherent, whatever fails.
\<close>

lemma GetUser_reads_through:
  assumes coh: "coherent user_cached (user_rows db) r" and flt: "flt GU_Query = Done"
  shows "snd (repo_GetUser flt now k db r) = (case user_rows db k of None \<Rightarrow> Inl ErrUserNotFound | Some u \<Rightarrow> Inr u)
    \<and> coherent user_cached (user_rows db) (fst (repo_GetUser flt' now k db r))"
proof -
  have query: "pg_GetUser Done k db = (case user_rows db k of None \<Rightarrow> Inl ErrUserNotFound | Some u \<Rightarrow> Inr u)"
    by (simp add: pg_GetUser_def user_rows_def split: option.splits)
  have "snd (repo_GetUser flt now k db r) = (case user_rows db k of None \<Rightarrow> Inl ErrUserNotFound | Some u \<Rightarrow> Inr u)"
  proof (cases "rc_GetUser (flt GU_Cache) now k r")
    case (Inr u)
    then have "user_cached now k r = Some u" by (cases "flt GU_Cache") (auto simp: rc_GetUser_def user_cached_def)
    then have "user_rows db k = Some u" by (rule user_cache.hit_coherent [OF coh])
    then show ?thesis by (simp add: repo_GetUser_def Inr)
  next
    case (Inl e)
    then show ?thesis by (simp add: repo_GetUser_def flt query split: option.splits)
  qed
  moreover have "coherent user_cached (user_rows db) (fst (repo_GetUser flt' now k db r))"
  proof (cases "pg_GetUser (flt' GU_Query) k db")
    case (Inr u)
    then have "user_rows db k = Some u" by (auto simp: pg_GetUser_def user_rows_def split: option.splits)
    then have "coherent user_cached (user_rows db) (fst (rc_SetUser (flt' GU_Fill) now u r))"
      using rc_SetUser_coherent [OF coh] user_rows_id by metis
    then show ?thesis using coh Inr by (simp add: repo_GetUser_def split: sum.splits)
  qed (use coh in \<open>simp add: repo_GetUser_def split: sum.splits\<close>)
  ultimately show ?thesis by blast
qed

text \<open>What the repository finds is in the table, if the cache agrees with it.\<close>

lemma GetUser_coherent_row:
  assumes "coherent user_cached (user_rows db) r" and "repo_GetUser flt now u db r = (r', Inr item)"
  shows "user_rows db u = Some item"
proof (cases "rc_GetUser (flt GU_Cache) now u r")
  case (Inr item')
  then have "item' = item" using assms(2) by (simp add: repo_GetUser_def)
  then have "user_cached now u r = Some item"
    using Inr by (cases "flt GU_Cache") (auto simp: rc_GetUser_def user_cached_def)
  then show ?thesis by (rule user_cache.hit_coherent [OF assms(1)])
next
  case (Inl err)
  then have "pg_GetUser (flt GU_Query) u db = Inr item"
    using assms(2) by (auto simp: repo_GetUser_def split: sum.splits)
  then show ?thesis by (auto simp: pg_GetUser_def user_rows_def split: option.splits)
qed

end
