(* ===== verification/Services.thy ===== *)
theory Services
  imports ReservationRepo VirtualQueue Users
begin

text \<open>
  \<open>src/backend/service/reservations\<close> and \<open>src/backend/service/virtualqueues\<close>: the use cases that
  put the repositories together. A request reads its clocks once; every call it makes has its
  own outcome.
\<close>

section \<open>ReservationService\<close>

record ReserveEventRequest =
  rer_EventId :: string
  rer_UserId :: string
  rer_Quantity :: u32
  rer_IdempotencyKey :: "string option"

datatype svc_call = SV_IsBlock | SV_Lookup lookup_call | SV_SlotTTL | SV_GetEvent get_event_call
  | SV_Reserve reserve_call | SV_Block | SV_CacheKey | SV_FreeSlot | SV_AdmitNext

definition releaseQueueSlot ::
  "VirtualQueueRepository \<Rightarrow> (svc_call \<Rightarrow> io) \<Rightarrow> clocks \<Rightarrow> string \<Rightarrow> string \<Rightarrow> 'l sys \<Rightarrow> 'l sys" where
  "releaseQueueSlot repo flt c eventId userId s =
     (let r1 = fst (vqDeleteWhitelistedUserTTL (flt SV_FreeSlot) (c_redis c) eventId userId (sys_redis s));
          r2 = fst (vqTryWhitelistEventQueue repo (flt SV_AdmitNext) (c_redis c) eventId 1 r1)
      in s\<lparr>sys_redis := r2\<rparr>)"

text \<open>The part of \<open>ReserveEvent\<close> after the admission check.\<close>

definition reserve_admitted ::
  "'l lru_ops \<Rightarrow> VirtualQueueRepository \<Rightarrow> (svc_call \<Rightarrow> io) \<Rightarrow> clocks \<Rightarrow> string \<Rightarrow> ReserveEventRequest \<Rightarrow> EventItem \<Rightarrow> 'l sys
    \<Rightarrow> 'l sys \<times> ReservationItem result" where
  "reserve_admitted L repo flt c new_id request event s =
     (let (s1, isCapped, res) = repo_ReserveEvent (\<lambda>x. flt (SV_Reserve x)) c new_id (rer_EventId request)
            (rer_UserId request) (rer_Quantity request) (rer_IdempotencyKey request) (ev_MaxReservePerUser event) s;
          s2 = (if isCapped then fst (repo_BlockEvent L (flt SV_Block) c (rer_EventId request) s1) else s1)
      in case res of
           Inl e \<Rightarrow>
             (if e = ErrInsufficientCapacity \<or> e = ErrExceedMaxReserveQuantity
              then releaseQueueSlot repo flt c (rer_EventId request) (rer_UserId request) s2 else s2, Inl e)
         | Inr reservationItem \<Rightarrow>
             let s3 = (case res_IdempotencyKey reservationItem of
                         None \<Rightarrow> s2
                       | Some key \<Rightarrow> fst (repo_SetReservationByIdempotencyKey (flt SV_CacheKey) c (rer_EventId request)
                                            (rer_UserId request) key reservationItem s2))
             in (releaseQueueSlot repo flt c (rer_EventId request) (rer_UserId request) s3, Inr reservationItem))"

text \<open>
  The lookup of an earlier answer: \<open>None\<close> when the request goes on, else what it is answered with.
\<close>

definition replay_answer ::
  "(svc_call \<Rightarrow> io) \<Rightarrow> clocks \<Rightarrow> ReserveEventRequest \<Rightarrow> 'l sys \<Rightarrow> ReservationItem result option" where
  "replay_answer flt c request s =
     (case rer_IdempotencyKey request of
        None \<Rightarrow> None
      | Some key \<Rightarrow>
          (case repo_GetReservationByIdempotencyKey (\<lambda>x. flt (SV_Lookup x)) c (rer_EventId request) (rer_UserId request) key s of
             Inl e \<Rightarrow> if e = ErrReservationNotFound then None else Some (Inl e)
           | Inr cached \<Rightarrow>
               Some (if res_Quantity cached \<noteq> rer_Quantity request then Inl ErrIdempotencyKeyReused else Inr cached)))"

definition svc_ReserveEvent ::
  "'l lru_ops \<Rightarrow> VirtualQueueRepository \<Rightarrow> (svc_call \<Rightarrow> io) \<Rightarrow> clocks \<Rightarrow> nat \<Rightarrow> bool \<Rightarrow> go_error option \<Rightarrow> string
    \<Rightarrow> ReserveEventRequest \<Rightarrow> 'l sys \<Rightarrow> 'l sys \<times> ReservationItem result" where
  "svc_ReserveEvent L repo flt c rnd deadline gone new_id request s0 =
     (let (s, isBlockEvent) = repo_IsBlockEvent L (flt SV_IsBlock) c (rer_EventId request) s0
      in if isBlockEvent
         then (releaseQueueSlot repo flt c (rer_EventId request) (rer_UserId request) s, Inl ErrInsufficientCapacity)
         else
      (case replay_answer flt c request s of
         Some res \<Rightarrow> (s, res)
       | None \<Rightarrow>
      (case vqGetWhitelistedUserTTL (flt SV_SlotTTL) (c_redis c) (rer_EventId request) (rer_UserId request) (sys_redis s) of
         Inl e \<Rightarrow> (s, Inl e)
       | Inr whitelistTTL \<Rightarrow>
           if whitelistTTL \<le> 0 then (s, Inl ErrQueueInProgress)
           else
             (case repo_GetEvent (\<lambda>x. flt (SV_GetEvent x)) (c_redis c) rnd deadline gone (rer_EventId request) (sys_db s) (sys_redis s) of
                (r', Inl e) \<Rightarrow> (s\<lparr>sys_redis := r'\<rparr>, Inl e)
              | (r', Inr event) \<Rightarrow> reserve_admitted L repo flt c new_id request event (s\<lparr>sys_redis := r'\<rparr>)))))"

datatype confirm_call = CF_Update update_call | CF_Get

definition svc_ConfirmReservation ::
  "(confirm_call \<Rightarrow> io) \<Rightarrow> clocks \<Rightarrow> string \<Rightarrow> string \<Rightarrow> 'l sys \<Rightarrow> 'l sys \<times> unit result" where
  "svc_ConfirmReservation flt c userId reservationId s =
     (case repo_ConfirmReservation (\<lambda>x. flt (CF_Update x)) c userId reservationId s of
        (s', Inr u) \<Rightarrow> (s', Inr u)
      | (s', Inl e) \<Rightarrow>
          (s', if e = ErrReservationNotFound
               then (case pg_GetReservation (flt CF_Get) reservationId (sys_db s') of
                       Inr res \<Rightarrow> if res_UserId res = userId \<and> res_Status res = StatusConfirmed then Inr () else Inl e
                     | Inl _ \<Rightarrow> Inl e)
               else Inl e))"

definition svc_ReleaseReservation ::
  "'l lru_ops \<Rightarrow> (release_call \<Rightarrow> io) \<Rightarrow> clocks \<Rightarrow> string \<Rightarrow> string \<Rightarrow> 'l sys \<Rightarrow> 'l sys \<times> unit result" where
  "svc_ReleaseReservation L flt c userId reservationId s = repo_ReleaseReservation L flt c userId reservationId s"

definition svc_GetReservation :: "io \<Rightarrow> string \<Rightarrow> 'l sys \<Rightarrow> ReservationItem result" where
  "svc_GetReservation x rid s = pg_GetReservation x rid (sys_db s)"

section \<open>VirtualQueueService\<close>

record QueueStatus =
  qs_WhitelistTTL :: duration
  qs_Alive :: bool
  qs_SoldOut :: bool

datatype queue_call = QC_Ping | QC_IsBlock | QC_Ttl1 | QC_Enqueue enqueue_call | QC_Admit | QC_Ttl2 | QC_Dequeue

definition svc_Ping ::
  "'l lru_ops \<Rightarrow> VirtualQueueRepository \<Rightarrow> (queue_call \<Rightarrow> io) \<Rightarrow> clocks \<Rightarrow> string \<Rightarrow> string \<Rightarrow> 'l sys
    \<Rightarrow> 'l sys \<times> QueueStatus result" where
  "svc_Ping L repo flt c eventId userId s =
     (case vqPing repo (flt QC_Ping) (c_redis c) eventId userId (sys_redis s) of
        (r', Inl e) \<Rightarrow> (s\<lparr>sys_redis := r'\<rparr>, Inl e)
      | (r', Inr (whitelistTTL, alive)) \<Rightarrow>
          let (s', soldOut) = repo_IsBlockEvent L (flt QC_IsBlock) c eventId (s\<lparr>sys_redis := r'\<rparr>)
          in (s', Inr \<lparr>qs_WhitelistTTL = whitelistTTL, qs_Alive = alive, qs_SoldOut = soldOut\<rparr>))"

definition svc_Enqueue ::
  "VirtualQueueRepository \<Rightarrow> (queue_call \<Rightarrow> io) \<Rightarrow> clocks \<Rightarrow> string \<Rightarrow> string \<Rightarrow> 'l sys \<Rightarrow> 'l sys \<times> duration result" where
  "svc_Enqueue repo flt c eventId userId s =
     (case vqGetWhitelistedUserTTL (flt QC_Ttl1) (c_redis c) eventId userId (sys_redis s) of
        Inl e \<Rightarrow> (s, Inl e)
      | Inr whitelistTTL \<Rightarrow>
          if 0 < whitelistTTL then (s, Inr whitelistTTL)
          else
            (case vqEnqueue repo (\<lambda>x. flt (QC_Enqueue x)) (c_wall c) (c_redis c) eventId userId (sys_redis s) of
               (r1, Inl e) \<Rightarrow> (s\<lparr>sys_redis := r1\<rparr>, Inl e)
             | (r1, Inr _) \<Rightarrow>
                 (case vqTryWhitelistEventQueue repo (flt QC_Admit) (c_redis c) eventId 1 r1 of
                    (r2, Inl e) \<Rightarrow> (s\<lparr>sys_redis := r2\<rparr>, Inl e)
                  | (r2, Inr _) \<Rightarrow>
                      (s\<lparr>sys_redis := r2\<rparr>,
                       case vqGetWhitelistedUserTTL (flt QC_Ttl2) (c_redis c) eventId userId r2 of
                         Inl e \<Rightarrow> Inl e
                       | Inr ttl \<Rightarrow> if ttl \<le> 0 then Inr 0 else Inr ttl))))"

definition svc_Dequeue ::
  "VirtualQueueRepository \<Rightarrow> (queue_call \<Rightarrow> io) \<Rightarrow> clocks \<Rightarrow> string \<Rightarrow> string \<Rightarrow> 'l sys \<Rightarrow> 'l sys \<times> unit result" where
  "svc_Dequeue repo flt c eventId userId s =
     (case vqDequeue (flt QC_Dequeue) (c_redis c) eventId userId (sys_redis s) of
        (r1, Inl e) \<Rightarrow> (s\<lparr>sys_redis := r1\<rparr>, Inl e)
      | (r1, Inr (_, releasedSlot)) \<Rightarrow>
          (s\<lparr>sys_redis := (if releasedSlot then fst (vqTryWhitelistEventQueue repo (flt QC_Admit) (c_redis c) eventId 1 r1) else r1)\<rparr>,
           Inr ()))"

definition svc_GetTotalVirtualQueue :: "io \<Rightarrow> string \<Rightarrow> 'l sys \<Rightarrow> nat result" where
  "svc_GetTotalVirtualQueue x eventId s = vqGetTotalVirtualQueue x eventId (sys_redis s)"

section \<open>What each use case does to the database\<close>

lemma releaseQueueSlot_frame [simp]:
  "sys_db (releaseQueueSlot repo flt c e u s) = sys_db s" "sys_lru (releaseQueueSlot repo flt c e u s) = sys_lru s"
  by (simp_all add: releaseQueueSlot_def Let_def)

lemma repo_SetReservation_frame [simp]:
  "sys_db (fst (repo_SetReservationByIdempotencyKey x c e u k it s)) = sys_db s"
  "sys_lru (fst (repo_SetReservationByIdempotencyKey x c e u k it s)) = sys_lru s"
  by (simp_all add: repo_SetReservationByIdempotencyKey_def split: prod.splits)

lemma reserve_admitted_db:
  "sys_db (fst (reserve_admitted L repo flt c new_id req ev s)) =
   fst (pg_ReserveEvent (\<lambda>x. flt (SV_Reserve x)) (c_pg c) (c_wall c) new_id (rer_EventId req) (rer_UserId req)
          (rer_Quantity req) (rer_IdempotencyKey req) (sys_db s))"
proof -
  obtain db' b res where out: "pg_ReserveEvent (\<lambda>x. flt (SV_Reserve x)) (c_pg c) (c_wall c) new_id (rer_EventId req) (rer_UserId req)
      (rer_Quantity req) (rer_IdempotencyKey req) (sys_db s) = (db', b, res)" by (metis prod_cases3)
  show ?thesis
    by (cases res; cases b) (simp_all add: reserve_admitted_def repo_ReserveEvent_def out Let_def split: option.splits)
qed

text \<open>The paths of a reserve request, in the order of the code.\<close>

lemma svc_ReserveEvent_cases:
  fixes L repo flt c rnd deadline gone new_id req s
  defines "s1 \<equiv> fst (repo_IsBlockEvent L (flt SV_IsBlock) c (rer_EventId req) s)"
    and "out \<equiv> svc_ReserveEvent L repo flt c rnd deadline gone new_id req s"
  obtains (blocked) "snd (repo_IsBlockEvent L (flt SV_IsBlock) c (rer_EventId req) s)"
      "out = (releaseQueueSlot repo flt c (rer_EventId req) (rer_UserId req) s1, Inl ErrInsufficientCapacity)"
  | (replayed) res where "\<not> snd (repo_IsBlockEvent L (flt SV_IsBlock) c (rer_EventId req) s)"
      "replay_answer flt c req s1 = Some res" "out = (s1, res)"
  | (queue_down) e where "\<not> snd (repo_IsBlockEvent L (flt SV_IsBlock) c (rer_EventId req) s)" "replay_answer flt c req s1 = None"
      "io_err (flt SV_SlotTTL) = Some e" "out = (s1, Inl e)"
  | (not_admitted) "\<not> snd (repo_IsBlockEvent L (flt SV_IsBlock) c (rer_EventId req) s)" "replay_answer flt c req s1 = None"
      "slot (c_redis c) (rer_EventId req) (rer_UserId req) (sys_redis s) = None
       \<or> (\<exists>v. slot (c_redis c) (rer_EventId req) (rer_UserId req) (sys_redis s) = Some (v, None))"
      "out = (s1, Inl ErrQueueInProgress)"
  | (no_event) r' e where "\<not> snd (repo_IsBlockEvent L (flt SV_IsBlock) c (rer_EventId req) s)" "replay_answer flt c req s1 = None"
      "repo_GetEvent (\<lambda>x. flt (SV_GetEvent x)) (c_redis c) rnd deadline gone (rer_EventId req) (sys_db s) (sys_redis s) = (r', Inl e)"
      "out = (s1\<lparr>sys_redis := r'\<rparr>, Inl e)"
  | (admitted) r' ev v d where "\<not> snd (repo_IsBlockEvent L (flt SV_IsBlock) c (rer_EventId req) s)"
      "replay_answer flt c req s1 = None"
      "slot (c_redis c) (rer_EventId req) (rer_UserId req) (sys_redis s) = Some (v, Some d)"
      "repo_GetEvent (\<lambda>x. flt (SV_GetEvent x)) (c_redis c) rnd deadline gone (rer_EventId req) (sys_db s) (sys_redis s) = (r', Inr ev)"
      "out = reserve_admitted L repo flt c new_id req ev (s1\<lparr>sys_redis := r'\<rparr>)"
proof -
  let ?e = "rer_EventId req" and ?u = "rer_UserId req"
  have s1: "sys_db s1 = sys_db s" "sys_redis s1 = sys_redis s" by (simp_all add: s1_def)
  note out = out_def [unfolded svc_ReserveEvent_def Let_def split_beta, folded s1_def, unfolded s1]
  show thesis
  proof (cases "snd (repo_IsBlockEvent L (flt SV_IsBlock) c ?e s)")
    case True
    then show thesis by (intro blocked) (simp_all add: out)
  next
    case open_event: False
    show thesis
    proof (cases "replay_answer flt c req s1")
      case (Some res)
      then show thesis using open_event by (intro replayed) (simp_all add: out)
    next
      case None
      show thesis
      proof (cases "io_err (flt SV_SlotTTL)")
        case (Some e)
        then show thesis using open_event None
          by (intro queue_down) (simp_all add: out vqGetWhitelistedUserTTL_def io_read_def)
      next
        case up: None
        let ?ttl = "hd (rhttl (c_redis c) (getEventWhitelisKey ?e) ?u (sys_redis s))"
        have ttl: "vqGetWhitelistedUserTTL (flt SV_SlotTTL) (c_redis c) ?e ?u (sys_redis s) = Inr (?ttl * Second)"
          using up by (simp add: vqGetWhitelistedUserTTL_def io_read_def rhttl_def)
        show thesis
        proof (cases "0 < ?ttl")
          case False
          then have "slot (c_redis c) ?e ?u (sys_redis s) = None \<or> (\<exists>v. slot (c_redis c) ?e ?u (sys_redis s) = Some (v, None))"
            by (metis option.exhaust rhttl_pos_iff surj_pair)
          then show thesis using False open_event None ttl by (intro not_admitted) (simp_all add: out)
        next
          case True
          then obtain v d where sl: "slot (c_redis c) ?e ?u (sys_redis s) = Some (v, Some d)" by (auto simp: rhttl_pos_iff)
          obtain r' res where ev: "repo_GetEvent (\<lambda>x. flt (SV_GetEvent x)) (c_redis c) rnd deadline gone ?e (sys_db s) (sys_redis s) = (r', res)"
            by (rule prod.exhaust)
          show thesis
          proof (cases res)
            case (Inl e)
            then show thesis using True open_event None ttl ev by (intro no_event [of r' e]) (simp_all add: out)
          next
            case (Inr x)
            then show thesis using True open_event None ttl ev sl by (intro admitted [of v d r' x]) (simp_all add: out)
          qed
        qed
      qed
    qed
  qed
qed

lemma svc_ReserveEvent_db:
  obtains (untouched) "sys_db (fst (svc_ReserveEvent L repo flt c rnd deadline gone new_id req s)) = sys_db s"
  | (reserved) v d where "slot (c_redis c) (rer_EventId req) (rer_UserId req) (sys_redis s) = Some (v, Some d)"
      "sys_db (fst (svc_ReserveEvent L repo flt c rnd deadline gone new_id req s)) =
       fst (pg_ReserveEvent (\<lambda>x. flt (SV_Reserve x)) (c_pg c) (c_wall c) new_id (rer_EventId req) (rer_UserId req)
              (rer_Quantity req) (rer_IdempotencyKey req) (sys_db s))"
proof (cases rule: svc_ReserveEvent_cases [of L flt c req s repo rnd deadline gone new_id])
  case (admitted r' ev v d)
  then show thesis by (intro that(2)) (simp_all add: reserve_admitted_db)
qed (rule that(1), simp)+

lemma svc_Confirm_db:
  "sys_db (fst (svc_ConfirmReservation flt c u rid s)) =
   fst (pg_UpdateReservation (\<lambda>x. flt (CF_Update x)) (c_pg c) (c_wall c) u rid StatusConfirmed (sys_db s))"
  by (simp add: svc_ConfirmReservation_def repo_ConfirmReservation_def split: prod.splits sum.splits)

lemma svc_Release_db:
  "sys_db (fst (svc_ReleaseReservation L flt c u rid s)) =
   fst (pg_UpdateReservation (\<lambda>x. flt (RL_Update x)) (c_pg c) (c_wall c) u rid StatusReleased (sys_db s))"
  by (simp add: svc_ReleaseReservation_def repo_ReleaseReservation_def split: prod.splits sum.splits)

lemma fold_unblock_db: "sys_db (fold (\<lambda>e s. fst (repo_UnblockEvent L (flt e) c e s)) es s) = sys_db s"
  by (induction es arbitrary: s) auto

lemma repo_RefreshEventStatus_db:
  "sys_db (fst (repo_RefreshEventStatus L flt c c' c'' deadline token s)) = sys_db s
   \<or> sys_db (fst (repo_RefreshEventStatus L flt c c' c'' deadline token s)) = fst (pg_RefreshEventStatus (flt RS_Sweep) (c_pg c') (sys_db s))"
  by (simp add: repo_RefreshEventStatus_def Let_def fold_unblock_db split: prod.splits sum.splits)

section \<open>The service as a state machine\<close>

text \<open>
  One use case at a time, at the database's clock, with any faults, from any replica. \<open>caches\<close>
  stands for everything that changes only Redis and the local LRU: queue operations, another
  replica's flags, expiry, a flushed Redis, a restarted process.
\<close>

inductive svc_step :: "'l lru_ops \<Rightarrow> VirtualQueueRepository \<Rightarrow> time \<times> 'l sys \<Rightarrow> time \<times> 'l sys \<Rightarrow> bool" for L repo where
  tick: "t \<le> t' \<Longrightarrow> svc_step L repo (t, s) (t', s)"
| caches: "svc_step L repo (t, s) (t, s\<lparr>sys_redis := r, sys_lru := l\<rparr>)"
| reserve: "c_pg c = t \<Longrightarrow> svc_step L repo (t, s) (t, fst (svc_ReserveEvent L repo flt c rnd deadline gone new_id req s))"
| confirm: "c_pg c = t \<Longrightarrow> svc_step L repo (t, s) (t, fst (svc_ConfirmReservation cflt c u rid s))"
| release: "c_pg c = t \<Longrightarrow> svc_step L repo (t, s) (t, fst (svc_ReleaseReservation L rflt c u rid s))"
| refresh: "c_pg c' = t \<Longrightarrow> svc_step L repo (t, s) (t, fst (repo_RefreshEventStatus L sflt c c' c'' dl token s))"

text \<open>Every use case is at most one transaction of the reservation store.\<close>

lemma svc_step_simulated:
  assumes "svc_step L repo (t, s) (t', s')"
  shows "store_step\<^sup>*\<^sup>* (t, sys_db s) (t', sys_db s')"
  using assms
proof (cases rule: svc_step.cases)
  case tick
  then show ?thesis by (auto intro: store_step.tick)
next
  case caches
  then show ?thesis by simp
next
  case (reserve c flt rnd deadline gone new_id req)
  show ?thesis
    by (cases rule: svc_ReserveEvent_db [of L repo flt c rnd deadline gone new_id req s])
       (use reserve store_step.reserve in auto)
next
  case (confirm c cflt u rid)
  then show ?thesis using store_step.update by (auto simp: svc_Confirm_db)
next
  case (release c rflt u rid)
  then show ?thesis using store_step.update by (auto simp: svc_Release_db)
next
  case (refresh c' sflt c c'' dl token)
  then show ?thesis using repo_RefreshEventStatus_db [of L sflt c c' c'' dl token s] store_step.sweep by auto
qed

lemma svc_step_inv: "svc_step L repo s s' \<Longrightarrow> store_inv (fst s, sys_db (snd s)) \<Longrightarrow> store_inv (fst s', sys_db (snd s'))"
  using svc_step_simulated [of L repo "fst s" "snd s" "fst s'" "snd s'"] by (auto intro: store.steps_inv)

interpretation service: inductive_invariant "\<lambda>s. store_inv (fst s, sys_db (snd s))" "svc_step L repo"
  "\<lambda>s. store_inv (fst s, sys_db (snd s))" for L repo
  by unfold_locales (auto intro: svc_step_inv)

section \<open>What a reserve request does to the queue\<close>

lemma BlockEvent_queue [simp]:
  "r_hashes (sys_redis (fst (repo_BlockEvent L x c e s))) = r_hashes (sys_redis s)"
  "r_zsets (sys_redis (fst (repo_BlockEvent L x c e s))) = r_zsets (sys_redis s)"
  by (cases x; simp add: repo_BlockEvent_def rc_BlockEvent_def split_beta)+

lemma SetReservation_queue [simp]:
  "r_hashes (sys_redis (fst (repo_SetReservationByIdempotencyKey x c e u k it s))) = r_hashes (sys_redis s)"
  "r_zsets (sys_redis (fst (repo_SetReservationByIdempotencyKey x c e u k it s))) = r_zsets (sys_redis s)"
  by (cases x; simp add: repo_SetReservationByIdempotencyKey_def rc_SetReservationByIdempotencyKey_def split_beta)+

lemma repo_GetEvent_queue:
  "r_hashes (fst (repo_GetEvent flt now rnd deadline gone k db r)) = r_hashes r"
  "r_zsets (fst (repo_GetEvent flt now rnd deadline gone k db r)) = r_zsets r"
  by (cases "flt GE_Fill"; simp add: repo_GetEvent_def rc_SetCache_def Let_def split: sum.splits)+

lemma releaseQueueSlot_slot:
  assumes "flt SV_FreeSlot = Done" "flt SV_AdmitNext = Done"
    and "distinct (waiting (getEventVirtualQueueKey e) (sys_redis s))" "u \<notin> set (waiting (getEventVirtualQueueKey e) (sys_redis s))"
  shows "slot t e u (sys_redis (releaseQueueSlot repo flt c e u s)) = None"
  using redis_gate.given_back [OF assms(3,4), where t = t and repo = repo and now = "c_redis c"] assms(1,2)
  by (simp add: releaseQueueSlot_def Let_def del: not_None_eq)

abbreviation definitive :: "ReservationItem result \<Rightarrow> bool" where
  "definitive res \<equiv> \<not> isl res \<or> res = Inl ErrInsufficientCapacity \<or> res = Inl ErrExceedMaxReserveQuantity"

lemma reserve_admitted_slot:
  assumes flt: "flt SV_FreeSlot = Done" "flt SV_AdmitNext = Done"
    and line: "distinct (waiting (getEventVirtualQueueKey (rer_EventId req)) (sys_redis s))"
      "rer_UserId req \<notin> set (waiting (getEventVirtualQueueKey (rer_EventId req)) (sys_redis s))"
    and out: "reserve_admitted L repo flt c new_id req ev s = (s', res)"
  shows "slot t (rer_EventId req) (rer_UserId req) (sys_redis s') =
    (if definitive res then None else slot t (rer_EventId req) (rer_UserId req) (sys_redis s))"
proof -
  obtain db' b res' where pg: "pg_ReserveEvent (\<lambda>x. flt (SV_Reserve x)) (c_pg c) (c_wall c) new_id (rer_EventId req) (rer_UserId req)
      (rer_Quantity req) (rer_IdempotencyKey req) (sys_db s) = (db', b, res')" by (metis prod_cases3)
  define s2 where "s2 = (if b then fst (repo_BlockEvent L (flt SV_Block) c (rer_EventId req) (s\<lparr>sys_db := db'\<rparr>)) else s\<lparr>sys_db := db'\<rparr>)"
  have s2: "r_hashes (sys_redis s2) = r_hashes (sys_redis s)" "r_zsets (sys_redis s2) = r_zsets (sys_redis s)"
    by (simp_all add: s2_def)
  note run = out [unfolded reserve_admitted_def repo_ReserveEvent_def pg Let_def prod.case, folded s2_def]
  note freed = releaseQueueSlot_slot [OF flt]
  show ?thesis
  proof (cases res')
    case (Inl e)
    then show ?thesis using run freed [where e = "rer_EventId req" and u = "rer_UserId req" and s = s2] line s2 by (auto split: if_splits)
  next
    case (Inr it)
    then show ?thesis using run line s2 by (cases "res_IdempotencyKey it") (auto intro!: freed)
  qed
qed

section \<open>Properties\<close>

definition demo_sys :: "ReservationItem list \<Rightarrow> cache \<Rightarrow> (string \<Rightarrow> time option) \<Rightarrow> (string \<Rightarrow> time option) sys" where
  "demo_sys rs r l = \<lparr>sys_db = demo_db\<lparr>reservations_tbl := rs\<rparr>, sys_redis = r, sys_lru = l\<rparr>"

definition demo_clock :: clocks where
  "demo_clock = \<lparr>c_wall = 5, c_redis = 5, c_pg = 5\<rparr>"

lemma demo_sys_simps [simp]:
  "sys_db (demo_sys rs r l) = demo_db\<lparr>reservations_tbl := rs\<rparr>" "sys_redis (demo_sys rs r l) = r" "sys_lru (demo_sys rs r l) = l"
  by (simp_all add: demo_sys_def)

text \<open>
  The whole service never oversells. Reserve, confirm, release and sweep requests through the
  service, in any order and with any faults, while the queue, the caches and the flags in Redis
  and in every process change arbitrarily (flushed, stale or wrong), keep every event within its
  capacity and every user within the quota.
\<close>

lemma service_never_oversells:
  assumes "pg_wf (sys_db s)" and "within_capacity t (sys_db s)" and "within_quota t (sys_db s)"
    and "(svc_step L repo)\<^sup>*\<^sup>* (t, s) (t', s')"
  shows "within_capacity t' (sys_db s') \<and> within_quota t' (sys_db s')"
  using service.steps_inv [OF assms(4)] assms(1-3) by (simp add: store_inv_def)

text \<open>
  C21: nobody reserves past the queue. A request of a user without an admission slot leaves the
  database as it is, and is answered with a reservation only when it replays an earlier answer.
\<close>

theorem ReserveEvent_needs_slot:
  assumes "slot (c_redis c) (rer_EventId req) (rer_UserId req) (sys_redis s) = None"
    and "svc_ReserveEvent L repo flt c rnd deadline gone new_id req s = (s', res)"
  shows "sys_db s' = sys_db s
    \<and> (\<forall>r. res = Inr r \<longrightarrow>
        replay_answer flt c req (fst (repo_IsBlockEvent L (flt SV_IsBlock) c (rer_EventId req) s)) = Some (Inr r))"
proof (cases rule: svc_ReserveEvent_cases [of L flt c req s repo rnd deadline gone new_id])
  case (admitted r' ev v d)
  then show ?thesis using assms(1) by simp
qed (use assms(2) in auto)

theorem ReserveEvent_needs_slot_witness:
  "sys_db (fst (svc_ReserveEvent (table_lru lruBlockTTL) demo_repo (\<lambda>_. Done) demo_clock 0 True None ''r1''
      \<lparr>rer_EventId = ''e1'', rer_UserId = ''u1'', rer_Quantity = 1, rer_IdempotencyKey = None\<rparr>
      (demo_sys [] empty_redis (\<lambda>_. None)))) = demo_db\<lparr>reservations_tbl := []\<rparr>"
proof -
  obtain s' res where run: "svc_ReserveEvent (table_lru lruBlockTTL) demo_repo (\<lambda>_. Done) demo_clock 0 True None ''r1''
      \<lparr>rer_EventId = ''e1'', rer_UserId = ''u1'', rer_Quantity = 1, rer_IdempotencyKey = None\<rparr>
      (demo_sys [] empty_redis (\<lambda>_. None)) = (s', res)" by (rule prod.exhaust)
  show ?thesis unfolding run using ReserveEvent_needs_slot [OF _ run] by (simp add: empty_redis_def hfind_def)
qed

text \<open>
  C22: what becomes of the slot. When the queue's Redis calls and the event's query work, a request
  of a user who is not also waiting in line gives the slot back exactly when it is decided: when
  the event is flagged as sold out, and, for a request that is not a replay, on success and on a
  refusal for capacity or quota; whatever happens to the reserve transaction and to the caches.
  On every other answer, a replay included, the user keeps the slot.
\<close>

theorem ReserveEvent_slot_fate:
  assumes flt: "flt SV_FreeSlot = Done" "flt SV_AdmitNext = Done" "flt SV_SlotTTL = Done" "flt (SV_GetEvent GE_Query) = Done"
    and line: "distinct (zmembers (r_zsets (sys_redis s) (getEventVirtualQueueKey (rer_EventId req))))"
      "rer_UserId req \<notin> set (zmembers (r_zsets (sys_redis s) (getEventVirtualQueueKey (rer_EventId req))))"
    and run: "svc_ReserveEvent L repo flt c rnd deadline None new_id req s = (s', res)"
    and replay: "replay = replay_answer flt c req (fst (repo_IsBlockEvent L (flt SV_IsBlock) c (rer_EventId req) s))"
  shows "slot t (rer_EventId req) (rer_UserId req) (sys_redis s') =
    (if snd (repo_IsBlockEvent L (flt SV_IsBlock) c (rer_EventId req) s) \<or> replay = None \<and> definitive res then None
     else slot t (rer_EventId req) (rer_UserId req) (sys_redis s))"
proof (cases rule: svc_ReserveEvent_cases [of L flt c req s repo rnd deadline None new_id])
  case blocked
  then show ?thesis
    using run releaseQueueSlot_slot [OF flt(1,2), where s = "fst (repo_IsBlockEvent L (flt SV_IsBlock) c (rer_EventId req) s)"] line
    by auto
next
  case (replayed res')
  then show ?thesis using run replay by simp
next
  case (queue_down e)
  then show ?thesis using flt(3) by simp
next
  case not_admitted
  then show ?thesis using run by simp
next
  case (no_event r' e)
  have "e = ErrEventNotFound \<or> e = ErrMissingDeadline"
    using no_event(3) flt(4) by (auto simp: repo_GetEvent_def pg_GetEvent_def Let_def split: sum.splits if_splits option.splits)
  moreover have "r_hashes r' = r_hashes (sys_redis s)" using no_event(3) repo_GetEvent_queue(1) by (metis fst_conv)
  ultimately show ?thesis using run no_event by auto
next
  case (admitted r' ev v d)
  let ?s1 = "(fst (repo_IsBlockEvent L (flt SV_IsBlock) c (rer_EventId req) s))\<lparr>sys_redis := r'\<rparr>"
  have r': "r_hashes r' = r_hashes (sys_redis s)" "r_zsets r' = r_zsets (sys_redis s)"
    using admitted(4) repo_GetEvent_queue by (metis fst_conv)+
  have out: "reserve_admitted L repo flt c new_id req ev ?s1 = (s', res)" using run admitted(5) by simp
  show ?thesis
    using reserve_admitted_slot [OF flt(1,2) _ _ out, of t] line r' admitted(1,2) replay by simp
qed

theorem ReserveEvent_slot_fate_witness:
  "slot 5 ''e1'' ''u1'' (sys_redis (fst (svc_ReserveEvent (table_lru lruBlockTTL) demo_repo (\<lambda>_. Done) demo_clock 0 True None ''r1''
      \<lparr>rer_EventId = ''e1'', rer_UserId = ''u1'', rer_Quantity = 1, rer_IdempotencyKey = None\<rparr>
      (demo_sys [] (rhset (getEventWhitelisKey ''e1'') ''u1'' ''1'' empty_redis) [''e1'' \<mapsto> 100])))) = None"
proof -
  let ?r = "rhset (getEventWhitelisKey ''e1'') ''u1'' ''1'' (empty_redis :: cache)"
  let ?req = "\<lparr>rer_EventId = ''e1'', rer_UserId = ''u1'', rer_Quantity = 1, rer_IdempotencyKey = None\<rparr>"
  obtain s' res where run: "svc_ReserveEvent (table_lru lruBlockTTL) demo_repo (\<lambda>_. Done) demo_clock 0 True None ''r1'' ?req
      (demo_sys [] ?r [''e1'' \<mapsto> 100]) = (s', res)" by (rule prod.exhaust)
  have "snd (repo_IsBlockEvent (table_lru lruBlockTTL) Done demo_clock ''e1'' (demo_sys [] ?r [''e1'' \<mapsto> 100]))"
    by (simp add: IsBlockEvent_value table_lru_def demo_clock_def)
  then show ?thesis
    unfolding run using ReserveEvent_slot_fate [OF _ _ _ _ _ _ run refl, of 5] by (simp add: empty_redis_def)
qed

text \<open>
  C23: a freed slot goes to the head of the line. When a user leaves a gate that is not overfull,
  the first waiting user with a living heartbeat has a slot for the full whitelist time
  afterwards, and the leaving user has none.
\<close>

theorem slot_handed_to_next_in_line:
  assumes flt: "flt SV_FreeSlot = Done" "flt SV_AdmitNext = Done" and ttl: "Second \<le> vq_WhitelistTTL repo"
    and line: "distinct (zmembers (r_zsets (sys_redis s) (getEventVirtualQueueKey e)))"
    and stored: "u \<in> fst ` set (r_hashes (sys_redis s) (getEventWhitelisKey e))"
    and gate: "rhlen (getEventWhitelisKey e) (sys_redis s)
      \<le> effective_cap (c_redis c) e (unat (vq_maxConcurrentQueue repo)) (sys_redis s)"
    and first: "filter (beating (c_redis c) e (sys_redis s)) (zmembers (r_zsets (sys_redis s) (getEventVirtualQueueKey e))) = v # vs"
    and other: "u \<noteq> v"
  shows "slot (c_redis c) e v (sys_redis (releaseQueueSlot repo flt c e u s)) =
      Some (''1'', Some (c_redis c + 1000 * int (Seconds (vq_WhitelistTTL repo))))
    \<and> slot (c_redis c) e u (sys_redis (releaseQueueSlot repo flt c e u s)) = None"
proof -
  let ?now = "c_redis c" and ?q = "getEventVirtualQueueKey e" and ?w = "getEventWhitelisKey e"
  define r1 where "r1 = fst (vqDeleteWhitelistedUserTTL Done ?now e u (sys_redis s))"
  have r1: "r_zsets r1 = r_zsets (sys_redis s)" "r_strs r1 = r_strs (sys_redis s)"
    "slot ?now e u r1 = None" unfolding r1_def by (simp_all add: vqDelete_effect)
  have same: "beating ?now e r1 x = beating ?now e (sys_redis s) x" "effective_cap ?now e m r1 = effective_cap ?now e m (sys_redis s)" for x m
    using r1(2) by (simp_all add: rexists_def rget_def effective_cap_def)
  have "rhlen ?w r1 < rhlen ?w (sys_redis s)"
    using stored by (auto simp: r1_def vqDeleteWhitelisted_state split_beta rhlen_def rhdel_def hwithout_def intro: filter_removes_member)
  then have k: "min (unat (1 :: u64)) (effective_cap ?now e (unat (vq_maxConcurrentQueue repo)) r1 - rhlen ?w r1) = 1"
    using gate same(2) by simp
  let ?s = "scan_alive (beating ?now e r1) 1 (waiting ?q r1)"
  have seen: "filter (beating ?now e r1) ?s = [v]" using first by (simp add: scan_alive_filter same(1) r1(1))
  have d: "distinct ?s" by (subst scan_alive_prefix) (rule distinct_take, use line r1(1) in simp)
  have out: "sys_redis (releaseQueueSlot repo flt c e u s) = fold (settle ?now ?q e (Seconds (vq_WhitelistTTL repo))) ?s r1"
    using vqTryWhitelist_fold [where e = e and r = r1 and repo = repo and now = ?now and n = 1] line r1(1) k flt by (simp add: releaseQueueSlot_def Let_def r1_def)
  have "x \<in> set ?s \<and> beating ?now e r1 x \<longleftrightarrow> x = v" for x
    using arg_cong [OF seen, of set] by auto
  then show ?thesis
    using fold_settle_slot [OF Seconds_pos [OF ttl] d, where t = ?now and e = e and now = ?now and q = ?q and r = r1] Seconds_pos [OF ttl] r1(3) other unfolding out by simp
qed

theorem slot_handed_to_next_in_line_witness:
  "slot 5 ''e1'' ''u2'' (sys_redis (releaseQueueSlot (demo_repo\<lparr>vq_maxConcurrentQueue := 1\<rparr>) (\<lambda>_. Done) demo_clock ''e1'' ''u1''
     (demo_sys [] (rset None (getUserHeartbeatKey ''e1'' ''u2'') (RNum 1)
        (fst (rzadd (getEventVirtualQueueKey ''e1'') 9 ''u2'' (rhset (getEventWhitelisKey ''e1'') ''u1'' ''1'' empty_redis)))) (\<lambda>_. None))))
    = Some (''1'', Some 2005)"
proof -
  define r where "r = rset None (getUserHeartbeatKey ''e1'' ''u2'') (RNum 1)
    (fst (rzadd (getEventVirtualQueueKey ''e1'') 9 ''u2'' (rhset (getEventWhitelisKey ''e1'') ''u1'' ''1'' (empty_redis :: cache))))"
  have line: "zmembers (r_zsets r (getEventVirtualQueueKey ''e1'')) = [''u2'']"
    by (simp add: r_def rzadd_def empty_redis_def zwithout_def rhset_def)
  have beat: "beating 5 ''e1'' r ''u2''" unfolding r_def by (simp add: rexists_def rstore.get_put)
  have hash: "r_hashes r (getEventWhitelisKey ''e1'') = [(''u1'', ''1'', None)]"
    by (simp add: r_def) (simp add: rhset_def empty_redis_def hwithout_def)
  have cap: "effective_cap 5 ''e1'' 1 r = 1"
    by (simp add: r_def effective_cap_def rget_def rset_def rzadd_def rhset_def empty_redis_def getUserHeartbeatKey_def getEventMaxConcurrentKey_def)
  show ?thesis
    unfolding r_def [symmetric]
    using slot_handed_to_next_in_line [of "\<lambda>_. Done" "demo_repo\<lparr>vq_maxConcurrentQueue := 1\<rparr>" "demo_sys [] r (\<lambda>_. None)" "''e1''" "''u1''"
        demo_clock "''u2''" "[]"] line beat hash cap
    by (simp add: demo_repo_def demo_clock_def rhlen_def Seconds_def)
qed

section \<open>Confirming twice\<close>

lemma svc_Confirm_repeat:
  assumes wf: "pg_wf (sys_db s)" and r: "r \<in> set (reservations_tbl (sys_db s))" "res_Id r = rid" "res_UserId r = u" "res_Status r = StatusConfirmed"
  shows "svc_ConfirmReservation (\<lambda>_. Done) c u rid s = (s, Inr ())"
proof -
  have one: "x = r" if "x \<in> set (reservations_tbl (sys_db s))" "res_Id x = rid" for x
    using conflict_same_row [OF wf r(1) that(1)] that(2) r(2) by simp
  then have none: "find (updatable (c_pg c) u rid) (reservations_tbl (sys_db s)) = None"
    using r(4) by (auto simp: find_None_iff updatable_def)
  have "find (\<lambda>x. res_Id x = rid) (reservations_tbl (sys_db s)) = Some r"
    using find_Some_unique [of res_Id "reservations_tbl (sys_db s)" r] wf r by (simp add: pg_wf_def reservations_ok_def)
  then show ?thesis using r
    by (simp add: svc_ConfirmReservation_def repo_ConfirmReservation_def pg_UpdateReservation_def none pg_GetReservation_def)
qed

text \<open>A confirm that answered or changed anything has confirmed the caller's row.\<close>

lemma confirmed_row:
  assumes "fst (pg_UpdateReservation flt now wall u rid StatusConfirmed db) \<noteq> db
    \<or> \<not> isl (snd (pg_UpdateReservation flt now wall u rid StatusConfirmed db))"
  shows "\<exists>r \<in> set (reservations_tbl (fst (pg_UpdateReservation flt now wall u rid StatusConfirmed db))).
    res_Id r = rid \<and> res_UserId r = u \<and> res_Status r = StatusConfirmed"
proof -
  have ok: "io_err (flt UR_Begin) = None" using assms by (cases "io_err (flt UR_Begin)") (simp_all add: pg_UpdateReservation_def)
  have ok': "io_err (flt UR_Update) = None" using assms ok by (cases "io_err (flt UR_Update)") (simp_all add: pg_UpdateReservation_def)
  obtain r where r: "find (updatable now u rid) (reservations_tbl db) = Some r"
    using assms ok ok' by (cases "find (updatable now u rid) (reservations_tbl db)") (simp_all add: pg_UpdateReservation_def)
  have "fst (pg_UpdateReservation flt now wall u rid StatusConfirmed db) = apply_update now wall u rid StatusConfirmed db"
    using assms ok ok' r by (cases "flt UR_Commit") (simp_all add: pg_UpdateReservation_def apply_update_def)
  moreover have "set_status StatusConfirmed now wall r \<in> set (reservations_tbl (apply_update now wall u rid StatusConfirmed db))"
    using find_SomeD [OF r] by (auto simp: apply_update_def intro!: image_eqI [of _ _ r])
  ultimately show ?thesis using find_SomeD [OF r] by (intro bexI) (auto simp: updatable_def)
qed

text \<open>
  C24: confirming is idempotent. After a confirm that succeeded the reservation is confirmed and
  owned by the caller, and a confirm of it by the same user in the state it left, at any time and with
  calls that work, succeeds and changes nothing; the same holds after a confirm whose commit reply was lost.
\<close>

theorem ConfirmReservation_idempotent:
  assumes wf: "pg_wf (sys_db s)" and run: "svc_ConfirmReservation flt c u rid s = (s', res)"
    and done_or_lost: "res = Inr () \<or> sys_db s' \<noteq> sys_db s"
  shows "\<exists>r \<in> set (reservations_tbl (sys_db s')). res_Id r = rid \<and> res_UserId r = u \<and> res_Status r = StatusConfirmed
    \<and> svc_ConfirmReservation (\<lambda>_. Done) c' u rid s' = (s', Inr ())"
proof -
  let ?upd = "pg_UpdateReservation (\<lambda>x. flt (CF_Update x)) (c_pg c) (c_wall c) u rid StatusConfirmed (sys_db s)"
  have db': "sys_db s' = fst ?upd" using run svc_Confirm_db [of flt c u rid s] by simp
  have wf': "pg_wf (sys_db s')" unfolding db' by (rule pg_UpdateReservation_wf [OF wf])
  have "\<exists>r \<in> set (reservations_tbl (sys_db s')). res_Id r = rid \<and> res_UserId r = u \<and> res_Status r = StatusConfirmed"
  proof (cases "fst ?upd \<noteq> sys_db s \<or> \<not> isl (snd ?upd)")
    case True
    then show ?thesis unfolding db' by (rule confirmed_row)
  next
    case False
    then have "isl (snd ?upd)" "res = Inr ()" using done_or_lost db' by auto
    then show ?thesis using run
      by (auto simp: svc_ConfirmReservation_def repo_ConfirmReservation_def pg_GetReservation_def
          split: prod.splits sum.splits if_splits option.splits dest!: find_SomeD)
  qed
  then show ?thesis using svc_Confirm_repeat [OF wf'] by blast
qed

theorem ConfirmReservation_idempotent_witness:
  "\<exists>r \<in> set (reservations_tbl (sys_db (fst (svc_ConfirmReservation (\<lambda>x. if x = CF_Update UR_Commit then ReplyLost Canceled else Done)
      demo_clock ''u1'' ''r1'' (demo_sys [demo_hold ''r1'' 1 (Some ''k'') 10] empty_redis (\<lambda>_. None)))))).
     res_Id r = ''r1'' \<and> res_Status r = StatusConfirmed"
proof -
  let ?s = "demo_sys [demo_hold ''r1'' 1 (Some ''k'') 10] empty_redis (\<lambda>_. None)"
  let ?flt = "\<lambda>x. if x = CF_Update UR_Commit then ReplyLost Canceled else Done"
  obtain s' res where run: "svc_ConfirmReservation ?flt demo_clock ''u1'' ''r1'' ?s = (s', res)" by (rule prod.exhaust)
  have "sys_db s' = fst (pg_UpdateReservation (\<lambda>x. ?flt (CF_Update x)) 5 5 ''u1'' ''r1'' StatusConfirmed (sys_db ?s))"
    using run svc_Confirm_db [of ?flt demo_clock "''u1''" "''r1''" ?s] by (simp add: demo_clock_def)
  then have "sys_db s' \<noteq> sys_db ?s"
    by (simp add: pg_UpdateReservation_def updatable_def demo_defs set_status_def)
  then show ?thesis
    unfolding run using ConfirmReservation_idempotent [OF _ run, of demo_clock] demo_db_hold_wf by auto
qed

text \<open>
  A sold-out flag hides the caller's own reservation. While the event is flagged as sold out, a
  retry of a request that already succeeded under the same key is refused with
  \<open>ErrInsufficientCapacity\<close>, although the lookup by the key would return the reservation.
\<close>

lemma sold_out_flag_refuses_replay:
  assumes flag: "snd (repo_IsBlockEvent L (flt SV_IsBlock) c (rer_EventId req) s)"
    and wf: "pg_wf (sys_db s)" and row: "r \<in> set (reservations_tbl (sys_db s))"
      "has_key (rer_EventId req) (rer_UserId req) k r" "rer_IdempotencyKey req = Some k"
  shows "snd (svc_ReserveEvent L repo flt c rnd deadline gone new_id req s) = Inl ErrInsufficientCapacity
    \<and> pg_GetReservationByIdempotencyKey Done (rer_EventId req) (rer_UserId req) k (sys_db s) = Inr r"
  using flag GetReservationByIdempotencyKey_found [OF wf row(1,2)]
  by (cases rule: svc_ReserveEvent_cases [of L flt c req s repo rnd deadline gone new_id]) simp_all

text \<open>
  With nobody waiting and room in the gate, joining admits at once. The service's \<open>Enqueue\<close> then
  answers with the full whitelist time, and the user has a slot and no place in the line.
\<close>

lemma Enqueue_admits_when_room:
  assumes new: "slot (c_redis c) e u (sys_redis s) = None" "\<not> beating (c_redis c) e (sys_redis s) u"
    and line: "r_zsets (sys_redis s) (getEventVirtualQueueKey e) = []"
    and room: "rhlen (getEventWhitelisKey e) (sys_redis s)
      < effective_cap (c_redis c) e (unat (vq_maxConcurrentQueue repo)) (sys_redis s)"
    and ttl: "Second \<le> vq_HeartbeatTTL repo" "Second \<le> vq_WhitelistTTL repo" and user: "uuid_text u"
  shows "\<exists>r'. svc_Enqueue repo (\<lambda>_. Done) c e u s = (s\<lparr>sys_redis := r'\<rparr>, Inr (int (Seconds (vq_WhitelistTTL repo)) * Second))
    \<and> zmembers (r_zsets r' (getEventVirtualQueueKey e)) = []
    \<and> (\<forall>t. slot t e u r' = (if t < c_redis c + 1000 * int (Seconds (vq_WhitelistTTL repo))
          then Some (''1'', Some (c_redis c + 1000 * int (Seconds (vq_WhitelistTTL repo)))) else None))
    \<and> (\<forall>k. k \<noteq> getUserHeartbeatKey e u \<longrightarrow> r_strs r' k = r_strs (sys_redis s) k)"
proof -
  let ?now = "c_redis c" and ?q = "getEventVirtualQueueKey e" and ?w = "getEventWhitelisKey e" and ?T = "Seconds (vq_WhitelistTTL repo)"
  obtain r1 res1 where enq: "vqEnqueue repo (\<lambda>_. Done) (c_wall c) ?now e u (sys_redis s) = (r1, res1)" by (rule prod.exhaust)
  have joined: "res1 = Inr True" "waiting ?q r1 = [u]" "\<And>t. beating t e r1 u = (t < ?now + 1000 * int (Seconds (vq_HeartbeatTTL repo)))"
    using vqEnqueue_joins [OF new(2) ttl(1) _ enq refl] line by simp_all
  have hash: "r_hashes r1 = r_hashes (sys_redis s)" using vqEnqueue_frame(1) enq by (metis fst_conv)
  have "r_strs r1 (getEventMaxConcurrentKey e) = r_strs (sys_redis s) (getEventMaxConcurrentKey e)"
    using vqEnqueue_frame(2) [OF heartbeat_key_not_cap [OF user, THEN not_sym]] enq by (metis fst_conv)
  then have cap: "effective_cap ?now e m r1 = effective_cap ?now e m (sys_redis s)" for m
    by (simp add: effective_cap_def rget_def)
  have k: "min (unat (1 :: u64)) (effective_cap ?now e (unat (vq_maxConcurrentQueue repo)) r1 - rhlen ?w r1) = Suc 0"
    using room by (simp add: cap) (simp add: rhlen_def hash)
  obtain r2 res2 where adm: "vqTryWhitelistEventQueue repo Done ?now e 1 r1 = (r2, Inr res2)"
    by (simp add: vqTryWhitelistEventQueue_def split_beta)
  have r2: "r2 = settle ?now ?q e ?T u r1"
    using vqTryWhitelist_fold [where e = e and r = r1 and repo = repo and now = ?now and n = 1] joined(2) k adm by simp
  have beat: "beating ?now e r1 u" using joined(3) Seconds_pos [OF ttl(1)] by simp
  have slots: "slot t e u r2 = (if t < ?now + 1000 * int ?T then Some (''1'', Some (?now + 1000 * int ?T)) else None)" for t
    using beat Seconds_pos [OF ttl(2)] hash new(1) by (simp add: r2 settle_slot)
  then have sl: "slot ?now e u r2 = Some (''1'', Some (?now + 1000 * int ?T))" using Seconds_pos [OF ttl(2)] by simp
  have "(1000 * int ?T + 999) div 1000 = int ?T" by simp
  then have ttl2: "vqGetWhitelistedUserTTL Done ?now e u r2 = Inr (int ?T * Second)"
    by (simp add: vqGetWhitelistedUserTTL_def rhttl_def sl)
  have ttl1: "vqGetWhitelistedUserTTL Done ?now e u (sys_redis s) = Inr (- 2 * Second)"
    by (simp add: vqGetWhitelistedUserTTL_def rhttl_def new(1))
  have "svc_Enqueue repo (\<lambda>_. Done) c e u s = (s\<lparr>sys_redis := r2\<rparr>, Inr (int ?T * Second))"
    using Seconds_pos [OF ttl(2)] by (simp add: svc_Enqueue_def ttl1 enq joined(1) adm ttl2)
  moreover have "waiting ?q r2 = []" using joined(2) by (simp add: r2)
  moreover have "r_strs r2 k = r_strs (sys_redis s) k" if "k \<noteq> getUserHeartbeatKey e u" for k
    using settle_strs [OF that] vqEnqueue_frame(2) [OF that] enq unfolding r2 by (metis fst_conv)
  ultimately show ?thesis using slots by blast
qed

end
