(* ===== verification/Http.thy ===== *)
theory Http
  imports GoText Services
begin

text \<open>
  \<open>handler/utils\<close>, \<open>middleware/auth.go\<close> and \<open>handler/users/getAuthenticatedUser.go\<close>: requests and
  responses, the two response writers, and authentication by bearer token. The JWT library is an
  argument with its documented laws \<open>jwt_laws\<close>; routing and the timeout middleware belong to chi,
  a timeout being an error of a later call.
\<close>

section \<open>Requests and responses\<close>

record UserDto =
  ud_Id :: string
  ud_Name :: string
  ud_Email :: string
  ud_CreatedAt :: time
  ud_UpdatedAt :: time

definition UserDto_toDto :: "UserItem \<Rightarrow> UserDto" where
  "UserDto_toDto userItem =
     \<lparr>ud_Id = us_Id userItem, ud_Name = us_Name userItem, ud_Email = us_Email userItem,
      ud_CreatedAt = us_CreatedAt userItem, ud_UpdatedAt = us_UpdatedAt userItem\<rparr>"

record EventDto =
  ed_Id :: string
  ed_Name :: string
  ed_MaxReservePerUser :: u32
  ed_Capacity :: u32
  ed_CreatedAt :: time
  ed_UpdatedAt :: time

definition EventDto_toDto :: "EventItem \<Rightarrow> EventDto" where
  "EventDto_toDto eventItem =
     \<lparr>ed_Id = ev_Id eventItem, ed_Name = ev_Name eventItem, ed_MaxReservePerUser = ev_MaxReservePerUser eventItem,
      ed_Capacity = ev_Capacity eventItem, ed_CreatedAt = ev_CreatedAt eventItem, ed_UpdatedAt = ev_UpdatedAt eventItem\<rparr>"

record ReservationDto =
  rd_Id :: string
  rd_UserId :: string
  rd_Status :: ReservationStatus
  rd_EventId :: string
  rd_Quantity :: u32
  rd_ReservedAt :: time
  rd_ExpiresAt :: time

definition ReservationDto_toDto :: "ReservationItem \<Rightarrow> ReservationDto" where
  "ReservationDto_toDto reservationItem =
     \<lparr>rd_Id = res_Id reservationItem, rd_UserId = res_UserId reservationItem, rd_Status = res_Status reservationItem,
      rd_EventId = res_EventId reservationItem, rd_Quantity = res_Quantity reservationItem,
      rd_ReservedAt = res_ReservedAt reservationItem, rd_ExpiresAt = res_ExpiresAt reservationItem\<rparr>"

text \<open>
  What is marshalled into a response. \<open>ErrorMessage e\<close> is \<open>errorResponse\<close> with the error's text,
  \<open>ErrorValue e\<close> an error value itself, which for an \<open>errors.New\<close> value is an empty object.
\<close>

datatype payload =
    ErrorMessage go_error
  | ErrorValue go_error
  | PUser UserDto
  | PToken string
  | PEvent EventDto
  | PEvents "EventDto list"
  | PReservation ReservationDto
  | PReservationItem ReservationItem
  | PQueueStatus string
  | PPing bool int bool
  | PTotal nat
  | PHealth bool bool

record response =
  rs_status :: nat
  rs_body :: "payload option"

text \<open>\<open>rq_authorization\<close> is the header's value and \<open>rq_limit\<close> the query parameter, empty when absent.\<close>

record request =
  rq_authorization :: string
  rq_limit :: string
  rq_body :: "json option"

abbreviation StatusOK :: nat where "StatusOK \<equiv> 200"
abbreviation StatusCreated :: nat where "StatusCreated \<equiv> 201"
abbreviation StatusBadRequest :: nat where "StatusBadRequest \<equiv> 400"
abbreviation StatusUnauthorized :: nat where "StatusUnauthorized \<equiv> 401"
abbreviation StatusForbidden :: nat where "StatusForbidden \<equiv> 403"
abbreviation StatusNotFound :: nat where "StatusNotFound \<equiv> 404"
abbreviation StatusConflict :: nat where "StatusConflict \<equiv> 409"
abbreviation StatusInternalServerError :: nat where "StatusInternalServerError \<equiv> 500"
abbreviation StatusServiceUnavailable :: nat where "StatusServiceUnavailable \<equiv> 503"
abbreviation StatusGatewayTimeout :: nat where "StatusGatewayTimeout \<equiv> 504"

definition WriteErrorResponse :: "nat \<Rightarrow> go_error \<Rightarrow> response" where
  "WriteErrorResponse status err = \<lparr>rs_status = status, rs_body = Some (ErrorMessage err)\<rparr>"

definition WriteJSONResponse :: "nat \<Rightarrow> payload option \<Rightarrow> response" where
  "WriteJSONResponse status data = \<lparr>rs_status = status, rs_body = data\<rparr>"

section \<open>Trimming\<close>

text \<open>\<open>strings.TrimSpace\<close>: the UTF-8 forms of the Unicode white space.\<close>

definition space_runes :: "string list" where
  "space_runes =
     [[CHR 0x09], [CHR 0x0A], [CHR 0x0B], [CHR 0x0C], [CHR 0x0D], [CHR 0x20], [CHR 0xC2, CHR 0x85], [CHR 0xC2, CHR 0xA0],
      [CHR 0xE1, CHR 0x9A, CHR 0x80], [CHR 0xE2, CHR 0x80, CHR 0xA8], [CHR 0xE2, CHR 0x80, CHR 0xA9],
      [CHR 0xE2, CHR 0x80, CHR 0xAF], [CHR 0xE2, CHR 0x81, CHR 0x9F], [CHR 0xE3, CHR 0x80, CHR 0x80]]
     @ map (\<lambda>n. [CHR 0xE2, CHR 0x80, char_of (128 + n)]) [0..<11]"

function trim_front :: "string list \<Rightarrow> string \<Rightarrow> string" where
  "trim_front ws s =
     (case find (\<lambda>w. w \<noteq> [] \<and> take (length w) s = w) ws of
        None \<Rightarrow> s
      | Some w \<Rightarrow> trim_front ws (drop (length w) s))"
  by pat_completeness auto
termination
proof (relation "measure (\<lambda>(ws, s). length s)")
  fix ws s w assume "find (\<lambda>w. w \<noteq> [] \<and> take (length w) s = w) ws = Some w"
  then have "w \<noteq> []" "take (length w) s = w" by (auto simp: find_Some_iff)
  then show "((ws, drop (length w) s), (ws, s)) \<in> measure (\<lambda>(ws, s). length s)"
    by (cases s) (auto simp: diff_less)
qed simp

declare trim_front.simps [simp del]

definition TrimSpace :: "string \<Rightarrow> string" where
  "TrimSpace s = rev (trim_front (map rev space_runes) (rev (trim_front space_runes s)))"

lemma trim_front_id:
  assumes "\<And>w. w \<in> set ws \<Longrightarrow> w \<noteq> [] \<Longrightarrow> take (length w) s \<noteq> w"
  shows "trim_front ws s = s"
proof -
  have "find (\<lambda>w. w \<noteq> [] \<and> take (length w) s = w) ws = None" using assms by (auto simp: find_None_iff)
  then show ?thesis by (simp add: trim_front.simps)
qed

text \<open>A text of printable ASCII without blanks is not changed.\<close>

definition token_char :: "char \<Rightarrow> bool" where
  "token_char c \<longleftrightarrow> (33::nat) \<le> of_char c \<and> of_char c < (127::nat)"

lemma space_runes_not_token:
  "w \<in> set space_runes \<Longrightarrow> w \<noteq> [] \<and> \<not> token_char (hd w) \<and> \<not> token_char (last w)"
  by (auto simp: space_runes_def token_char_def)

lemma TrimSpace_token:
  assumes "list_all token_char s"
  shows "TrimSpace s = s"
proof -
  have no: "take (length w) t \<noteq> w" if "list_all token_char t" "w \<noteq> []" "\<not> token_char (hd w)" for t w
    using that by (cases w; cases t) auto
  have "trim_front space_runes s = s"
    by (rule trim_front_id) (use assms no space_runes_not_token in blast)
  moreover have "trim_front (map rev space_runes) (rev s) = rev s"
  proof (rule trim_front_id)
    fix w assume "w \<in> set (map rev space_runes)"
    then obtain v where "v \<in> set space_runes" "w = rev v" by auto
    then show "take (length w) (rev s) \<noteq> w"
      using space_runes_not_token [of v] assms by (intro no) (auto simp: hd_rev list_all_iff)
  qed
  ultimately show ?thesis by (simp add: TrimSpace_def)
qed

section \<open>Bearer tokens\<close>

record userClaims =
  uc_Name :: string
  uc_Email :: string
  uc_Subject :: string

datatype signing_method = HMAC | OtherMethod string

text \<open>
  The JWT library: \<open>SignedString\<close> of an HS256 token, \<open>ParseWithClaims\<close> with a key function (the
  claims and \<open>token.Valid\<close>), and the method a token's header names.
\<close>

record jwt_lib =
  jwt_SignedString :: "string \<Rightarrow> userClaims \<Rightarrow> string result"
  jwt_ParseWithClaims :: "string \<Rightarrow> (signing_method \<Rightarrow> string result) \<Rightarrow> (userClaims \<times> bool) result"
  jwt_Method :: "string \<Rightarrow> signing_method"

definition jwt_laws :: "jwt_lib \<Rightarrow> bool" where
  "jwt_laws J \<longleftrightarrow>
     (\<forall>secret claims tok. jwt_SignedString J secret claims = Inr tok \<longrightarrow>
        tok \<noteq> [] \<and> list_all token_char tok \<and> jwt_Method J tok = HMAC
        \<and> (\<forall>key. key HMAC = Inr secret \<longrightarrow> jwt_ParseWithClaims J tok key = Inr (claims, True)))
     \<and> (\<forall>tok key e. key (jwt_Method J tok) = Inl e \<longrightarrow> (\<exists>e'. jwt_ParseWithClaims J tok key = Inl e'))"

definition bearer_prefix :: string where
  "bearer_prefix = ''Bearer ''"

fun token_key :: "string \<Rightarrow> signing_method \<Rightarrow> string result" where
  "token_key secret HMAC = Inr secret"
| "token_key secret (OtherMethod alg) = Inl (OtherError (''unexpected signing method: '' @ alg))"

definition GetAuthenticatedUser ::
  "jwt_lib \<Rightarrow> string \<Rightarrow> (get_user_call \<Rightarrow> io) \<Rightarrow> clocks \<Rightarrow> request \<Rightarrow> 'l sys \<Rightarrow> 'l sys \<times> UserDto result" where
  "GetAuthenticatedUser J secret flt c rq s =
     (let header = rq_authorization rq;
          tokenString = TrimSpace (drop (length bearer_prefix) header)
      in if header = [] then (s, Inl ErrMissingBearerToken)
         else if take (length bearer_prefix) header \<noteq> bearer_prefix then (s, Inl ErrMissingBearerToken)
         else if tokenString = [] then (s, Inl ErrMissingBearerToken)
         else case jwt_ParseWithClaims J tokenString (token_key secret) of
           Inl _ \<Rightarrow> (s, Inl ErrInvalidToken)
         | Inr (claims, valid) \<Rightarrow>
             if \<not> valid then (s, Inl ErrInvalidToken)
             else (case repo_GetUser flt (c_redis c) (uc_Subject claims) (sys_db s) (sys_redis s) of
                     (r', Inl e) \<Rightarrow> (s\<lparr>sys_redis := r'\<rparr>, Inl e)
                   | (r', Inr userItem) \<Rightarrow> (s\<lparr>sys_redis := r'\<rparr>, Inr (UserDto_toDto userItem))))"

text \<open>
  \<open>RequireAuth\<close>: the handler behind it finds the user in the request's context.
\<close>

definition RequireAuth ::
  "jwt_lib \<Rightarrow> string \<Rightarrow> (get_user_call \<Rightarrow> io) \<Rightarrow> clocks \<Rightarrow> (UserDto option \<Rightarrow> request \<Rightarrow> 'l sys \<Rightarrow> 'l sys \<times> response)
    \<Rightarrow> request \<Rightarrow> 'l sys \<Rightarrow> 'l sys \<times> response" where
  "RequireAuth J secret flt c next rq s =
     (case GetAuthenticatedUser J secret flt c rq s of
        (s', Inl err) \<Rightarrow> (s', WriteJSONResponse StatusUnauthorized (Some (ErrorValue err)))
      | (s', Inr user) \<Rightarrow> next (Some user) rq s')"

lemma GetAuthenticatedUser_frame:
  "GetAuthenticatedUser J secret flt c rq s = (s', res) \<Longrightarrow> sys_db s' = sys_db s \<and> sys_lru s' = sys_lru s"
  by (auto simp: GetAuthenticatedUser_def Let_def split: if_splits sum.splits prod.splits)

lemma repo_GetUser_error_same: "repo_GetUser flt now u db r = (r', Inl e) \<Longrightarrow> r' = r"
  by (auto simp: repo_GetUser_def split: sum.splits prod.splits)

lemma GetAuthenticatedUser_error_same:
  "GetAuthenticatedUser J secret flt c rq s = (s', Inl e) \<Longrightarrow> s' = s"
  by (auto simp: GetAuthenticatedUser_def Let_def dest!: repo_GetUser_error_same split: if_splits sum.splits prod.splits)

lemma GetAuthenticatedUser_token:
  assumes "jwt_laws J" and "jwt_SignedString J secret claims = Inr tok" and "rq_authorization rq = bearer_prefix @ tok"
    and "repo_GetUser flt (c_redis c) (uc_Subject claims) (sys_db s) (sys_redis s) = (r', res)"
  shows "GetAuthenticatedUser J secret flt c rq s =
    (s\<lparr>sys_redis := r'\<rparr>, case res of Inl e \<Rightarrow> Inl e | Inr userItem \<Rightarrow> Inr (UserDto_toDto userItem))"
proof -
  have tok: "tok \<noteq> []" "TrimSpace tok = tok" "jwt_ParseWithClaims J tok (token_key secret) = Inr (claims, True)"
    using assms(1,2) TrimSpace_token [of tok] by (auto simp: jwt_laws_def)
  show ?thesis using tok assms(4) by (auto simp: GetAuthenticatedUser_def assms(3) bearer_prefix_def split: sum.split)
qed

text \<open>
  The other half of the library's contract: it accepts a token only under the key that the callback gives for the
  token's signing method, and only if the token is genuine, that is, carries the claims, is signed with that
  key and is within its period. \<open>genuine key token claims\<close> says so independently of the parser.
\<close>

definition jwt_sound :: "(string \<Rightarrow> string \<Rightarrow> userClaims \<Rightarrow> bool) \<Rightarrow> jwt_lib \<Rightarrow> bool" where
  "jwt_sound genuine J \<longleftrightarrow>
     (\<forall>tok key claims. jwt_ParseWithClaims J tok key = Inr (claims, True) \<longrightarrow>
        (\<exists>secret. key (jwt_Method J tok) = Inr secret \<and> genuine secret tok claims))"

text \<open>The token that a request carries, and whether it is one that the server has signed.\<close>

definition bearer_token :: "request \<Rightarrow> string \<Rightarrow> bool" where
  "bearer_token rq tok \<longleftrightarrow> (\<exists>rest. rq_authorization rq = bearer_prefix @ rest \<and> tok = TrimSpace rest \<and> tok \<noteq> [])"

definition genuine_bearer :: "(string \<Rightarrow> string \<Rightarrow> userClaims \<Rightarrow> bool) \<Rightarrow> jwt_lib \<Rightarrow> string \<Rightarrow> request \<Rightarrow> userClaims \<Rightarrow> bool" where
  "genuine_bearer genuine J secret rq claims \<longleftrightarrow> (\<exists>tok. bearer_token rq tok \<and> jwt_Method J tok = HMAC \<and> genuine secret tok claims)"

lemma token_key_HMAC: "token_key secret m = Inr k \<longleftrightarrow> m = HMAC \<and> k = secret"
  by (cases m) auto

lemma GetAuthenticatedUser_genuine:
  assumes "jwt_sound genuine J"
  obtains e where "GetAuthenticatedUser J secret flt c rq s = (s, Inl e)" "e = ErrMissingBearerToken \<or> e = ErrInvalidToken"
  | claims where "genuine_bearer genuine J secret rq claims"
      "GetAuthenticatedUser J secret flt c rq s =
        (case repo_GetUser flt (c_redis c) (uc_Subject claims) (sys_db s) (sys_redis s) of
           (r', Inl e) \<Rightarrow> (s\<lparr>sys_redis := r'\<rparr>, Inl e) | (r', Inr item) \<Rightarrow> (s\<lparr>sys_redis := r'\<rparr>, Inr (UserDto_toDto item)))"
proof -
  let ?rest = "drop (length bearer_prefix) (rq_authorization rq)"
  show thesis
  proof (cases "take (length bearer_prefix) (rq_authorization rq) = bearer_prefix \<and> TrimSpace ?rest \<noteq> []
      \<and> (\<exists>claims. jwt_ParseWithClaims J (TrimSpace ?rest) (token_key secret) = Inr (claims, True))")
    case False
    have "\<exists>e. GetAuthenticatedUser J secret flt c rq s = (s, Inl e) \<and> (e = ErrMissingBearerToken \<or> e = ErrInvalidToken)"
      using False by (auto simp: GetAuthenticatedUser_def Let_def split: sum.split)
    then show ?thesis using that(1) by blast
  next
    case True
    then obtain claims where c: "take (length bearer_prefix) (rq_authorization rq) = bearer_prefix" "TrimSpace ?rest \<noteq> []"
      "jwt_ParseWithClaims J (TrimSpace ?rest) (token_key secret) = Inr (claims, True)" by blast
    then have "jwt_Method J (TrimSpace ?rest) = HMAC \<and> genuine secret (TrimSpace ?rest) claims"
      using assms by (fastforce simp: jwt_sound_def token_key_HMAC)
    moreover have "rq_authorization rq = bearer_prefix @ ?rest" using c(1) by (metis append_take_drop_id)
    ultimately have "genuine_bearer genuine J secret rq claims" using c(2) unfolding genuine_bearer_def bearer_token_def by blast
    moreover have "rq_authorization rq \<noteq> []" using c(1) by (auto simp: bearer_prefix_def)
    ultimately show ?thesis using that(2) c by (simp add: GetAuthenticatedUser_def)
  qed
qed

end
