(* ===== verification/Handlers.thy ===== *)
theory Handlers
  imports Http
begin

text \<open>
  The HTTP handlers under \<open>handler/users\<close>, \<open>handler/events\<close>, \<open>handler/reservations\<close>,
  \<open>handler/virtualqueues\<close> and \<open>handler/health\<close>, and the server as a whole: one definition per
  handler with its decoding, its guards, the service call and the error switch, then \<open>serve\<close>, which
  puts the authentication in front of the routes that the code protects.
\<close>

section \<open>Users\<close>

definition CreateUserRequest_fields :: "CreateUserRequest fields" where
  "CreateUserRequest_fields =
     [(''name'', json_string (\<lambda>v r. r\<lparr>cur_Name := v\<rparr>)), (''email'', json_string (\<lambda>v r. r\<lparr>cur_Email := v\<rparr>)),
      (''password'', json_string (\<lambda>v r. r\<lparr>cur_Password := v\<rparr>))]"

definition createUser_status :: "go_error \<Rightarrow> nat" where
  "createUser_status err =
     (if err = ErrInvalidUser then StatusBadRequest
      else if err = ErrUserEmailTaken then StatusConflict
      else if err = Canceled then StatusBadRequest
      else if err = DeadlineExceeded then StatusGatewayTimeout
      else StatusInternalServerError)"

definition createUserHandler ::
  "(string \<Rightarrow> string result) \<Rightarrow> io \<Rightarrow> clocks \<Rightarrow> string \<Rightarrow> request \<Rightarrow> 'l sys \<Rightarrow> 'l sys \<times> response" where
  "createUserHandler hash x c new_id rq s =
     (case DecodeRequestBody CreateUserRequest_fields \<lparr>cur_Name = [], cur_Email = [], cur_Password = []\<rparr> (rq_body rq) of
        Inl err \<Rightarrow> (s, WriteErrorResponse StatusBadRequest err)
      | Inr createUserReq \<Rightarrow>
          (case svc_CreateUser hash x (c_pg c) new_id createUserReq (sys_db s) of
             (db', Inl err) \<Rightarrow> (s\<lparr>sys_db := db'\<rparr>, WriteErrorResponse (createUser_status err) err)
           | (db', Inr userItem) \<Rightarrow> (s\<lparr>sys_db := db'\<rparr>, WriteJSONResponse StatusCreated (Some (PUser (UserDto_toDto userItem))))))"

record IdBody =
  ib_Id :: string

definition LoginRequestBody_fields :: "IdBody fields" where
  "LoginRequestBody_fields = [(''id'', json_string (\<lambda>v r. r\<lparr>ib_Id := v\<rparr>))]"

definition loginHandler ::
  "jwt_lib \<Rightarrow> string \<Rightarrow> (get_user_call \<Rightarrow> io) \<Rightarrow> clocks \<Rightarrow> request \<Rightarrow> 'l sys \<Rightarrow> 'l sys \<times> response" where
  "loginHandler J secret flt c rq s =
     (case DecodeRequestBody LoginRequestBody_fields \<lparr>ib_Id = []\<rparr> (rq_body rq) of
        Inl err \<Rightarrow> (s, WriteErrorResponse StatusBadRequest err)
      | Inr loginReq \<Rightarrow>
          (case repo_GetUser flt (c_redis c) (ib_Id loginReq) (sys_db s) (sys_redis s) of
             (r', Inl err) \<Rightarrow> (s\<lparr>sys_redis := r'\<rparr>, WriteJSONResponse StatusBadRequest None)
           | (r', Inr userItem) \<Rightarrow>
               (s\<lparr>sys_redis := r'\<rparr>,
                case jwt_SignedString J secret
                       \<lparr>uc_Name = us_Name userItem, uc_Email = us_Email userItem, uc_Subject = us_Id userItem\<rparr> of
                  Inl err \<Rightarrow> WriteErrorResponse StatusBadRequest err
                | Inr tokenString \<Rightarrow> WriteJSONResponse StatusOK (Some (PToken tokenString)))))"

definition meHandler :: "UserDto option \<Rightarrow> request \<Rightarrow> 'l sys \<Rightarrow> 'l sys \<times> response" where
  "meHandler user rq s =
     (s, case user of
           None \<Rightarrow> WriteJSONResponse StatusBadRequest None
         | Some userDto \<Rightarrow> WriteJSONResponse StatusOK (Some (PUser userDto)))"

definition getUserHandler ::
  "(get_user_call \<Rightarrow> io) \<Rightarrow> clocks \<Rightarrow> string \<Rightarrow> UserDto option \<Rightarrow> request \<Rightarrow> 'l sys \<Rightarrow> 'l sys \<times> response" where
  "getUserHandler flt c uid user rq s =
     (case repo_GetUser flt (c_redis c) uid (sys_db s) (sys_redis s) of
        (r', Inl err) \<Rightarrow>
          (s\<lparr>sys_redis := r'\<rparr>,
           if err = ErrUserNotFound then WriteJSONResponse StatusNotFound None
           else if err = Canceled then WriteErrorResponse StatusBadRequest err
           else if err = DeadlineExceeded then WriteErrorResponse StatusGatewayTimeout err
           else WriteJSONResponse StatusInternalServerError None)
      | (r', Inr userItem) \<Rightarrow> (s\<lparr>sys_redis := r'\<rparr>, WriteJSONResponse StatusOK (Some (PUser (UserDto_toDto userItem)))))"

section \<open>Events\<close>

definition CreateEventRequest_fields :: "(string \<Rightarrow> time option) \<Rightarrow> CreateEventRequest fields" where
  "CreateEventRequest_fields rfc3339 =
     [(''name'', json_string (\<lambda>v r. r\<lparr>cer_Name := v\<rparr>)), (''capacity'', json_u32 (\<lambda>v r. r\<lparr>cer_Capacity := v\<rparr>)),
      (''maxReservePerUser'', json_u32 (\<lambda>v r. r\<lparr>cer_MaxReservePerUser := v\<rparr>)),
      (''startSalesAt'', json_time rfc3339 (\<lambda>v r. r\<lparr>cer_StartSalesAt := v\<rparr>))]"

definition createEvent_status :: "go_error \<Rightarrow> nat" where
  "createEvent_status err =
     (if err = ErrInvalidEvent then StatusBadRequest
      else if err = Canceled then StatusBadRequest
      else if err = DeadlineExceeded then StatusGatewayTimeout
      else StatusInternalServerError)"

definition createEventHandler ::
  "(string \<Rightarrow> time option) \<Rightarrow> io \<Rightarrow> clocks \<Rightarrow> string \<Rightarrow> request \<Rightarrow> 'l sys \<Rightarrow> 'l sys \<times> response" where
  "createEventHandler rfc3339 x c new_id rq s =
     (case DecodeRequestBody (CreateEventRequest_fields rfc3339)
             \<lparr>cer_Name = [], cer_Capacity = 0, cer_MaxReservePerUser = 0, cer_StartSalesAt = None\<rparr> (rq_body rq) of
        Inl err \<Rightarrow> (s, WriteErrorResponse StatusBadRequest err)
      | Inr createEventReq \<Rightarrow>
          (case svc_CreateEvent x (c_pg c) new_id createEventReq (sys_db s) of
             (db', Inl err) \<Rightarrow> (s\<lparr>sys_db := db'\<rparr>, WriteErrorResponse (createEvent_status err) err)
           | (db', Inr eventItem) \<Rightarrow> (s\<lparr>sys_db := db'\<rparr>, WriteJSONResponse StatusCreated (Some (PEvent (EventDto_toDto eventItem))))))"

definition getEventHandler ::
  "(get_event_call \<Rightarrow> io) \<Rightarrow> clocks \<Rightarrow> nat \<Rightarrow> go_error option \<Rightarrow> string \<Rightarrow> request \<Rightarrow> 'l sys \<Rightarrow> 'l sys \<times> response" where
  "getEventHandler flt c rnd gone eid rq s =
     (case repo_GetEvent flt (c_redis c) rnd True gone eid (sys_db s) (sys_redis s) of
        (r', Inl err) \<Rightarrow>
          (s\<lparr>sys_redis := r'\<rparr>,
           if err = ErrEventNotFound then WriteErrorResponse StatusNotFound err
           else if err = Canceled then WriteErrorResponse StatusBadRequest err
           else if err = DeadlineExceeded then WriteErrorResponse StatusGatewayTimeout err
           else WriteJSONResponse StatusInternalServerError None)
      | (r', Inr eventItem) \<Rightarrow> (s\<lparr>sys_redis := r'\<rparr>, WriteJSONResponse StatusOK (Some (PEvent (EventDto_toDto eventItem)))))"

definition listEventsHandler :: "io \<Rightarrow> request \<Rightarrow> 'l sys \<Rightarrow> 'l sys \<times> response" where
  "listEventsHandler x rq s =
     (let limit = (if rq_limit rq = [] then Some 0 else map_option of_nat (ParseUint 64 (rq_limit rq)))
      in (s, case limit of
               None \<Rightarrow> WriteErrorResponse StatusBadRequest (OtherError ''limit must be a positive integer'')
             | Some n \<Rightarrow>
                 (case svc_ListEvents x n (sys_db s) of
                    Inl err \<Rightarrow>
                      (if err = Canceled then WriteErrorResponse StatusBadRequest err
                       else if err = DeadlineExceeded then WriteErrorResponse StatusGatewayTimeout err
                       else WriteErrorResponse StatusInternalServerError err)
                  | Inr eventItems \<Rightarrow> WriteJSONResponse StatusOK (Some (PEvents (map EventDto_toDto eventItems))))))"

text \<open>
  The bulk, update and delete routes of events and reservations have empty handlers, for which
  \<open>net/http\<close> sends status 200 with no body.
\<close>

definition emptyHandler :: "request \<Rightarrow> 'l sys \<Rightarrow> 'l sys \<times> response" where
  "emptyHandler rq s = (s, \<lparr>rs_status = StatusOK, rs_body = None\<rparr>)"

section \<open>Reservations\<close>

record ReserveEventRequestBody =
  reb_IdempotencyKey :: string
  reb_Quantity :: u32

definition ReserveEventRequestBody_fields :: "ReserveEventRequestBody fields" where
  "ReserveEventRequestBody_fields =
     [(''idempotencyKey'', json_string (\<lambda>v r. r\<lparr>reb_IdempotencyKey := v\<rparr>)), (''quantity'', json_u32 (\<lambda>v r. r\<lparr>reb_Quantity := v\<rparr>))]"

definition reserve_error :: "go_error \<Rightarrow> response" where
  "reserve_error err =
     (if err = ErrInsufficientCapacity \<or> err = ErrExceedMaxReserveQuantity then WriteErrorResponse StatusConflict err
      else if err = ErrEventNotFound then WriteErrorResponse StatusNotFound (OtherError ''event not found'')
      else if err = ErrQueueInProgress then WriteErrorResponse StatusBadRequest (OtherError ''not currently whitelisted for reservation'')
      else if err = ErrIdempotencyKeyReused then WriteErrorResponse StatusForbidden err
      else if err = Canceled then WriteErrorResponse StatusBadRequest err
      else if err = DeadlineExceeded then WriteErrorResponse StatusGatewayTimeout err
      else WriteErrorResponse StatusInternalServerError err)"

definition reserveEventHandler ::
  "'l lru_ops \<Rightarrow> VirtualQueueRepository \<Rightarrow> (svc_call \<Rightarrow> io) \<Rightarrow> clocks \<Rightarrow> nat \<Rightarrow> go_error option \<Rightarrow> string \<Rightarrow> string
    \<Rightarrow> UserDto option \<Rightarrow> request \<Rightarrow> 'l sys \<Rightarrow> 'l sys \<times> response" where
  "reserveEventHandler L repo flt c rnd gone new_id eventId ctx_user rq s =
     (case ctx_user of
        None \<Rightarrow> (s, WriteErrorResponse StatusBadRequest (OtherError ''unable to identify user''))
      | Some user \<Rightarrow>
     (case DecodeRequestBody ReserveEventRequestBody_fields \<lparr>reb_IdempotencyKey = [], reb_Quantity = 0\<rparr> (rq_body rq) of
        Inl err \<Rightarrow> (s, WriteErrorResponse StatusBadRequest err)
      | Inr reserveEventReq \<Rightarrow>
          if reb_Quantity reserveEventReq < 1
          then (s, WriteJSONResponse StatusBadRequest (Some (ErrorValue (OtherError ''quantity cannot be less than 0''))))
          else
            (case svc_ReserveEvent L repo flt c rnd True gone new_id
                    \<lparr>rer_EventId = eventId, rer_UserId = ud_Id user, rer_Quantity = reb_Quantity reserveEventReq,
                     rer_IdempotencyKey = (if reb_IdempotencyKey reserveEventReq \<noteq> [] then Some (reb_IdempotencyKey reserveEventReq) else None)\<rparr> s of
               (s', Inl err) \<Rightarrow> (s', reserve_error err)
             | (s', Inr reservationItem) \<Rightarrow> (s', WriteJSONResponse StatusOK (Some (PReservationItem reservationItem))))))"

definition confirmReservationHandler ::
  "(confirm_call \<Rightarrow> io) \<Rightarrow> clocks \<Rightarrow> string \<Rightarrow> UserDto option \<Rightarrow> request \<Rightarrow> 'l sys \<Rightarrow> 'l sys \<times> response" where
  "confirmReservationHandler flt c rid ctx_user rq s =
     (case ctx_user of
        None \<Rightarrow> (s, WriteJSONResponse StatusBadRequest None)
      | Some userDto \<Rightarrow>
          (case svc_ConfirmReservation flt c (ud_Id userDto) rid s of
             (s', Inl err) \<Rightarrow> (s', WriteErrorResponse StatusBadRequest err)
           | (s', Inr _) \<Rightarrow> (s', WriteJSONResponse StatusCreated None)))"

definition releaseReservationHandler ::
  "'l lru_ops \<Rightarrow> (release_call \<Rightarrow> io) \<Rightarrow> clocks \<Rightarrow> string \<Rightarrow> UserDto option \<Rightarrow> request \<Rightarrow> 'l sys \<Rightarrow> 'l sys \<times> response" where
  "releaseReservationHandler L flt c rid ctx_user rq s =
     (case ctx_user of
        None \<Rightarrow> (s, WriteJSONResponse StatusBadRequest None)
      | Some userDto \<Rightarrow>
          (case svc_ReleaseReservation L flt c (ud_Id userDto) rid s of
             (s', Inl err) \<Rightarrow> (s', WriteErrorResponse StatusBadRequest err)
           | (s', Inr _) \<Rightarrow> (s', WriteJSONResponse StatusCreated None)))"

definition getReservationHandler ::
  "io \<Rightarrow> string \<Rightarrow> UserDto option \<Rightarrow> request \<Rightarrow> 'l sys \<Rightarrow> 'l sys \<times> response" where
  "getReservationHandler x rid ctx_user rq s =
     (s, case svc_GetReservation x rid s of
           Inl err \<Rightarrow>
             (if err = ErrReservationNotFound then WriteJSONResponse StatusNotFound None
              else if err = Canceled then WriteErrorResponse StatusBadRequest err
              else if err = DeadlineExceeded then WriteErrorResponse StatusGatewayTimeout err
              else WriteJSONResponse StatusInternalServerError None)
         | Inr reservationItem \<Rightarrow> WriteJSONResponse StatusOK (Some (PReservation (ReservationDto_toDto reservationItem))))"

section \<open>Virtual queues\<close>

record EventIdBody =
  eb_EventId :: string

definition EventIdBody_fields :: "EventIdBody fields" where
  "EventIdBody_fields = [(''eventId'', json_string (\<lambda>v r. r\<lparr>eb_EventId := v\<rparr>))]"

record PingRequestBody = EventIdBody +
  pb_UserId :: string

definition PingRequestBody_fields :: "PingRequestBody fields" where
  "PingRequestBody_fields =
     [(''eventId'', json_string (\<lambda>v r. r\<lparr>eb_EventId := v\<rparr>)), (''userId'', json_string (\<lambda>v r. r\<lparr>pb_UserId := v\<rparr>))]"

definition StatusInQueue :: string where "StatusInQueue = ''in queue''"
definition StatusWhitelisted :: string where "StatusWhitelisted = ''whitelisted''"

definition enqueueHandler ::
  "VirtualQueueRepository \<Rightarrow> (queue_call \<Rightarrow> io) \<Rightarrow> clocks \<Rightarrow> UserDto option \<Rightarrow> request \<Rightarrow> 'l sys \<Rightarrow> 'l sys \<times> response" where
  "enqueueHandler repo flt c ctx_user rq s =
     (case ctx_user of
        None \<Rightarrow> (s, WriteJSONResponse StatusBadRequest None)
      | Some userDto \<Rightarrow>
     (case DecodeRequestBody EventIdBody_fields \<lparr>eb_EventId = []\<rparr> (rq_body rq) of
        Inl err \<Rightarrow> (s, WriteErrorResponse StatusBadRequest err)
      | Inr enqueueReq \<Rightarrow>
          (case svc_Enqueue repo flt c (eb_EventId enqueueReq) (ud_Id userDto) s of
             (s', Inl err) \<Rightarrow>
               (s', if err = ErrVirtualQueueExist then WriteErrorResponse StatusConflict err
                    else if err = ErrMissingWhitelistKey then WriteErrorResponse StatusBadRequest err
                    else WriteErrorResponse StatusBadRequest err)
           | (s', Inr whitelistTTL) \<Rightarrow>
               (s', if 0 < whitelistTTL then WriteJSONResponse StatusCreated (Some (PQueueStatus StatusWhitelisted))
                    else WriteJSONResponse StatusCreated (Some (PQueueStatus StatusInQueue))))))"

definition dequeueHandler ::
  "VirtualQueueRepository \<Rightarrow> (queue_call \<Rightarrow> io) \<Rightarrow> clocks \<Rightarrow> UserDto option \<Rightarrow> request \<Rightarrow> 'l sys \<Rightarrow> 'l sys \<times> response" where
  "dequeueHandler repo flt c ctx_user rq s =
     (case ctx_user of
        None \<Rightarrow> (s, WriteJSONResponse StatusBadRequest None)
      | Some userDto \<Rightarrow>
     (case DecodeRequestBody EventIdBody_fields \<lparr>eb_EventId = []\<rparr> (rq_body rq) of
        Inl err \<Rightarrow> (s, WriteErrorResponse StatusBadRequest err)
      | Inr dequeueReq \<Rightarrow>
          (case svc_Dequeue repo flt c (eb_EventId dequeueReq) (ud_Id userDto) s of
             (s', Inl err) \<Rightarrow> (s', WriteErrorResponse StatusBadRequest err)
           | (s', Inr _) \<Rightarrow> (s', WriteJSONResponse StatusCreated None))))"

text \<open>\<open>int64(ttl.Seconds())\<close> truncates towards zero; a slot's time is never negative.\<close>

definition pingHandler ::
  "'l lru_ops \<Rightarrow> VirtualQueueRepository \<Rightarrow> (queue_call \<Rightarrow> io) \<Rightarrow> clocks \<Rightarrow> UserDto option \<Rightarrow> request \<Rightarrow> 'l sys \<Rightarrow> 'l sys \<times> response" where
  "pingHandler L repo flt c ctx_user rq s =
     (case ctx_user of
        None \<Rightarrow> (s, WriteJSONResponse StatusBadRequest None)
      | Some userDto \<Rightarrow>
     (case DecodeRequestBody PingRequestBody_fields \<lparr>eb_EventId = [], pb_UserId = []\<rparr> (rq_body rq) of
        Inl err \<Rightarrow> (s, WriteErrorResponse StatusBadRequest err)
      | Inr pingReq \<Rightarrow>
          (case svc_Ping L repo flt c (eb_EventId pingReq) (ud_Id userDto) s of
             (s', Inl err) \<Rightarrow> (s', WriteErrorResponse StatusBadRequest err)
           | (s', Inr status) \<Rightarrow>
               (s', if \<not> qs_Alive status then WriteErrorResponse StatusNotFound (OtherError ''queue does not exist'')
                    else WriteJSONResponse StatusOK
                           (Some (PPing (0 < qs_WhitelistTTL status) (int (Seconds (qs_WhitelistTTL status))) (qs_SoldOut status)))))))"

definition getTotalVirtualQueueHandler ::
  "io \<Rightarrow> string \<Rightarrow> UserDto option \<Rightarrow> request \<Rightarrow> 'l sys \<Rightarrow> 'l sys \<times> response" where
  "getTotalVirtualQueueHandler x eventId ctx_user rq s =
     (s, case svc_GetTotalVirtualQueue x eventId s of
           Inl err \<Rightarrow> WriteErrorResponse StatusBadRequest err
         | Inr n \<Rightarrow> WriteJSONResponse StatusOK (Some (PTotal n)))"

section \<open>Health\<close>

definition GetHealth :: "io \<Rightarrow> io \<Rightarrow> bool \<times> bool" where
  "GetHealth pg_ping redis_ping = (io_err pg_ping = None, io_err redis_ping = None)"

definition getHealth :: "io \<Rightarrow> io \<Rightarrow> request \<Rightarrow> 'l sys \<Rightarrow> 'l sys \<times> response" where
  "getHealth pg_ping redis_ping rq s =
     (let (postgres, redis) = GetHealth pg_ping redis_ping;
          status = (if \<not> postgres \<or> \<not> redis then StatusServiceUnavailable else StatusOK)
      in (s, WriteJSONResponse status (Some (PHealth postgres redis))))"

section \<open>The server\<close>

text \<open>The routes that the \<open>NewHandler\<close> functions register, with their URL parameters.\<close>

datatype route =
    R_Health
  | R_CreateUser | R_Login | R_Me | R_GetUser string
  | R_CreateEvent | R_CreateEventBulk | R_GetEvent string | R_ListEvents | R_UpdateEvent string | R_DeleteEvent string
  | R_Reserve string | R_Confirm string | R_Release string | R_GetReservation string
  | R_UpdateReservation string | R_DeleteReservation string
  | R_Ping | R_Enqueue | R_Dequeue | R_Total string

text \<open>What the server is built from, and what one request meets: its clocks, the outcomes of its calls, fresh values.\<close>

record 'l server =
  sv_lru :: "'l lru_ops"
  sv_queue :: VirtualQueueRepository
  sv_jwt :: jwt_lib
  sv_JwtSecret :: string
  sv_hash :: "string \<Rightarrow> string result"
  sv_rfc3339 :: "string \<Rightarrow> time option"

record circumstances =
  k_clocks :: clocks
  k_new_id :: string
  k_rnd :: nat
  k_gone :: "go_error option"
  k_auth :: "get_user_call \<Rightarrow> io"
  k_user :: "get_user_call \<Rightarrow> io"
  k_event :: "get_event_call \<Rightarrow> io"
  k_reserve :: "svc_call \<Rightarrow> io"
  k_confirm :: "confirm_call \<Rightarrow> io"
  k_release :: "release_call \<Rightarrow> io"
  k_queue :: "queue_call \<Rightarrow> io"
  k_query :: io
  k_pg_ping :: io
  k_redis_ping :: io

fun open_handler :: "'l server \<Rightarrow> circumstances \<Rightarrow> route \<Rightarrow> (request \<Rightarrow> 'l sys \<Rightarrow> 'l sys \<times> response) option" where
  "open_handler sv k R_Health = Some (getHealth (k_pg_ping k) (k_redis_ping k))"
| "open_handler sv k R_CreateUser = Some (createUserHandler (sv_hash sv) (k_query k) (k_clocks k) (k_new_id k))"
| "open_handler sv k R_Login = Some (loginHandler (sv_jwt sv) (sv_JwtSecret sv) (k_user k) (k_clocks k))"
| "open_handler sv k R_CreateEvent = Some (createEventHandler (sv_rfc3339 sv) (k_query k) (k_clocks k) (k_new_id k))"
| "open_handler sv k R_CreateEventBulk = Some emptyHandler"
| "open_handler sv k (R_GetEvent eid) = Some (getEventHandler (k_event k) (k_clocks k) (k_rnd k) (k_gone k) eid)"
| "open_handler sv k R_ListEvents = Some (listEventsHandler (k_query k))"
| "open_handler sv k (R_UpdateEvent eid) = Some emptyHandler"
| "open_handler sv k (R_DeleteEvent eid) = Some emptyHandler"
| "open_handler sv k (R_UpdateReservation rid) = Some emptyHandler"
| "open_handler sv k (R_DeleteReservation rid) = Some emptyHandler"
| "open_handler sv k _ = None"

fun user_handler :: "'l server \<Rightarrow> circumstances \<Rightarrow> route \<Rightarrow> UserDto option \<Rightarrow> request \<Rightarrow> 'l sys \<Rightarrow> 'l sys \<times> response" where
  "user_handler sv k (R_GetUser uid) = getUserHandler (k_user k) (k_clocks k) uid"
| "user_handler sv k (R_Reserve eid) =
     reserveEventHandler (sv_lru sv) (sv_queue sv) (k_reserve k) (k_clocks k) (k_rnd k) (k_gone k) (k_new_id k) eid"
| "user_handler sv k (R_Confirm rid) = confirmReservationHandler (k_confirm k) (k_clocks k) rid"
| "user_handler sv k (R_Release rid) = releaseReservationHandler (sv_lru sv) (k_release k) (k_clocks k) rid"
| "user_handler sv k (R_GetReservation rid) = getReservationHandler (k_query k) rid"
| "user_handler sv k R_Ping = pingHandler (sv_lru sv) (sv_queue sv) (k_queue k) (k_clocks k)"
| "user_handler sv k R_Enqueue = enqueueHandler (sv_queue sv) (k_queue k) (k_clocks k)"
| "user_handler sv k R_Dequeue = dequeueHandler (sv_queue sv) (k_queue k) (k_clocks k)"
| "user_handler sv k (R_Total eid) = getTotalVirtualQueueHandler (k_query k) eid"
| "user_handler sv k R_Me = meHandler"
| "user_handler sv k _ = (\<lambda>_. emptyHandler)"

text \<open>The last equation is for the routes that \<open>open_handler\<close> serves, which do not get here.\<close>

definition serve :: "'l server \<Rightarrow> circumstances \<Rightarrow> route \<Rightarrow> request \<Rightarrow> 'l sys \<Rightarrow> 'l sys \<times> response" where
  "serve sv k rt rq s =
     (case open_handler sv k rt of
        Some h \<Rightarrow> h rq s
      | None \<Rightarrow> RequireAuth (sv_jwt sv) (sv_JwtSecret sv) (k_auth k) (k_clocks k) (user_handler sv k rt) rq s)"

end
