(* ===== verification/Server.thy ===== *)
theory Server
  imports Handlers
begin

text \<open>
  What the server promises its clients: the handlers of \<open>Handlers\<close> put together with the
  authentication of \<open>Http\<close>. A request is at most one transaction of the reservation store, done in
  the name of the user whose token it carries, so the invariants of the store hold for every
  sequence of requests, and nobody's reservations are changed by somebody else.
\<close>

section \<open>What a request does to the database\<close>

text \<open>A handler's error switch builds the response and keeps the state that the service call left.\<close>

lemma fst_switch:
  "fst (case p of (s', Inl e) \<Rightarrow> (U s', A s' e) | (s', Inr x) \<Rightarrow> (U s', B s' x)) = U (fst p)"
  by (auto split: prod.splits sum.splits)

inductive user_tx :: "time \<Rightarrow> string \<Rightarrow> pg \<Rightarrow> pg \<Rightarrow> bool" for t u db where
  none: "user_tx t u db db"
| reserve: "user_tx t u db (fst (pg_ReserveEvent flt t wall i e u q k db))"
| update: "user_tx t u db (fst (pg_UpdateReservation flt' t wall u rid st db))"

lemma reserveEventHandler_tx:
  "user_tx (c_pg c) (ud_Id user) (sys_db s)
     (sys_db (fst (reserveEventHandler L repo flt c rnd gone new_id eid (Some user) rq s)))"
proof -
  have "user_tx (c_pg c) (ud_Id user) (sys_db s) (sys_db (fst (svc_ReserveEvent L repo flt c rnd True gone new_id req s)))"
    if "rer_UserId req = ud_Id user" for req
    using that by (cases rule: svc_ReserveEvent_db [of L repo flt c rnd True gone new_id req s]) (simp_all add: user_tx.intros)
  then show ?thesis by (simp add: reserveEventHandler_def fst_switch user_tx.none split: sum.split)
qed

lemma confirmReservationHandler_tx:
  "user_tx (c_pg c) (ud_Id user) (sys_db s) (sys_db (fst (confirmReservationHandler flt c rid (Some user) rq s)))"
  using svc_Confirm_db [of flt c "ud_Id user" rid s] user_tx.update
  by (simp add: confirmReservationHandler_def fst_switch)

lemma releaseReservationHandler_tx:
  "user_tx (c_pg c) (ud_Id user) (sys_db s) (sys_db (fst (releaseReservationHandler L flt c rid (Some user) rq s)))"
  using svc_Release_db [of L flt c "ud_Id user" rid s] user_tx.update
  by (simp add: releaseReservationHandler_def fst_switch)

lemma svc_queue_frame [simp]:
  "sys_db (fst (svc_Enqueue repo flt c e u s)) = sys_db s"
  "sys_db (fst (svc_Dequeue repo flt c e u s)) = sys_db s"
  "sys_db (fst (svc_Ping L repo flt c e u s)) = sys_db s"
  by (simp_all add: svc_Enqueue_def svc_Dequeue_def svc_Ping_def Let_def split_beta split: sum.split)

lemma queueHandlers_frame [simp]:
  "sys_db (fst (enqueueHandler repo flt c user rq s)) = sys_db s"
  "sys_db (fst (dequeueHandler repo flt c user rq s)) = sys_db s"
  "sys_db (fst (pingHandler L repo flt c user rq s)) = sys_db s"
  by (simp_all add: enqueueHandler_def dequeueHandler_def pingHandler_def fst_switch split: option.split sum.split)

lemma readHandlers_frame [simp]:
  "sys_db (fst (getUserHandler uflt c uid user rq s)) = sys_db s"
  "fst (meHandler user rq s) = s"
  "fst (getReservationHandler x rid user rq s) = s"
  "fst (getTotalVirtualQueueHandler x eid user rq s) = s"
  "fst (emptyHandler rq s) = s"
  by (simp_all add: getUserHandler_def meHandler_def getReservationHandler_def getTotalVirtualQueueHandler_def emptyHandler_def
      split: prod.splits sum.splits)

lemma user_handler_tx:
  "user_tx (c_pg (k_clocks k)) (ud_Id user) (sys_db s) (sys_db (fst (user_handler sv k rt (Some user) rq s)))"
  by (cases rt) (simp_all add: user_tx.none reserveEventHandler_tx confirmReservationHandler_tx releaseReservationHandler_tx)

text \<open>A transaction of one user leaves the rows of all others as they are.\<close>

abbreviation rows_of_others :: "string \<Rightarrow> pg \<Rightarrow> ReservationItem list" where
  "rows_of_others u db \<equiv> filter (\<lambda>r. res_UserId r \<noteq> u) (reservations_tbl db)"

lemma filter_map_same:
  "(\<And>x. x \<in> set xs \<Longrightarrow> P (f x) = P x) \<Longrightarrow> (\<And>x. x \<in> set xs \<Longrightarrow> P x \<Longrightarrow> f x = x) \<Longrightarrow> filter P (map f xs) = filter P xs"
  by (induction xs) auto

lemma user_tx_others:
  assumes "user_tx t u db db'" and "pg_wf db"
  shows "rows_of_others u db' = rows_of_others u db"
  using assms(1)
proof (cases rule: user_tx.cases)
  case (reserve flt wall i e q k)
  show ?thesis
  proof (cases rule: pg_ReserveEvent_cases [of flt t wall i e u q k db])
    case (inserted cap quota sold mine db2 r)
    then have db': "db' = db2" by (simp add: reserve)
    show ?thesis using assms(2) inserted(5)
    proof (cases rule: insert_reservation_wfE)
      case (conflict c)
      then have c: "c \<in> set (reservations_tbl db)" "res_UserId c = u"
        by (auto simp: conflicting_row_def find_Some_iff split: option.splits)
      have "inj_on res_Id (set (reservations_tbl db))" using assms(2) by (simp add: pg_wf_def reservations_ok_def distinct_map)
      then have other: "res_Id x \<noteq> res_Id c" if "x \<in> set (reservations_tbl db)" "res_UserId x \<noteq> u" for x
        using that c by (metis inj_onD)
      have "rows_of_others u db2 = filter (\<lambda>r. res_UserId r \<noteq> u) (map (touch t (res_Id c)) (reservations_tbl db))"
        by (simp add: conflict)
      also have "\<dots> = rows_of_others u db" by (rule filter_map_same) (use other in simp_all)
      finally show ?thesis by (simp add: db')
    next
      case fresh
      then show ?thesis by (simp add: db')
    qed
  qed (simp add: reserve)
next
  case (update flt' wall rid st)
  have "rows_of_others u (apply_update t wall u rid st db) = rows_of_others u db"
    unfolding apply_update_def by simp (rule filter_map_same, simp_all add: updatable_def)
  then show ?thesis
    by (cases rule: pg_UpdateReservation_cases [of flt' t wall u rid st db]) (simp_all add: update)
qed simp

lemma user_tx_inv: "user_tx t u db db' \<Longrightarrow> store_inv (t, db) \<Longrightarrow> store_inv (t, db')"
  by (induction rule: user_tx.induct) (auto intro: store_inv_reserve store_inv_update)

section \<open>New events and new users\<close>

text \<open>Neither has a reservation yet, because the rows refer to the tables.\<close>

lemma seats_where_none: "(\<And>r. r \<in> set rs \<Longrightarrow> \<not> P r) \<Longrightarrow> seats_where P rs = 0"
  by (auto simp: seats_where_def filter_empty_conv)

lemma new_event_inv:
  assumes inv: "store_inv (t, db)" and "insert_event now new_id ne db = Inr (db', item)"
  shows "store_inv (t, db')"
proof -
  note ins = insert_event_InrD [OF assms(2)]
  have wf: "pg_wf db" using inv by (simp add: store_inv_def)
  then have "res_EventId r \<noteq> new_id" if "r \<in> set (reservations_tbl db)" for r
    using that ins(4) by (auto simp: pg_wf_def reservations_ok_def list_all_iff)
  then have "active_seats t new_id (reservations_tbl db) = 0" "user_active_seats t new_id u (reservations_tbl db) = 0" for u
    unfolding active_seats_def user_active_seats_def by (auto intro!: seats_where_none)
  then show ?thesis using inv insert_event_wf [OF wf assms(2)] ins(1,3)
    by (simp add: store_inv_def within_capacity_def within_quota_def list_all_iff)
qed

lemma new_user_inv:
  assumes inv: "store_inv (t, db)" and "insert_user now new_id nu db = Inr (db', item)"
  shows "store_inv (t, db')"
proof -
  have ins: "db' = db\<lparr>users_tbl := users_tbl db @ [mk_user now new_id nu]\<rparr>" "new_id \<notin> set (map ur_id (users_tbl db))"
    using assms(2) by (auto simp: insert_user_def Let_def split: if_splits)
  have wf: "pg_wf db" using inv by (simp add: store_inv_def)
  then have "res_UserId r \<noteq> new_id" if "r \<in> set (reservations_tbl db)" for r
    using that ins(2) by (auto simp: pg_wf_def reservations_ok_def list_all_iff)
  then have "user_active_seats t e new_id (reservations_tbl db) = 0" for e
    unfolding user_active_seats_def by (auto intro!: seats_where_none)
  then show ?thesis using inv insert_user_wf [OF wf assms(2)] ins(1)
    by (simp add: store_inv_def within_capacity_def within_quota_def list_all_iff mk_user_def)
qed

lemma insert_event_rows: "insert_event now i ne db = Inr (db', item) \<Longrightarrow> reservations_tbl db' = reservations_tbl db"
  using insert_event_InrD(1) [of now i ne db db' item] by simp

lemma insert_user_rows: "insert_user now i nu db = Inr (db', item) \<Longrightarrow> reservations_tbl db' = reservations_tbl db"
  by (auto simp: insert_user_def Let_def split: if_splits)

lemma commit_insert_state: "fst (commit_insert x res s) = s \<or> (\<exists>s' a. res = Inr (s', a) \<and> fst (commit_insert x res s) = s')"
  using io_call_state [of x "\<lambda>_. (fst (projr res), snd (projr res))" s]
  by (cases "(x, res, s)" rule: commit_insert.cases) auto

lemma createEventHandler_inv:
  assumes "store_inv (t, sys_db s)"
  shows "store_inv (t, sys_db (fst (createEventHandler rfc x c new_id rq s)))"
    and "reservations_tbl (sys_db (fst (createEventHandler rfc x c new_id rq s))) = reservations_tbl (sys_db s)"
proof -
  have "store_inv (t, fst (svc_CreateEvent x now new_id req (sys_db s)))
      \<and> reservations_tbl (fst (svc_CreateEvent x now new_id req (sys_db s))) = reservations_tbl (sys_db s)" for now req
  proof -
    let ?ne = "\<lparr>ne_Name = cer_Name req, ne_Capacity = cer_Capacity req, ne_MaxReservePerUser = cer_MaxReservePerUser req,
      ne_StartSalesAt = cer_StartSalesAt req\<rparr>"
    show ?thesis using commit_insert_state [of x "insert_event now new_id ?ne (sys_db s)" "sys_db s"] assms
      by (auto simp: svc_CreateEvent_def pg_CreateEvent_def dest: insert_event_rows intro: new_event_inv)
  qed
  then show "store_inv (t, sys_db (fst (createEventHandler rfc x c new_id rq s)))"
    and "reservations_tbl (sys_db (fst (createEventHandler rfc x c new_id rq s))) = reservations_tbl (sys_db s)"
    using assms by (simp_all add: createEventHandler_def fst_switch split: sum.split)
qed

lemma pg_CreateUser_state:
  "fst (pg_CreateUser x now new_id name email hash db) =
   fst (commit_insert x (insert_user now new_id \<lparr>nu_Name = name, nu_Email = email, nu_PasswordHash = hash\<rparr> db) db)"
  by (auto simp: pg_CreateUser_def split: prod.splits sum.splits go_error.splits)

lemma createUserHandler_inv:
  assumes "store_inv (t, sys_db s)"
  shows "store_inv (t, sys_db (fst (createUserHandler hash x c new_id rq s)))"
    and "reservations_tbl (sys_db (fst (createUserHandler hash x c new_id rq s))) = reservations_tbl (sys_db s)"
proof -
  have "store_inv (t, fst (svc_CreateUser hash x now new_id req (sys_db s)))
      \<and> reservations_tbl (fst (svc_CreateUser hash x now new_id req (sys_db s))) = reservations_tbl (sys_db s)" for now req
  proof (cases "hash (cur_Password req)")
    case (Inr h)
    let ?nu = "\<lparr>nu_Name = cur_Name req, nu_Email = cur_Email req, nu_PasswordHash = h\<rparr>"
    show ?thesis using commit_insert_state [of x "insert_user now new_id ?nu (sys_db s)" "sys_db s"] assms Inr
      by (auto simp: svc_CreateUser_def pg_CreateUser_state dest: insert_user_rows intro: new_user_inv)
  qed (simp add: svc_CreateUser_def assms)
  then show "store_inv (t, sys_db (fst (createUserHandler hash x c new_id rq s)))"
    and "reservations_tbl (sys_db (fst (createUserHandler hash x c new_id rq s))) = reservations_tbl (sys_db s)"
    using assms by (simp_all add: createUserHandler_def fst_switch split: sum.split)
qed

section \<open>The server as a state machine\<close>

text \<open>
  Any requests to any routes of the API with any outcome of their calls, one at a time, and besides them
  time, the sweep, and whatever changes only Redis and the local caches. The demo routes, which
  \<open>NewHandler\<close> registers in demo mode, join them in the theory \<open>Site\<close>.
\<close>

inductive http_step :: "'l server \<Rightarrow> time \<times> 'l sys \<Rightarrow> time \<times> 'l sys \<Rightarrow> bool" for sv where
  tick: "t \<le> t' \<Longrightarrow> http_step sv (t, s) (t', s)"
| caches: "http_step sv (t, s) (t, s\<lparr>sys_redis := r, sys_lru := l\<rparr>)"
| request: "c_pg (k_clocks k) = t \<Longrightarrow> http_step sv (t, s) (t, fst (serve sv k rt rq s))"
| refresh: "c_pg c' = t \<Longrightarrow> http_step sv (t, s) (t, fst (repo_RefreshEventStatus (sv_lru sv) sflt c c' c'' dl token s))"

lemma open_handler_inv:
  assumes "open_handler sv k rt = Some h" and "store_inv (t, sys_db s)"
  shows "store_inv (t, sys_db (fst (h rq s)))" and "reservations_tbl (sys_db (fst (h rq s))) = reservations_tbl (sys_db s)"
  using assms createEventHandler_inv [OF assms(2)] createUserHandler_inv [OF assms(2)]
  by (cases rt; force simp: getHealth_def loginHandler_def getEventHandler_def listEventsHandler_def emptyHandler_def Let_def
      fst_switch split_beta split: sum.splits)+

lemma serve_protected:
  assumes "open_handler sv k rt = None"
    and "GetAuthenticatedUser (sv_jwt sv) (sv_JwtSecret sv) (k_auth k) (k_clocks k) rq s = (s1, res)"
  shows "serve sv k rt rq s =
    (case res of Inl err \<Rightarrow> (s1, WriteJSONResponse StatusUnauthorized (Some (ErrorValue err)))
               | Inr user \<Rightarrow> user_handler sv k rt (Some user) rq s1)"
  using assms by (simp add: serve_def RequireAuth_def split: sum.split)

lemma serve_inv:
  assumes inv: "store_inv (t, sys_db s)" and "c_pg (k_clocks k) = t"
  shows "store_inv (t, sys_db (fst (serve sv k rt rq s)))"
proof (cases "open_handler sv k rt")
  case (Some h)
  then show ?thesis using open_handler_inv(1) [OF Some inv] by (simp add: serve_def)
next
  case None
  obtain s1 res where auth: "GetAuthenticatedUser (sv_jwt sv) (sv_JwtSecret sv) (k_auth k) (k_clocks k) rq s = (s1, res)"
    by fastforce
  have "sys_db s1 = sys_db s" using GetAuthenticatedUser_frame [OF auth] by simp
  then show ?thesis using inv user_handler_tx [of k _ s1 sv rt rq]
    by (auto simp: serve_protected [OF None auth] assms(2) intro: user_tx_inv split: sum.split)
qed

lemma http_step_inv: "http_step sv s s' \<Longrightarrow> store_inv (fst s, sys_db (snd s)) \<Longrightarrow> store_inv (fst s', sys_db (snd s'))"
proof (induction rule: http_step.induct)
  case (tick t t' s)
  then show ?case using store_step_inv [OF store_step.tick] by simp
next
  case (refresh c' t s sflt c c'' dl token)
  then show ?case using repo_RefreshEventStatus_db [of "sv_lru sv" sflt c c' c'' dl token s] by (auto intro: store_inv_sweep)
qed (auto intro: serve_inv)

lemma login_body:
  "DecodeRequestBody LoginRequestBody_fields \<lparr>ib_Id = []\<rparr> (Some (JObj [(''id'', JStr uid)])) = Inr \<lparr>ib_Id = uid\<rparr>"
  by (simp add: LoginRequestBody_fields_def field_setter_def)

section \<open>A token library and a server for examples\<close>

text \<open>Tokens that spell out the claims and the secret in hexadecimal letters.\<close>

definition hex2 :: "char \<Rightarrow> string" where
  "hex2 c = [char_of (97 + of_char c div (16::nat)), char_of (97 + of_char c mod (16::nat))]"

fun unhex :: "string \<Rightarrow> string" where
  "unhex (a # b # cs) = char_of (16 * (of_char a - 97) + (of_char b - (97::nat))) # unhex cs"
| "unhex _ = []"

abbreviation enc :: "string \<Rightarrow> string" where "enc s \<equiv> concat (map hex2 s)"
abbreviation not_dot :: "char \<Rightarrow> bool" where "not_dot c \<equiv> c \<noteq> CHR ''.''"

fun dot_field :: "nat \<Rightarrow> string \<Rightarrow> string" where
  "dot_field 0 s = takeWhile not_dot s"
| "dot_field (Suc n) s = dot_field n (drop 1 (dropWhile not_dot s))"

definition demo_token :: "string \<Rightarrow> userClaims \<Rightarrow> string" where
  "demo_token secret c = enc (uc_Name c) @ ''.'' @ enc (uc_Email c) @ ''.'' @ enc (uc_Subject c) @ ''.'' @ enc secret"

definition demo_jwt :: jwt_lib where
  "demo_jwt = \<lparr>jwt_SignedString = (\<lambda>secret c. Inr (demo_token secret c)),
     jwt_ParseWithClaims = (\<lambda>tok key. case key HMAC of
        Inl e \<Rightarrow> Inl e
      | Inr secret \<Rightarrow>
          if unhex (dot_field 3 tok) = secret
          then Inr (\<lparr>uc_Name = unhex (dot_field 0 tok), uc_Email = unhex (dot_field 1 tok), uc_Subject = unhex (dot_field 2 tok)\<rparr>, True)
          else Inl (OtherError ''signature is invalid'')),
     jwt_Method = (\<lambda>_. HMAC)\<rparr>"

lemma hex2_chars: "x \<in> set (hex2 c) \<Longrightarrow> (97::nat) \<le> of_char x \<and> of_char x < (113::nat)"
proof -
  have "of_char c div 16 < (16::nat)" using nat_of_char_less_256 [of c] by (simp add: less_mult_imp_div_less)
  then show "x \<in> set (hex2 c) \<Longrightarrow> (97::nat) \<le> of_char x \<and> of_char x < (113::nat)" by (auto simp: hex2_def)
qed

lemma unhex_enc: "unhex (enc s) = s"
proof (induction s)
  case (Cons c s)
  have "of_char c div 16 < (16::nat)" using nat_of_char_less_256 [of c] by (simp add: less_mult_imp_div_less)
  then have "unhex (hex2 c @ enc s) = c # unhex (enc s)" by (simp add: hex2_def)
  then show ?case using Cons by simp
qed simp

lemma enc_chars: "x \<in> set (enc s) \<Longrightarrow> not_dot x \<and> token_char x"
  using hex2_chars [of x] by (fastforce simp: token_char_def)

lemma dot_field_enc:
  "takeWhile not_dot (enc s) = enc s" "takeWhile not_dot (enc s @ CHR ''.'' # t) = enc s"
  "dropWhile not_dot (enc s @ CHR ''.'' # t) = CHR ''.'' # t"
proof -
  have no: "not_dot x" if "x \<in> set (enc s)" for x using enc_chars [OF that] by simp
  show "takeWhile not_dot (enc s) = enc s" using no by (simp only: takeWhile_eq_all_conv) blast
  show "takeWhile not_dot (enc s @ CHR ''.'' # t) = enc s" using no by (subst takeWhile_append2) simp_all
  show "dropWhile not_dot (enc s @ CHR ''.'' # t) = CHR ''.'' # t" using no by (subst dropWhile_append2) simp_all
qed

lemma demo_token_fields:
  "dot_field 0 (demo_token k c) = enc (uc_Name c)" "dot_field 1 (demo_token k c) = enc (uc_Email c)"
  "dot_field 2 (demo_token k c) = enc (uc_Subject c)" "dot_field 3 (demo_token k c) = enc k"
  by (simp_all add: demo_token_def numeral_2_eq_2 numeral_3_eq_3 dot_field_enc)

lemma demo_jwt_laws: "jwt_laws demo_jwt"
proof -
  note fields = demo_token_fields
  have "demo_token k c \<noteq> []" "list_all token_char (demo_token k c)" for k c
    using enc_chars by (auto simp: demo_token_def list_all_iff token_char_def)
  then show ?thesis by (auto simp: jwt_laws_def demo_jwt_def fields unhex_enc simp del: dot_field.simps One_nat_def)
qed

definition demo_server :: "(string \<Rightarrow> time option) server" where
  "demo_server = \<lparr>sv_lru = table_lru lruBlockTTL, sv_queue = demo_repo, sv_jwt = demo_jwt, sv_JwtSecret = ''k'',
     sv_hash = Inr, sv_rfc3339 = (\<lambda>_. None)\<rparr>"

definition demo_calls :: circumstances where
  "demo_calls = \<lparr>k_clocks = demo_clock, k_new_id = ''r9'', k_rnd = 0, k_gone = None, k_auth = (\<lambda>_. Done), k_user = (\<lambda>_. Done),
     k_event = (\<lambda>_. Done), k_reserve = (\<lambda>_. Done), k_confirm = (\<lambda>_. Done), k_release = (\<lambda>_. Done), k_queue = (\<lambda>_. Done),
     k_query = Done, k_pg_ping = Done, k_redis_ping = Done\<rparr>"

section \<open>Properties\<close>

text \<open>
  C4: nobody acts for somebody else. On every route of the API, a request changes reservations only in the name of the
  user its bearer token was issued for: without a token that authenticates, the table of reservations stays as it is; with
  one, the rows of all other users stay as they are, in content and order.
\<close>

theorem requests_change_only_own_reservations:
  assumes "pg_wf (sys_db s)" and "within_capacity (c_pg (k_clocks k)) (sys_db s)" and "within_quota (c_pg (k_clocks k)) (sys_db s)"
  shows "case snd (GetAuthenticatedUser (sv_jwt sv) (sv_JwtSecret sv) (k_auth k) (k_clocks k) rq s) of
      Inl _ \<Rightarrow> reservations_tbl (sys_db (fst (serve sv k rt rq s))) = reservations_tbl (sys_db s)
    | Inr user \<Rightarrow> filter (\<lambda>r. res_UserId r \<noteq> ud_Id user) (reservations_tbl (sys_db (fst (serve sv k rt rq s))))
        = filter (\<lambda>r. res_UserId r \<noteq> ud_Id user) (reservations_tbl (sys_db s))"
proof (cases "open_handler sv k rt")
  case (Some h)
  have "reservations_tbl (sys_db (fst (h rq s))) = reservations_tbl (sys_db s)"
    by (rule open_handler_inv(2) [OF Some, of "c_pg (k_clocks k)"]) (use assms in \<open>simp add: store_inv_def\<close>)
  then show ?thesis using Some by (simp add: serve_def split: sum.split)
next
  case None
  obtain s1 res where auth: "GetAuthenticatedUser (sv_jwt sv) (sv_JwtSecret sv) (k_auth k) (k_clocks k) rq s = (s1, res)"
    by fastforce
  have "sys_db s1 = sys_db s" using GetAuthenticatedUser_frame [OF auth] by simp
  then show ?thesis using user_tx_others [OF user_handler_tx [of k _ s1 sv rt rq]] assms(1)
    by (simp add: serve_protected [OF None auth] auth split: sum.split)
qed

theorem requests_change_only_own_reservations_witness:
  "reservations_tbl (sys_db (fst (serve demo_server demo_calls (R_Release ''r1'')
     \<lparr>rq_authorization = ''Basic x'', rq_limit = [], rq_body = None\<rparr> (demo_sys [] empty_redis (\<lambda>_. None))))) = []"
proof -
  let ?s = "demo_sys [] empty_redis (\<lambda>_. None)" and ?rq = "\<lparr>rq_authorization = ''Basic x'', rq_limit = [], rq_body = None\<rparr>"
  have db: "sys_db ?s = demo_db" by (simp add: demo_sys_def demo_db_def)
  have "within_capacity t demo_db" "within_quota t demo_db" for t
    by (simp_all add: within_capacity_def within_quota_def demo_defs active_seats_def user_active_seats_def seats_where_def)
  moreover have "snd (GetAuthenticatedUser demo_jwt ''k'' f c ?rq ?s) = Inl ErrMissingBearerToken" for f c
    by (simp add: GetAuthenticatedUser_def bearer_prefix_def)
  ultimately show ?thesis
    using requests_change_only_own_reservations [where s = ?s and k = demo_calls and sv = demo_server and rq = ?rq and rt = "R_Release ''r1''"] demo_db_wf
    by (simp add: db) (simp add: demo_server_def demo_db_def)
qed


text \<open>
  C18: a protected route is closed without a valid token. If the request carries no bearer token, or one that is
  not genuine for the server's secret (forged or signed with another key, expired, with a signing method other than
  HMAC such as \<open>none\<close>), or a genuine one for a user who is not in the table while the user cache agrees with
  it: every route behind \<open>RequireAuth\<close> answers 401 and nothing at all changes, no table, no cache, no queue.
  Without a genuine token the error is one of the two token errors.
\<close>

theorem protected_routes_need_token:
  assumes "open_handler sv k rt = None" and "jwt_sound genuine (sv_jwt sv)"
    and "\<And>claims. genuine_bearer genuine (sv_jwt sv) (sv_JwtSecret sv) rq claims \<Longrightarrow>
      coherent user_cached (user_rows (sys_db s)) (sys_redis s) \<and> user_rows (sys_db s) (uc_Subject claims) = None"
  shows "\<exists>e. serve sv k rt rq s = (s, WriteJSONResponse StatusUnauthorized (Some (ErrorValue e)))
    \<and> ((\<nexists>claims. genuine_bearer genuine (sv_jwt sv) (sv_JwtSecret sv) rq claims) \<longrightarrow> e = ErrMissingBearerToken \<or> e = ErrInvalidToken)"
proof (cases rule: GetAuthenticatedUser_genuine [OF assms(2), of "sv_JwtSecret sv" "k_auth k" "k_clocks k" rq s])
  case (1 e)
  then show ?thesis using serve_protected [OF assms(1)] by auto
next
  case (2 claims)
  obtain r' out where get: "repo_GetUser (k_auth k) (c_redis (k_clocks k)) (uc_Subject claims) (sys_db s) (sys_redis s) = (r', out)" by fastforce
  obtain e where e: "out = Inl e"
    using GetUser_coherent_row [of "sys_db s" "sys_redis s"] assms(3) [OF 2(1)] get by (cases out) auto
  then have "GetAuthenticatedUser (sv_jwt sv) (sv_JwtSecret sv) (k_auth k) (k_clocks k) rq s = (s, Inl e)"
    using 2(2) get repo_GetUser_error_same [of "k_auth k"] by simp
  then show ?thesis using serve_protected [OF assms(1)] 2(1) by auto
qed

text \<open>A request with a token for \<open>u1\<close> that is signed with the given key.\<close>

definition demo_claims :: userClaims where
  "demo_claims = \<lparr>uc_Name = [], uc_Email = [], uc_Subject = ''u1''\<rparr>"

definition with_forged :: "string \<Rightarrow> request" where
  "with_forged key = \<lparr>rq_authorization = bearer_prefix @ demo_token key demo_claims, rq_limit = [], rq_body = None\<rparr>"

lemma demo_jwt_sound: "jwt_sound (\<lambda>secret tok claims. unhex (dot_field 3 tok) = secret \<and> unhex (dot_field 2 tok) = uc_Subject claims) demo_jwt"
  by (auto simp: jwt_sound_def demo_jwt_def split: sum.splits if_splits)

theorem protected_routes_need_token_witness:
  "\<exists>e. serve demo_server demo_calls R_Enqueue (with_forged ''x'') (demo_sys [] empty_redis (\<lambda>_. None))
    = (demo_sys [] empty_redis (\<lambda>_. None), WriteJSONResponse StatusUnauthorized (Some (ErrorValue e)))
    \<and> (e = ErrMissingBearerToken \<or> e = ErrInvalidToken)"
proof -
  let ?genuine = "\<lambda>secret tok claims. unhex (dot_field 3 tok) = secret \<and> unhex (dot_field 2 tok) = uc_Subject claims"
  have "list_all token_char (demo_token ''x'' demo_claims)" using demo_jwt_laws by (simp add: jwt_laws_def demo_jwt_def)
  then have "TrimSpace (demo_token ''x'' demo_claims) = demo_token ''x'' demo_claims" by (rule TrimSpace_token)
  moreover have "unhex (dot_field 3 (demo_token ''x'' demo_claims)) = ''x''" by (simp only: demo_token_fields unhex_enc)
  ultimately have "bearer_token (with_forged ''x'') tok \<Longrightarrow> unhex (dot_field 3 tok) = ''x''" for tok
    by (auto simp: bearer_token_def with_forged_def)
  then have none: "\<not> genuine_bearer ?genuine demo_jwt ''k'' (with_forged ''x'') claims" for claims
    by (auto simp: genuine_bearer_def)
  have sv: "sv_jwt demo_server = demo_jwt" "sv_JwtSecret demo_server = ''k''" by (simp_all add: demo_server_def)
  show ?thesis
    using protected_routes_need_token [of demo_server demo_calls R_Enqueue ?genuine "with_forged ''x''", unfolded sv, OF _ demo_jwt_sound] none by auto
qed

text \<open>
  C19: login and authentication agree. The token that a login issues for a user's id, sent as a
  bearer token on a later request, authenticates as that user, at any time, in any state of the
  caches that agrees with the table, for any outcome of the Redis calls.
\<close>

theorem login_token_authenticates:
  assumes "jwt_laws J" and "coherent user_cached (user_rows (sys_db s)) (sys_redis s)"
    and "user_rows (sys_db s) uid = Some u" and "flt GU_Query = Done" and "flt' GU_Query = Done"
    and "rq_body rq = Some (JObj [(''id'', JStr uid)])"
    and "snd (loginHandler J secret flt c rq s) = \<lparr>rs_status = StatusOK, rs_body = Some (PToken tok)\<rparr>"
    and "sys_db s' = sys_db s" and "coherent user_cached (user_rows (sys_db s)) (sys_redis s')"
    and "rq_authorization rq' = bearer_prefix @ tok"
  shows "\<exists>r'. GetAuthenticatedUser J secret flt' c' rq' s' = (s'\<lparr>sys_redis := r'\<rparr>, Inr (UserDto_toDto u))"
proof -
  let ?claims = "\<lparr>uc_Name = us_Name u, uc_Email = us_Email u, uc_Subject = us_Id u\<rparr>"
  have "snd (repo_GetUser flt (c_redis c) uid (sys_db s) (sys_redis s)) = Inr u"
    using GetUser_reads_through [where flt = flt and now = "c_redis c" and k = uid, OF assms(2,4)] assms(3) by simp
  then have "jwt_SignedString J secret ?claims = Inr tok"
    using assms(7) unfolding loginHandler_def assms(6) login_body
    by (auto simp: WriteErrorResponse_def WriteJSONResponse_def split: prod.splits sum.splits)
  moreover have "snd (repo_GetUser flt' (c_redis c') uid (sys_db s') (sys_redis s')) = Inr u"
    using GetUser_reads_through [of "sys_db s'" "sys_redis s'" flt' "c_redis c'" uid flt'] assms(3,5,8,9) by simp
  then obtain r' where "repo_GetUser flt' (c_redis c') (uc_Subject ?claims) (sys_db s') (sys_redis s') = (r', Inr u)"
    using user_rows_id [OF assms(3)] by (metis prod.collapse userClaims.select_convs(3))
  ultimately show ?thesis using GetAuthenticatedUser_token [OF assms(1) _ assms(10), of secret ?claims flt' c' s' r' "Inr u"] by auto
qed

theorem login_token_authenticates_witness:
  "\<exists>r'. GetAuthenticatedUser demo_jwt ''k'' (\<lambda>_. Done) demo_clock
      \<lparr>rq_authorization = bearer_prefix @ demo_token ''k'' \<lparr>uc_Name = ''Ava'', uc_Email = ''a@x.io'', uc_Subject = ''u1''\<rparr>,
       rq_limit = [], rq_body = None\<rparr> (demo_sys [] empty_redis (\<lambda>_. None))
    = ((demo_sys [] empty_redis (\<lambda>_. None))\<lparr>sys_redis := r'\<rparr>, Inr (UserDto_toDto (ur_item (demo_user ''u1'' ''a@x.io''))))"
proof -
  let ?s = "demo_sys [] empty_redis (\<lambda>_. None)" and ?u = "ur_item (demo_user ''u1'' ''a@x.io'')"
  let ?tok = "demo_token ''k'' \<lparr>uc_Name = ''Ava'', uc_Email = ''a@x.io'', uc_Subject = ''u1''\<rparr>"
  let ?rq = "\<lparr>rq_authorization = [], rq_limit = [], rq_body = Some (JObj [(''id'', JStr ''u1'')])\<rparr>"
  have coh: "coherent user_cached (user_rows (sys_db ?s)) (sys_redis ?s)"
    by (simp add: demo_sys_def coherent_def user_cached_def rc_GetUser_def rget_def empty_redis_def)
  have row: "user_rows (sys_db ?s) ''u1'' = Some ?u" by (simp add: demo_sys_def user_rows_def demo_defs)
  have "snd (repo_GetUser (\<lambda>_. Done) (c_redis demo_clock) ''u1'' (sys_db ?s) (sys_redis ?s)) = Inr ?u"
    using GetUser_reads_through [where flt = "\<lambda>_. Done", OF coh] row by simp
  then have login: "snd (loginHandler demo_jwt ''k'' (\<lambda>_. Done) demo_clock ?rq ?s) = \<lparr>rs_status = StatusOK, rs_body = Some (PToken ?tok)\<rparr>"
    unfolding loginHandler_def request.select_convs login_body
    by (auto simp: demo_jwt_def demo_user_def WriteJSONResponse_def split: prod.splits sum.splits)
  show ?thesis
    using login_token_authenticates [where flt = "\<lambda>_. Done" and flt' = "\<lambda>_. Done", OF demo_jwt_laws coh row _ _ _ login refl coh]
    by simp
qed

end
