(* ===== verification/SimClient.thy ===== *)
theory SimClient
  imports Server
begin

text \<open>
  \<open>simulation/client.go\<close>: the two transports of the load generator behind one interface. The
  in-process client calls the services; the HTTP client sends the requests that the handlers of
  \<open>Server\<close> answer, reads status and body back and turns conflicts into the sentinels again. The
  world is the database's clock with the system's state.
\<close>

section \<open>The interface\<close>

type_synonym 'l world = "time \<times> 'l sys"

record 'w client =
  cl_Enqueue :: "circumstances \<Rightarrow> io \<Rightarrow> string \<Rightarrow> 'w \<Rightarrow> 'w \<times> duration result"
  cl_Poll :: "circumstances \<Rightarrow> io \<Rightarrow> string \<Rightarrow> 'w \<Rightarrow> 'w \<times> QueueStatus result"
  cl_Reserve :: "circumstances \<Rightarrow> io \<Rightarrow> string \<Rightarrow> u32 \<Rightarrow> 'w \<Rightarrow> 'w \<times> unit result"
  cl_ReleaseSlot :: "circumstances \<Rightarrow> io \<Rightarrow> string \<Rightarrow> 'w \<Rightarrow> 'w \<times> unit result"

text \<open>A call runs at the world's clock.\<close>

definition at_time :: "time \<Rightarrow> circumstances \<Rightarrow> circumstances" where
  "at_time t k = k\<lparr>k_clocks := (k_clocks k)\<lparr>c_pg := t\<rparr>\<rparr>"

definition in_world :: "('l sys \<Rightarrow> 'l sys \<times> 'a) \<Rightarrow> 'l world \<Rightarrow> 'l world \<times> 'a" where
  "in_world f w = (let (s', a) = f (snd w) in ((fst w, s'), a))"

section \<open>In process\<close>

definition inproc_Reserve :: "'l server \<Rightarrow> string \<Rightarrow> circumstances \<Rightarrow> string \<Rightarrow> u32 \<Rightarrow> 'l sys \<Rightarrow> 'l sys \<times> unit result" where
  "inproc_Reserve sv eventId k userId quantity s =
     (case svc_ReserveEvent (sv_lru sv) (sv_queue sv) (k_reserve k) (k_clocks k) (k_rnd k) True (k_gone k) (k_new_id k)
             \<lparr>rer_EventId = eventId, rer_UserId = userId, rer_Quantity = quantity, rer_IdempotencyKey = None\<rparr> s of
        (s', Inl e) \<Rightarrow> (s', Inl e)
      | (s', Inr _) \<Rightarrow> (s', Inr ()))"

definition inProcessClient :: "'l server \<Rightarrow> string \<Rightarrow> 'l world client" where
  "inProcessClient sv eventId =
     \<lparr>cl_Enqueue = (\<lambda>k x userId w. in_world (svc_Enqueue (sv_queue sv) (k_queue k) (k_clocks (at_time (fst w) k)) eventId userId) w),
      cl_Poll = (\<lambda>k x userId w. in_world (svc_Ping (sv_lru sv) (sv_queue sv) (k_queue k) (k_clocks (at_time (fst w) k)) eventId userId) w),
      cl_Reserve = (\<lambda>k x userId quantity w. in_world (inproc_Reserve sv eventId (at_time (fst w) k) userId quantity) w),
      cl_ReleaseSlot = (\<lambda>k x userId w. in_world (svc_Dequeue (sv_queue sv) (k_queue k) (k_clocks (at_time (fst w) k)) eventId userId) w)\<rparr>"

section \<open>Over HTTP\<close>

text \<open>
  The text of an error, \<open>err.Error()\<close>. What the database driver prints for an SQLSTATE is not
  fixed by the program; it is the argument \<open>pg_text\<close>.
\<close>

fun error_text :: "(string \<Rightarrow> string) \<Rightarrow> go_error \<Rightarrow> string" where
  "error_text pg_text ErrCacheMiss = ''cache miss''"
| "error_text pg_text ErrCacheMalformed = ''cache malformed''"
| "error_text pg_text ErrMissingDeadline = ''requires a context with a deadline''"
| "error_text pg_text ErrSingleFlightValue = ''unexpected singleflight value type''"
| "error_text pg_text ErrEventNotFound = ''event not found''"
| "error_text pg_text ErrInvalidEvent = ''event name, capacity and max reserve per user are required''"
| "error_text pg_text ErrUserNotFound = ''user not found''"
| "error_text pg_text ErrUserEmailTaken = ''email already registered''"
| "error_text pg_text ErrInvalidUser = ''user name and email are required''"
| "error_text pg_text ErrReservationNotFound = ''reservation not found''"
| "error_text pg_text ErrInsufficientCapacity = ''insufficient capacity''"
| "error_text pg_text ErrExceedMaxReserveQuantity = ''exceed maximum reserve quantity''"
| "error_text pg_text ErrInvalidReservationUpdateStatus = ''invalid reservation update status''"
| "error_text pg_text ErrRefreshEventStatusInProgress = ''refresh event status in progress''"
| "error_text pg_text ErrVirtualQueueExist = ''virtual queue already exist''"
| "error_text pg_text ErrMissingWhitelistKey = ''missing whitelist key''"
| "error_text pg_text ErrQueueInProgress = ''queue in progress''"
| "error_text pg_text ErrIdempotencyKeyReused = ''idempotency key is being reused''"
| "error_text pg_text ErrMalformedRequestBody = ''request body malformed''"
| "error_text pg_text ErrMissingBearerToken = ''missing or invalid bearer token''"
| "error_text pg_text ErrInvalidToken = ''invalid or expired token''"
| "error_text pg_text ErrRunNotFound = ''simulation run not found''"
| "error_text pg_text ErrRunInProgress = ''a simulation is already running for this event''"
| "error_text pg_text Canceled = ''context canceled''"
| "error_text pg_text DeadlineExceeded = ''context deadline exceeded''"
| "error_text pg_text RedisNil = ''redis: nil''"
| "error_text pg_text (PgError code) = pg_text code"
| "error_text pg_text (HttpError status message) = ''http '' @ dec (nat status) @ '': '' @ message"
| "error_text pg_text (OtherError message) = message"

text \<open>The member \<open>error\<close> of a body, empty when there is none.\<close>

fun body_error :: "(string \<Rightarrow> string) \<Rightarrow> payload option \<Rightarrow> string" where
  "body_error pg_text (Some (ErrorMessage e)) = error_text pg_text e"
| "body_error pg_text _ = []"

text \<open>\<open>httpClient.do\<close>: the status (0 when no response arrived) and the body or the error.\<close>

definition http_do ::
  "'l server \<Rightarrow> (string \<Rightarrow> string) \<Rightarrow> (string \<Rightarrow> string option) \<Rightarrow> circumstances \<Rightarrow> io \<Rightarrow> route \<Rightarrow> string \<Rightarrow> json \<Rightarrow> 'l sys
    \<Rightarrow> 'l sys \<times> nat \<times> payload option result" where
  "http_do sv pg_text tokens k x rt userId body s =
     (let rq = \<lparr>rq_authorization = (case tokens userId of Some token \<Rightarrow> bearer_prefix @ token | None \<Rightarrow> []), rq_limit = [], rq_body = Some body\<rparr>
      in case io_call x (serve sv k rt rq) s of
           (s', Inl e) \<Rightarrow> (s', 0, Inl e)
         | (s', Inr res) \<Rightarrow>
             if 400 \<le> rs_status res then (s', rs_status res, Inl (HttpError (int (rs_status res)) (body_error pg_text (rs_body res))))
             else (s', rs_status res, Inr (rs_body res)))"

definition http_Enqueue ::
  "'l server \<Rightarrow> (string \<Rightarrow> string) \<Rightarrow> (string \<Rightarrow> string option) \<Rightarrow> string \<Rightarrow> circumstances \<Rightarrow> io \<Rightarrow> string \<Rightarrow> 'l sys \<Rightarrow> 'l sys \<times> duration result" where
  "http_Enqueue sv pg_text tokens eventId k x userId s =
     (case http_do sv pg_text tokens k x R_Enqueue userId (JObj [(''eventId'', JStr eventId)]) s of
        (s', status, Inl err) \<Rightarrow> (s', Inl err)
      | (s', status, Inr out) \<Rightarrow> (s', if out = Some (PQueueStatus ''whitelisted'') then Inr Second else Inr 0))"

fun ping_out :: "payload option \<Rightarrow> bool \<times> int \<times> bool" where
  "ping_out (Some (PPing admitted ttlSeconds soldOut)) = (admitted, ttlSeconds, soldOut)"
| "ping_out _ = (False, 0, False)"

definition http_Poll ::
  "'l server \<Rightarrow> (string \<Rightarrow> string) \<Rightarrow> (string \<Rightarrow> string option) \<Rightarrow> string \<Rightarrow> circumstances \<Rightarrow> io \<Rightarrow> string \<Rightarrow> 'l sys \<Rightarrow> 'l sys \<times> QueueStatus result" where
  "http_Poll sv pg_text tokens eventId k x userId s =
     (case http_do sv pg_text tokens k x R_Ping userId (JObj [(''eventId'', JStr eventId)]) s of
        (s', status, Inl err) \<Rightarrow>
          (s', if status = StatusNotFound then Inr \<lparr>qs_WhitelistTTL = 0, qs_Alive = False, qs_SoldOut = False\<rparr> else Inl err)
      | (s', status, Inr out) \<Rightarrow>
          (let (admitted, ttlSeconds, soldOut) = ping_out out;
               ttl = wrap_i64 (ttlSeconds * Second)
           in (s', Inr \<lparr>qs_WhitelistTTL = (if admitted \<and> ttl \<le> 0 then Second else ttl), qs_Alive = True, qs_SoldOut = soldOut\<rparr>)))"

definition translateReserveError :: "unit result \<Rightarrow> unit result" where
  "translateReserveError res =
     (case res of
        Inl (HttpError status message) \<Rightarrow>
          (if status \<noteq> int StatusConflict then res
           else if message = error_text (\<lambda>c. c) ErrInsufficientCapacity then Inl ErrInsufficientCapacity
           else if message = error_text (\<lambda>c. c) ErrExceedMaxReserveQuantity then Inl ErrExceedMaxReserveQuantity
           else res)
      | _ \<Rightarrow> res)"

definition http_Reserve ::
  "'l server \<Rightarrow> (string \<Rightarrow> string) \<Rightarrow> (string \<Rightarrow> string option) \<Rightarrow> string \<Rightarrow> circumstances \<Rightarrow> io \<Rightarrow> string \<Rightarrow> u32 \<Rightarrow> 'l sys \<Rightarrow> 'l sys \<times> unit result" where
  "http_Reserve sv pg_text tokens eventId k x userId quantity s =
     (case http_do sv pg_text tokens k x (R_Reserve eventId) userId (JObj [(''quantity'', JNum (dec (unat quantity)))]) s of
        (s', status, Inl err) \<Rightarrow> (s', translateReserveError (Inl err))
      | (s', status, Inr out) \<Rightarrow> (s', translateReserveError (Inr ())))"

definition http_ReleaseSlot ::
  "'l server \<Rightarrow> (string \<Rightarrow> string) \<Rightarrow> (string \<Rightarrow> string option) \<Rightarrow> string \<Rightarrow> circumstances \<Rightarrow> io \<Rightarrow> string \<Rightarrow> 'l sys \<Rightarrow> 'l sys \<times> unit result" where
  "http_ReleaseSlot sv pg_text tokens eventId k x userId s =
     (case http_do sv pg_text tokens k x R_Dequeue userId (JObj [(''eventId'', JStr eventId)]) s of
        (s', status, Inl err) \<Rightarrow> (s', Inl err)
      | (s', status, Inr out) \<Rightarrow> (s', Inr ()))"

text \<open>
  \<open>newHTTPClient\<close>: the address and the settings of the connection pool. \<open>workers * 2\<close> is an \<open>int\<close>; with the
  workers that a runner settles on it does not wrap.
\<close>

definition TrimSuffix :: "string \<Rightarrow> string \<Rightarrow> string" where
  "TrimSuffix s suffix =
     (if length suffix \<le> length s \<and> drop (length s - length suffix) s = suffix then take (length s - length suffix) s else s)"

record http_settings =
  hc_baseURL :: string
  hc_MaxIdleConns :: int
  hc_MaxIdleConnsPerHost :: int
  hc_MaxConnsPerHost :: int
  hc_IdleConnTimeout :: duration
  hc_DialTimeout :: duration
  hc_KeepAlive :: duration

definition newHTTPClient :: "string \<Rightarrow> int \<Rightarrow> http_settings" where
  "newHTTPClient baseURL workers =
     (let maxConns = (if wrap_i64 (workers * 2) < 100 then 100 else wrap_i64 (workers * 2))
      in \<lparr>hc_baseURL = TrimSuffix baseURL ''/'', hc_MaxIdleConns = maxConns, hc_MaxIdleConnsPerHost = maxConns, hc_MaxConnsPerHost = 0,
          hc_IdleConnTimeout = 90 * Second, hc_DialTimeout = 10 * Second, hc_KeepAlive = 30 * Second\<rparr>)"

definition httpClient :: "'l server \<Rightarrow> (string \<Rightarrow> string) \<Rightarrow> (string \<Rightarrow> string option) \<Rightarrow> string \<Rightarrow> 'l world client" where
  "httpClient sv pg_text tokens eventId =
     \<lparr>cl_Enqueue = (\<lambda>k x userId w. in_world (http_Enqueue sv pg_text tokens eventId (at_time (fst w) k) x userId) w),
      cl_Poll = (\<lambda>k x userId w. in_world (http_Poll sv pg_text tokens eventId (at_time (fst w) k) x userId) w),
      cl_Reserve = (\<lambda>k x userId quantity w. in_world (http_Reserve sv pg_text tokens eventId (at_time (fst w) k) x userId quantity) w),
      cl_ReleaseSlot = (\<lambda>k x userId w. in_world (http_ReleaseSlot sv pg_text tokens eventId (at_time (fst w) k) x userId) w)\<rparr>"

section \<open>What the engine relies on\<close>

text \<open>Every call of a client keeps an invariant of the world.\<close>

locale sim_client =
  fixes cl :: "'w client" and I :: "'w \<Rightarrow> bool"
  assumes enqueue_keeps: "I w \<Longrightarrow> I (fst (cl_Enqueue cl k x u w))"
    and poll_keeps: "I w \<Longrightarrow> I (fst (cl_Poll cl k x u w))"
    and reserve_keeps: "I w \<Longrightarrow> I (fst (cl_Reserve cl k x u q w))"
    and release_keeps: "I w \<Longrightarrow> I (fst (cl_ReleaseSlot cl k x u w))"

abbreviation world_inv :: "'l world \<Rightarrow> bool" where
  "world_inv w \<equiv> store_inv (fst w, sys_db (snd w))"

lemma fst_in_world: "fst (in_world f w) = (fst w, fst (f (snd w)))"
  by (simp add: in_world_def Let_def split_beta)

lemma at_time_pg [simp]: "c_pg (k_clocks (at_time t k)) = t"
  by (simp add: at_time_def)

lemma inproc_Reserve_db: "user_tx (c_pg (k_clocks k)) u (sys_db s) (sys_db (fst (inproc_Reserve sv e k u q s)))"
proof -
  let ?req = "\<lparr>rer_EventId = e, rer_UserId = u, rer_Quantity = q, rer_IdempotencyKey = None\<rparr>"
  have "sys_db (fst (inproc_Reserve sv e k u q s)) =
      sys_db (fst (svc_ReserveEvent (sv_lru sv) (sv_queue sv) (k_reserve k) (k_clocks k) (k_rnd k) True (k_gone k) (k_new_id k) ?req s))"
    by (simp add: inproc_Reserve_def fst_switch)
  then show ?thesis
    by (cases rule: svc_ReserveEvent_db [of "sv_lru sv" "sv_queue sv" "k_reserve k" "k_clocks k" "k_rnd k" True "k_gone k" "k_new_id k" ?req s])
       (simp_all add: user_tx.intros)
qed

interpretation inproc: sim_client "inProcessClient sv eventId" world_inv for sv :: "'l server" and eventId
proof
  show "world_inv (fst (cl_Reserve (inProcessClient sv eventId) k x u q w))" if "world_inv w" for k x u q and w :: "'l world"
    using user_tx_inv [OF inproc_Reserve_db [of "at_time (fst w) k"]] that by (simp add: inProcessClient_def fst_in_world)
qed (simp_all add: inProcessClient_def fst_in_world)

lemma http_do_inv:
  assumes "store_inv (t, sys_db s)"
  shows "store_inv (t, sys_db (fst (http_do sv pg_text tokens (at_time t k) x rt u b s)))"
proof -
  let ?rq = "\<lparr>rq_authorization = (case tokens u of Some token \<Rightarrow> bearer_prefix @ token | None \<Rightarrow> []), rq_limit = [], rq_body = Some b\<rparr>"
  have "store_inv (t, sys_db (fst (io_call x (serve sv (at_time t k) rt ?rq) s)))"
    by (rule io_call_inv [where P = "\<lambda>s. store_inv (t, sys_db s)"]) (simp_all add: assms serve_inv)
  then show ?thesis by (simp add: http_do_def Let_def split_beta split: sum.split)
qed

lemma http_ops_state:
  "fst (http_Enqueue sv p tokens e k x u s) = fst (http_do sv p tokens k x R_Enqueue u (JObj [(''eventId'', JStr e)]) s)"
  "fst (http_Poll sv p tokens e k x u s) = fst (http_do sv p tokens k x R_Ping u (JObj [(''eventId'', JStr e)]) s)"
  "fst (http_Reserve sv p tokens e k x u q s) =
     fst (http_do sv p tokens k x (R_Reserve e) u (JObj [(''quantity'', JNum (dec (unat q)))]) s)"
  "fst (http_ReleaseSlot sv p tokens e k x u s) = fst (http_do sv p tokens k x R_Dequeue u (JObj [(''eventId'', JStr e)]) s)"
  by (simp_all add: http_Enqueue_def http_Poll_def http_Reserve_def http_ReleaseSlot_def Let_def split_beta split: sum.split)

interpretation overhttp: sim_client "httpClient sv pg_text tokens eventId" world_inv
  for sv :: "'l server" and pg_text tokens eventId
  by unfold_locales (simp_all add: httpClient_def fst_in_world http_ops_state http_do_inv)

end
