(* ===== verification/Simulation.thy ===== *)
theory Simulation
  imports SimClient
begin

text \<open>
  \<open>simulation/engine.go\<close>: the configuration a runner settles on, the life of one simulated user,
  the waiting loop with its timer and deadline, the run of all users as interleaved goroutines that
  share counters and the reservation semaphore, and the snapshot with its percentiles.
\<close>

section \<open>Configuration\<close>

definition DefaultWorkers :: int where "DefaultWorkers = 200"
definition DefaultPollInterval :: duration where "DefaultPollInterval = 50 * Millisecond"
definition DefaultUserTimeout :: duration where "DefaultUserTimeout = 60 * Second"
definition MaxPollInterval :: duration where "MaxPollInterval = 1 * Second"
definition pollOpsBudget :: int where "pollOpsBudget = 50000"
definition TransportInProcess :: string where "TransportInProcess = ''inproc''"
definition TransportHTTP :: string where "TransportHTTP = ''http''"

record SimConfig =
  sc_EventId :: string
  sc_UserIds :: "string list"
  sc_Quantity :: u32
  sc_MaxConcurrent :: u64
  sc_Workers :: int
  sc_PollInterval :: duration
  sc_UserTimeout :: duration
  sc_Transport :: string
  sc_BaseURL :: string
  sc_Tokens :: "string \<Rightarrow> string option"

text \<open>\<open>NewRunner\<close>, as far as the configuration goes.\<close>

definition settle_config :: "SimConfig \<Rightarrow> SimConfig" where
  "settle_config cfg =
     (let n = int (length (sc_UserIds cfg));
          workers = (if sc_Workers cfg \<le> 0 then DefaultWorkers else sc_Workers cfg);
          scaled = n * 1000 div pollOpsBudget * Millisecond;
          poll = (if sc_PollInterval cfg \<le> 0
                  then (let p = (if scaled < DefaultPollInterval then DefaultPollInterval else scaled)
                        in if MaxPollInterval < p then MaxPollInterval else p)
                  else sc_PollInterval cfg)
      in cfg\<lparr>sc_Workers := (if n < workers then n else workers), sc_PollInterval := poll,
             sc_UserTimeout := (if sc_UserTimeout cfg \<le> 0 then DefaultUserTimeout else sc_UserTimeout cfg),
             sc_Quantity := (if sc_Quantity cfg = 0 then 1 else sc_Quantity cfg),
             sc_Transport := (if sc_Transport cfg = [] then TransportInProcess else sc_Transport cfg)\<rparr>)"

definition runner_client :: "'l server \<Rightarrow> (string \<Rightarrow> string) \<Rightarrow> SimConfig \<Rightarrow> 'l world client" where
  "runner_client sv pg_text cfg =
     (if sc_Transport cfg = TransportHTTP then httpClient sv pg_text (sc_Tokens cfg) (sc_EventId cfg)
      else inProcessClient sv (sc_EventId cfg))"

section \<open>Counters\<close>

record Runner =
  started :: nat
  enqueued :: nat
  admitted :: nat
  reserved :: nat
  rejectedCapacity :: nat
  rejectedQuota :: nat
  timedOut :: nat
  cancelled :: nat
  reaped :: nat
  errors :: nat
  reserveSample :: "duration list"
  rejectedSample :: "duration list"
  waitSample :: "duration list"
  errorCounts :: "(string \<times> nat) list"

definition fresh_runner :: Runner where
  "fresh_runner = \<lparr>started = 0, enqueued = 0, admitted = 0, reserved = 0, rejectedCapacity = 0, rejectedQuota = 0, timedOut = 0,
     cancelled = 0, reaped = 0, errors = 0, reserveSample = [], rejectedSample = [], waitSample = [], errorCounts = []\<rparr>"

fun count_key :: "string \<Rightarrow> (string \<times> nat) list \<Rightarrow> (string \<times> nat) list" where
  "count_key k [] = [(k, 1)]"
| "count_key k ((k', n) # m) = (if k = k' then (k', n + 1) # m else (k', n) # count_key k m)"

definition recordError :: "(string \<Rightarrow> string) \<Rightarrow> string \<Rightarrow> go_error \<Rightarrow> Runner \<Rightarrow> Runner" where
  "recordError pg_text stage err r =
     r\<lparr>errors := errors r + 1, errorCounts := count_key (stage @ '': '' @ error_text pg_text err) (errorCounts r)\<rparr>"

definition classify :: "(string \<Rightarrow> string) \<Rightarrow> string \<Rightarrow> go_error \<Rightarrow> Runner \<Rightarrow> Runner" where
  "classify pg_text stage err r =
     (if err = DeadlineExceeded then r\<lparr>timedOut := timedOut r + 1\<rparr>
      else if err = Canceled then r\<lparr>cancelled := cancelled r + 1\<rparr>
      else recordError pg_text stage err r)"

definition recordReserve :: "duration \<Rightarrow> Runner \<Rightarrow> Runner" where
  "recordReserve d r = r\<lparr>reserveSample := reserveSample r @ [d]\<rparr>"

definition recordRejected :: "duration \<Rightarrow> Runner \<Rightarrow> Runner" where
  "recordRejected d r = r\<lparr>rejectedSample := rejectedSample r @ [d]\<rparr>"

definition recordWait :: "duration \<Rightarrow> Runner \<Rightarrow> Runner" where
  "recordWait d r = r\<lparr>waitSample := waitSample r @ [d]\<rparr>"

definition admit :: "duration \<Rightarrow> Runner \<Rightarrow> Runner" where
  "admit waited r = recordWait waited (r\<lparr>admitted := admitted r + 1\<rparr>)"

section \<open>One user\<close>

text \<open>
  Where a user's goroutine stands between two calls: not begun, about to enqueue, in the waiting
  loop, waiting for the semaphore, holding it, over. \<open>took\<close> is what the stopwatch around a call
  shows, \<open>k\<close> and \<open>x\<close> what the call meets.
\<close>

datatype phase = NotStarted | Joining | Waiting | Admitted | Reserving | Finished

definition join_step ::
  "'w client \<Rightarrow> (string \<Rightarrow> string) \<Rightarrow> circumstances \<Rightarrow> io \<Rightarrow> duration \<Rightarrow> string \<Rightarrow> Runner \<Rightarrow> 'w \<Rightarrow> phase \<times> Runner \<times> 'w" where
  "join_step cl pg_text k x took userId r w =
     (case cl_Enqueue cl k x userId w of
        (w', Inl err) \<Rightarrow> (Finished, classify pg_text ''enqueue'' err r, w')
      | (w', Inr whitelistTTL) \<Rightarrow>
          let r1 = r\<lparr>enqueued := enqueued r + 1\<rparr>
          in if whitelistTTL \<le> 0 then (Waiting, r1, w') else (Admitted, admit took r1, w'))"

text \<open>A failure to give the place back is only logged.\<close>

definition releaseSlot :: "'w client \<Rightarrow> circumstances \<Rightarrow> io \<Rightarrow> string \<Rightarrow> 'w \<Rightarrow> 'w" where
  "releaseSlot cl k x userId w = fst (cl_ReleaseSlot cl k x userId w)"

definition poll_step ::
  "'w client \<Rightarrow> (string \<Rightarrow> string) \<Rightarrow> circumstances \<Rightarrow> io \<Rightarrow> circumstances \<Rightarrow> io \<Rightarrow> duration \<Rightarrow> string \<Rightarrow> Runner \<Rightarrow> 'w
    \<Rightarrow> phase \<times> Runner \<times> 'w" where
  "poll_step cl pg_text k x k' x' took userId r w =
     (case cl_Poll cl k x userId w of
        (w', Inl err) \<Rightarrow> (Finished, classify pg_text ''poll'' err r, w')
      | (w', Inr status) \<Rightarrow>
          if 0 < qs_WhitelistTTL status then (Admitted, admit took r, w')
          else if \<not> qs_Alive status then (Finished, r\<lparr>reaped := reaped r + 1\<rparr>, w')
          else if qs_SoldOut status
          then (Finished, r\<lparr>rejectedCapacity := rejectedCapacity r + 1\<rparr>, releaseSlot cl k' x' userId w')
          else (Waiting, r, w'))"

definition reserve_step ::
  "'w client \<Rightarrow> (string \<Rightarrow> string) \<Rightarrow> SimConfig \<Rightarrow> circumstances \<Rightarrow> io \<Rightarrow> duration \<Rightarrow> string \<Rightarrow> Runner \<Rightarrow> 'w
    \<Rightarrow> phase \<times> Runner \<times> 'w" where
  "reserve_step cl pg_text cfg k x took userId r w =
     (case cl_Reserve cl k x userId (sc_Quantity cfg) w of
        (w', Inr _) \<Rightarrow> (Finished, recordReserve took (r\<lparr>reserved := reserved r + 1\<rparr>), w')
      | (w', Inl err) \<Rightarrow>
          (Finished,
           if err = ErrInsufficientCapacity
           then recordRejected took (r\<lparr>rejectedCapacity := rejectedCapacity r + 1\<rparr>)
           else if err = ErrExceedMaxReserveQuantity
           then recordRejected took (r\<lparr>rejectedQuota := rejectedQuota r + 1\<rparr>)
           else classify pg_text ''reserve'' err r, w'))"

section \<open>The waiting loop\<close>

text \<open>
  \<open>waitForAdmission\<close> from the moment \<open>now\<close>, the context ending at \<open>ends\<close> with the error \<open>why\<close>.
  Pass \<open>n\<close> sleeps for the interval and a jitter below it, wakes up \<open>late n\<close> afterwards, and asks,
  which takes \<open>lasts n\<close>. The sum of interval and jitter is an \<open>int64\<close> that may wrap, and a timer whose duration
  is not positive fires at once. A context that has ended by then ends the loop, whether the select sees it
  or the call. The user joined at \<open>enqueuedAt\<close>, from where the wait is measured. \<open>None\<close> is a loop that does not
  return, \<open>Some None\<close> the panic of \<open>rand.Int63n\<close> on an interval that is not positive. The last
  component counts the polls.
\<close>

partial_function (option) waitForAdmission ::
  "'w client \<Rightarrow> (string \<Rightarrow> string) \<Rightarrow> duration \<Rightarrow> (nat \<Rightarrow> int) \<Rightarrow> (nat \<Rightarrow> nat) \<Rightarrow> (nat \<Rightarrow> nat) \<Rightarrow> (nat \<Rightarrow> circumstances) \<Rightarrow> (nat \<Rightarrow> io)
    \<Rightarrow> time \<Rightarrow> go_error \<Rightarrow> time \<Rightarrow> string \<Rightarrow> time \<Rightarrow> nat \<Rightarrow> Runner \<Rightarrow> 'w \<Rightarrow> (phase \<times> Runner \<times> 'w \<times> nat) option option" where
  "waitForAdmission cl pg_text interval rnd late lasts ks xs ends why enqueuedAt userId now n r w =
     (if interval \<le> 0 then Some None
      else
        let woke = now + max 0 (wrap_i64 (interval + rnd n mod interval)) + int (late n)
        in if ends \<le> woke then Some (Some (Finished, classify pg_text ''poll'' why r, w, n))
           else case poll_step cl pg_text (ks (2 * n)) (xs (2 * n)) (ks (2 * n + 1)) (xs (2 * n + 1))
                  (woke + int (lasts n) - enqueuedAt) userId r w of
                  (ph, r', w') \<Rightarrow>
                    if ph = Waiting
                    then waitForAdmission cl pg_text interval rnd late lasts ks xs ends why enqueuedAt userId (woke + int (lasts n)) (Suc n) r' w'
                    else Some (Some (ph, r', w', Suc n)))"

section \<open>The run\<close>

record 'w sim =
  sm_run :: Runner
  sm_phase :: "nat \<Rightarrow> phase"
  sm_world :: 'w

definition in_phase :: "nat \<Rightarrow> phase \<Rightarrow> (nat \<Rightarrow> phase) \<Rightarrow> nat" where
  "in_phase n p ph = length (filter (\<lambda>i. ph i = p) [0..<n])"

abbreviation users_of :: "SimConfig \<Rightarrow> nat" where
  "users_of cfg \<equiv> length (sc_UserIds cfg)"

definition sem_free :: "SimConfig \<Rightarrow> (nat \<Rightarrow> phase) \<Rightarrow> bool" where
  "sem_free cfg ph \<longleftrightarrow> int (in_phase (users_of cfg) Reserving ph) < sc_Workers cfg"

definition put :: "nat \<Rightarrow> phase \<times> Runner \<times> 'w \<Rightarrow> 'w sim \<Rightarrow> 'w sim" where
  "put i out s = (case out of (p, r, w) \<Rightarrow> \<lparr>sm_run = r, sm_phase = (sm_phase s)(i := p), sm_world = w\<rparr>)"

text \<open>
  The goroutines of \<open>Run\<close>, one call or counter update at a time, in any order. The context ends
  with a deadline or a cancellation. \<open>env\<close> is whatever else changes the world: the promoter, the
  sweep, other clients, time.
\<close>

inductive sim_step ::
  "'w client \<Rightarrow> (string \<Rightarrow> string) \<Rightarrow> SimConfig \<Rightarrow> ('w \<Rightarrow> 'w \<Rightarrow> bool) \<Rightarrow> 'w sim \<Rightarrow> 'w sim \<Rightarrow> bool" for cl pg_text cfg env where
  start: "i < users_of cfg \<Longrightarrow> sm_phase s i = NotStarted \<Longrightarrow>
    sim_step cl pg_text cfg env s (put i (Joining, (sm_run s)\<lparr>started := started (sm_run s) + 1\<rparr>, sm_world s) s)"
| join: "i < users_of cfg \<Longrightarrow> sm_phase s i = Joining \<Longrightarrow>
    sim_step cl pg_text cfg env s (put i (join_step cl pg_text k x took (sc_UserIds cfg ! i) (sm_run s) (sm_world s)) s)"
| poll: "i < users_of cfg \<Longrightarrow> sm_phase s i = Waiting \<Longrightarrow>
    sim_step cl pg_text cfg env s (put i (poll_step cl pg_text k x k' x' took (sc_UserIds cfg ! i) (sm_run s) (sm_world s)) s)"
| give_up: "i < users_of cfg \<Longrightarrow> sm_phase s i = Waiting \<Longrightarrow> e = DeadlineExceeded \<or> e = Canceled \<Longrightarrow>
    sim_step cl pg_text cfg env s (put i (Finished, classify pg_text ''poll'' e (sm_run s), sm_world s) s)"
| no_turn: "i < users_of cfg \<Longrightarrow> sm_phase s i = Admitted \<Longrightarrow> e = DeadlineExceeded \<or> e = Canceled \<Longrightarrow>
    sim_step cl pg_text cfg env s (put i (Finished, classify pg_text ''reserve-queue'' e (sm_run s), sm_world s) s)"
| acquire: "i < users_of cfg \<Longrightarrow> sm_phase s i = Admitted \<Longrightarrow> sem_free cfg (sm_phase s) \<Longrightarrow>
    sim_step cl pg_text cfg env s (put i (Reserving, sm_run s, sm_world s) s)"
| reserve: "i < users_of cfg \<Longrightarrow> sm_phase s i = Reserving \<Longrightarrow>
    sim_step cl pg_text cfg env s (put i (reserve_step cl pg_text cfg k x took (sc_UserIds cfg ! i) (sm_run s) (sm_world s)) s)"
| other: "env (sm_world s) w \<Longrightarrow> sim_step cl pg_text cfg env s (s\<lparr>sm_world := w\<rparr>)"

definition sim_start :: "'w \<Rightarrow> 'w sim" where
  "sim_start w = \<lparr>sm_run = fresh_runner, sm_phase = (\<lambda>_. NotStarted), sm_world = w\<rparr>"

text \<open>\<open>Run\<close> sets the event's admission override before the users and clears it after them.\<close>

definition run_begin :: "SimConfig \<Rightarrow> io \<Rightarrow> 'l sys \<Rightarrow> 'l sys \<times> unit result" where
  "run_begin cfg x s =
     (if 0 < sc_MaxConcurrent cfg
      then (case vqSetEventMaxConcurrent x (sc_EventId cfg) (sc_MaxConcurrent cfg) (sys_redis s) of
              (r', res) \<Rightarrow> (s\<lparr>sys_redis := r'\<rparr>, res))
      else (s, Inr ()))"

definition run_end :: "SimConfig \<Rightarrow> io \<Rightarrow> clocks \<Rightarrow> 'l sys \<Rightarrow> 'l sys" where
  "run_end cfg x c s =
     (if 0 < sc_MaxConcurrent cfg
      then s\<lparr>sys_redis := fst (vqClearEventMaxConcurrent x (c_redis c) (sc_EventId cfg) (sys_redis s))\<rparr> else s)"

section \<open>Snapshot\<close>

text \<open>
  The value in microseconds; the source divides it by a thousand for display. \<open>f64_index m\<close> is
  \<open>int(float64(m) * q)\<close>.
\<close>

definition percentileUs :: "(nat \<Rightarrow> int) \<Rightarrow> duration list \<Rightarrow> int" where
  "percentileUs f64_index samples =
     (if samples = [] then 0
      else
        let idx0 = f64_index (length samples - 1);
            idx1 = (if idx0 < 0 then 0 else idx0);
            idx = (if int (length samples) \<le> idx1 then int (length samples) - 1 else idx1)
        in sort samples ! nat idx div 1000)"

record Snapshot =
  sn_TotalUsers :: nat
  sn_Runner :: Runner
  sn_InQueue :: nat
  sn_WhitelistSize :: nat
  sn_SeatsSold :: int
  sn_Capacity :: u32
  sn_CapacityKnown :: bool
  sn_Oversold :: bool
  sn_Done :: bool

datatype snapshot_call = SN_Queue | SN_Gate | SN_Event get_event_call | SN_Sold

text \<open>The state part of a snapshot; reading the event may fill the cache.\<close>

definition take_snapshot ::
  "SimConfig \<Rightarrow> (snapshot_call \<Rightarrow> io) \<Rightarrow> clocks \<Rightarrow> nat \<Rightarrow> go_error option \<Rightarrow> Runner \<Rightarrow> bool \<Rightarrow> 'l sys \<Rightarrow> 'l sys \<times> Snapshot" where
  "take_snapshot cfg flt c rnd gone r finished s =
     (let e = sc_EventId cfg;
          (r', event) = repo_GetEvent (\<lambda>x. flt (SN_Event x)) (c_redis c) rnd True gone e (sys_db s) (sys_redis s);
          capacity = (case event of Inr ev \<Rightarrow> ev_Capacity ev | Inl _ \<Rightarrow> 0);
          sold = (case pg_GetTotalReserved (flt SN_Sold) (c_pg c) e (sys_db s) of Inr n \<Rightarrow> int n | Inl _ \<Rightarrow> 0)
      in (s\<lparr>sys_redis := r'\<rparr>,
          \<lparr>sn_TotalUsers = length (sc_UserIds cfg), sn_Runner = r,
           sn_InQueue = (case vqGetTotalVirtualQueue (flt SN_Queue) e (sys_redis s) of Inr n \<Rightarrow> n | Inl _ \<Rightarrow> 0),
           sn_WhitelistSize = (case vqGetTotalEventWhitelist (flt SN_Gate) e (sys_redis s) of Inr n \<Rightarrow> n | Inl _ \<Rightarrow> 0),
           sn_SeatsSold = sold, sn_Capacity = capacity, sn_CapacityKnown = (\<not> isl event),
           sn_Oversold = (0 < capacity \<and> int (unat capacity) < sold), sn_Done = finished\<rparr>))"

section \<open>Accounting\<close>

text \<open>Every outcome a user can have, in the counters that the report adds up.\<close>

definition accounted :: "Runner \<Rightarrow> nat" where
  "accounted r = reserved r + rejectedCapacity r + rejectedQuota r + timedOut r + cancelled r + reaped r + errors r"

definition books_balance :: "SimConfig \<Rightarrow> Runner \<Rightarrow> (nat \<Rightarrow> phase) \<Rightarrow> bool" where
  "books_balance cfg r ph \<longleftrightarrow>
     (let at = (\<lambda>p. in_phase (users_of cfg) p ph) in
      accounted r = at Finished
      \<and> started r + at NotStarted = users_of cfg
      \<and> enqueued r + at Joining \<le> started r
      \<and> admitted r + at Waiting \<le> enqueued r
      \<and> reserved r + at Admitted + at Reserving \<le> admitted r
      \<and> int (at Reserving) \<le> max 0 (sc_Workers cfg)
      \<and> length (reserveSample r) = reserved r \<and> length (waitSample r) = admitted r
      \<and> length (rejectedSample r) \<le> rejectedCapacity r + rejectedQuota r
      \<and> sum_list (map snd (errorCounts r)) = errors r)"

lemma in_phase_upd:
  assumes "i < n" and "ph i = old"
  shows "in_phase n p (ph(i := new)) = (if p = new then in_phase n p ph + (if p = old then 0 else 1)
    else if p = old then in_phase n p ph - 1 else in_phase n p ph)"
    and "0 < in_phase n old ph"
proof -
  have card: "in_phase n q f = card {j. j < n \<and> f j = q}" for q f
    by (simp add: in_phase_def distinct_length_filter Collect_conj_eq Int_commute lessThan_def [symmetric] atLeast0LessThan)
  show "in_phase n p (ph(i := new)) = (if p = new then in_phase n p ph + (if p = old then 0 else 1)
    else if p = old then in_phase n p ph - 1 else in_phase n p ph)"
  proof (cases "p = new")
    case True
    then have "in_phase n p (ph(i := new)) = card (insert i {j. j < n \<and> ph j = p})"
      using assms(1) by (auto simp: card intro: arg_cong [where f = Finite_Set.card])
    then show ?thesis using True assms by (auto simp: card card_insert_if)
  next
    case False
    then have "in_phase n p (ph(i := new)) = card ({j. j < n \<and> ph j = p} - {i})"
      by (auto simp: card intro: arg_cong [where f = Finite_Set.card])
    then show ?thesis using False assms by (auto simp: card card_Diff_singleton_if)
  qed
  show "0 < in_phase n old ph" using assms by (auto simp: card card_gt_0_iff)
qed

lemma count_key_sum: "sum_list (map snd (count_key k m)) = sum_list (map snd m) + 1"
  by (induction k m rule: count_key.induct) auto

lemma classify_books:
  "accounted (classify pg_text stage e r) = accounted r + 1"
  "started (classify pg_text stage e r) = started r" "enqueued (classify pg_text stage e r) = enqueued r"
  "admitted (classify pg_text stage e r) = admitted r" "reserved (classify pg_text stage e r) = reserved r"
  "reserveSample (classify pg_text stage e r) = reserveSample r" "waitSample (classify pg_text stage e r) = waitSample r"
  "rejectedSample (classify pg_text stage e r) = rejectedSample r"
  "rejectedCapacity (classify pg_text stage e r) = rejectedCapacity r" "rejectedQuota (classify pg_text stage e r) = rejectedQuota r"
  by (simp_all add: classify_def recordError_def accounted_def)

lemma classify_errors:
  "sum_list (map snd (errorCounts r)) = errors r \<Longrightarrow>
     sum_list (map snd (errorCounts (classify pg_text stage e r))) = errors (classify pg_text stage e r)"
  by (simp add: classify_def recordError_def count_key_sum)

lemma accounted_upd:
  "accounted (r\<lparr>started := a\<rparr>) = accounted r" "accounted (r\<lparr>enqueued := a\<rparr>) = accounted r" "accounted (admit d r) = accounted r"
  "accounted (r\<lparr>reaped := Suc (reaped r)\<rparr>) = Suc (accounted r)"
  "accounted (r\<lparr>rejectedCapacity := Suc (rejectedCapacity r)\<rparr>) = Suc (accounted r)"
  "accounted (r\<lparr>reserved := Suc (reserved r), reserveSample := xs\<rparr>) = Suc (accounted r)"
  "accounted (r\<lparr>rejectedCapacity := Suc (rejectedCapacity r), rejectedSample := xs\<rparr>) = Suc (accounted r)"
  "accounted (r\<lparr>rejectedQuota := Suc (rejectedQuota r), rejectedSample := xs\<rparr>) = Suc (accounted r)"
  by (simp_all add: accounted_def admit_def recordWait_def)

lemma admit_books:
  "started (admit d r) = started r" "enqueued (admit d r) = enqueued r" "admitted (admit d r) = admitted r + 1"
  "reserved (admit d r) = reserved r" "reserveSample (admit d r) = reserveSample r" "waitSample (admit d r) = waitSample r @ [d]"
  "rejectedSample (admit d r) = rejectedSample r" "rejectedCapacity (admit d r) = rejectedCapacity r"
  "rejectedQuota (admit d r) = rejectedQuota r" "errors (admit d r) = errors r" "errorCounts (admit d r) = errorCounts r"
  by (simp_all add: admit_def recordWait_def)

lemmas books_simps = books_balance_def Let_def recordReserve_def recordRejected_def classify_books classify_errors accounted_upd admit_books

lemma step_books:
  assumes bal: "books_balance cfg (sm_run s) (sm_phase s)" and "sim_step cl pg_text cfg env s s'"
  shows "books_balance cfg (sm_run s') (sm_phase s')"
  using assms(2)
proof (cases rule: sim_step.cases)
  case (start i)
  note upd = in_phase_upd [where ph = "sm_phase s", OF start(2,3)]
  show ?thesis using bal upd(2) by (auto simp: start(1) put_def upd(1) books_simps)
next
  case (join i k x took)
  note upd = in_phase_upd [where ph = "sm_phase s", OF join(2,3)]
  show ?thesis using bal upd(2)
    by (auto simp: join(1) put_def join_step_def upd(1) books_simps split: prod.splits sum.splits)
next
  case (poll i k x k' x' took)
  note upd = in_phase_upd [where ph = "sm_phase s", OF poll(2,3)]
  show ?thesis using bal upd(2)
    by (auto simp: poll(1) put_def poll_step_def upd(1) books_simps split: prod.splits sum.splits)
next
  case (give_up i e)
  note upd = in_phase_upd [where ph = "sm_phase s", OF give_up(2,3)]
  show ?thesis using bal upd(2) by (auto simp: give_up(1) put_def upd(1) books_simps)
next
  case (no_turn i e)
  note upd = in_phase_upd [where ph = "sm_phase s", OF no_turn(2,3)]
  show ?thesis using bal upd(2) by (auto simp: no_turn(1) put_def upd(1) books_simps)
next
  case (acquire i)
  note upd = in_phase_upd [where ph = "sm_phase s", OF acquire(2,3)]
  show ?thesis using bal upd(2) acquire(4) by (auto simp: acquire(1) put_def upd(1) books_simps sem_free_def)
next
  case (reserve i k x took)
  note upd = in_phase_upd [where ph = "sm_phase s", OF reserve(2,3)]
  show ?thesis using bal upd(2)
    by (auto simp: reserve(1) put_def reserve_step_def upd(1) books_simps split: prod.splits sum.splits)
next
  case (other w)
  then show ?thesis using bal by simp
qed

interpretation books: inductive_invariant "\<lambda>s. sm_run s = fresh_runner \<and> sm_phase s = (\<lambda>_. NotStarted)" "sim_step cl pg_text cfg env"
  "\<lambda>s. books_balance cfg (sm_run s) (sm_phase s)" for cl pg_text cfg env
proof
  show "books_balance cfg (sm_run s) (sm_phase s)" if "sm_run s = fresh_runner \<and> sm_phase s = (\<lambda>_. NotStarted)" for s :: "'a sim"
    using that by (simp add: books_balance_def fresh_runner_def accounted_def in_phase_def)
qed (rule step_books)

section \<open>The invariant of the world\<close>

context sim_client
begin

lemma sim_step_keeps:
  assumes "sim_step cl pg_text cfg env s s'" and "\<And>w w'. env w w' \<Longrightarrow> I w \<Longrightarrow> I w'" and "I (sm_world s)"
  shows "I (sm_world s')"
  using assms(1)
proof (cases rule: sim_step.cases)
  case (join i k x took)
  then show ?thesis using enqueue_keeps [OF assms(3), of k x "sc_UserIds cfg ! i"]
    by (auto simp: put_def join_step_def Let_def split: prod.splits sum.splits if_splits)
next
  case (poll i k x k' x' took)
  then show ?thesis using poll_keeps [OF assms(3), of k x "sc_UserIds cfg ! i"]
    by (auto simp: put_def poll_step_def releaseSlot_def release_keeps split: prod.splits sum.splits if_splits)
next
  case (reserve i k x took)
  then show ?thesis using reserve_keeps [OF assms(3), of k x "sc_UserIds cfg ! i" "sc_Quantity cfg"]
    by (auto simp: put_def reserve_step_def split: prod.splits sum.splits if_splits)
qed (use assms(2,3) in \<open>auto simp: put_def\<close>)

lemma sim_run_keeps:
  assumes "(sim_step cl pg_text cfg env)\<^sup>*\<^sup>* s s'" and "\<And>w w'. env w w' \<Longrightarrow> I w \<Longrightarrow> I w'" and "I (sm_world s)"
  shows "I (sm_world s')"
  using assms(1,3) by (induction rule: rtranclp_induct) (auto intro: sim_step_keeps assms(2))

end

lemma runner_client_keeps:
  assumes "(sim_step (runner_client sv pg_text cfg) pg_text cfg env)\<^sup>*\<^sup>* s s'"
    and env: "\<And>w w'. env w w' \<Longrightarrow> world_inv w \<Longrightarrow> world_inv w'" and "world_inv (sm_world s)"
  shows "world_inv (sm_world s')"
proof (cases "sc_Transport cfg = TransportHTTP")
  case True
  then have "(sim_step (httpClient sv pg_text (sc_Tokens cfg) (sc_EventId cfg)) pg_text cfg env)\<^sup>*\<^sup>* s s'"
    using assms(1) by (simp add: runner_client_def)
  then show ?thesis by (rule overhttp.sim_run_keeps [OF _ env assms(3)])
next
  case False
  then have "(sim_step (inProcessClient sv (sc_EventId cfg)) pg_text cfg env)\<^sup>*\<^sup>* s s'"
    using assms(1) by (simp add: runner_client_def)
  then show ?thesis by (rule inproc.sim_run_keeps [OF _ env assms(3)])
qed

section \<open>Percentiles are order statistics\<close>

lemma sorted_counts:
  fixes ys :: "int list"
  assumes "sorted ys" and "i < length ys"
  shows "i < length (filter (\<lambda>y. y \<le> ys ! i) ys)" and "length ys - i \<le> length (filter (\<lambda>y. ys ! i \<le> y) ys)"
proof -
  have "{..i} \<subseteq> {j. j < length ys \<and> ys ! j \<le> ys ! i}" using assms by (auto intro: sorted_nth_mono)
  from card_mono [OF _ this] show "i < length (filter (\<lambda>y. y \<le> ys ! i) ys)" by (simp add: length_filter_conv_card)
  have "{i..<length ys} \<subseteq> {j. j < length ys \<and> ys ! i \<le> ys ! j}" using assms by (auto intro: sorted_nth_mono)
  from card_mono [OF _ this] show "length ys - i \<le> length (filter (\<lambda>y. ys ! i \<le> y) ys)" by (simp add: length_filter_conv_card)
qed

lemma length_filter_sort: "length (filter P (sort xs)) = length (filter P xs)"
  by (metis filter_sort length_sort)

definition clamp_index :: "(nat \<Rightarrow> int) \<Rightarrow> duration list \<Rightarrow> nat" where
  "clamp_index f xs = nat (min (max 0 (f (length xs - 1))) (int (length xs) - 1))"

lemma percentile_index:
  assumes "xs \<noteq> []"
  shows "percentileUs f xs = sort xs ! clamp_index f xs div 1000" and "clamp_index f xs < length xs"
proof -
  have n: "1 \<le> int (length xs)" using assms by (cases xs) auto
  then show "clamp_index f xs < length xs" by (simp add: clamp_index_def)
  show "percentileUs f xs = sort xs ! clamp_index f xs div 1000"
    using assms n by (auto simp: percentileUs_def clamp_index_def Let_def min_def max_def)
qed

end
