(* ===== verification/Registry.thy ===== *)
theory Registry
  imports Simulation "HOL-Library.AList"
begin

text \<open>
  \<open>simulation/registry.go\<close>: the runs the admin routes have started, by id and by event. A run is
  entered by \<open>Start\<close>, marks itself done when \<open>Runner.Run\<close> returns, and is forgotten by a timer that
  is set at that moment. The registry's methods hold its mutex, so they are atomic steps; the runs'
  goroutines and timers are steps of their own.
\<close>

section \<open>State and methods\<close>

definition runRetention :: duration where
  "runRetention = 10 * Minute"

text \<open>
  \<open>run_done\<close> is \<open>Runner.done\<close>, \<open>run_cancelled\<close> says whether the context's \<open>cancel\<close> was called.
\<close>

record Run =
  run_Id :: string
  run_EventId :: string
  run_StartedAt :: time
  run_cfg :: SimConfig
  run_done :: bool
  run_cancelled :: bool

record Registry =
  reg_runs :: "(string \<times> Run) list"
  reg_byEvent :: "string \<Rightarrow> string option"

abbreviation run_of :: "Registry \<Rightarrow> string \<Rightarrow> Run option" where
  "run_of reg \<equiv> map_of (reg_runs reg)"

definition NewRegistry :: Registry where
  "NewRegistry = \<lparr>reg_runs = [], reg_byEvent = (\<lambda>_. None)\<rparr>"

definition HasActiveRun :: "string \<Rightarrow> Registry \<Rightarrow> bool" where
  "HasActiveRun eventId reg =
     (case reg_byEvent reg eventId of
        None \<Rightarrow> False
      | Some runId \<Rightarrow> (case run_of reg runId of None \<Rightarrow> False | Some existing \<Rightarrow> \<not> run_done existing))"

definition reg_Start :: "string \<Rightarrow> time \<Rightarrow> SimConfig \<Rightarrow> Registry \<Rightarrow> Registry \<times> Run result" where
  "reg_Start new_id now cfg reg =
     (let inProgress = (case reg_byEvent reg (sc_EventId cfg) of
            None \<Rightarrow> False
          | Some runId \<Rightarrow> (case run_of reg runId of None \<Rightarrow> False | Some existing \<Rightarrow> \<not> run_done existing))
      in if inProgress then (reg, Inl ErrRunInProgress)
         else
           let run = \<lparr>run_Id = new_id, run_EventId = sc_EventId cfg, run_StartedAt = now, run_cfg = settle_config cfg,
                      run_done = False, run_cancelled = False\<rparr>
           in (reg\<lparr>reg_runs := AList.update new_id run (reg_runs reg), reg_byEvent := (reg_byEvent reg)(sc_EventId cfg \<mapsto> new_id)\<rparr>, Inr run))"

definition HasAnyActiveRun :: "Registry \<Rightarrow> bool" where
  "HasAnyActiveRun reg = list_ex (\<lambda>(_, run). \<not> run_done run) (reg_runs reg)"

definition reg_Get :: "string \<Rightarrow> Registry \<Rightarrow> Run result" where
  "reg_Get runId reg = (case run_of reg runId of None \<Rightarrow> Inl ErrRunNotFound | Some run \<Rightarrow> Inr run)"

definition reg_Cancel :: "string \<Rightarrow> Registry \<Rightarrow> Registry \<times> unit result" where
  "reg_Cancel runId reg =
     (case reg_Get runId reg of
        Inl err \<Rightarrow> (reg, Inl err)
      | Inr run \<Rightarrow> (reg\<lparr>reg_runs := AList.update runId (run\<lparr>run_cancelled := True\<rparr>) (reg_runs reg)\<rparr>, Inr ()))"

definition reg_forget :: "string \<Rightarrow> string \<Rightarrow> Registry \<Rightarrow> Registry" where
  "reg_forget runId eventId reg =
     (let runs' = AList.delete runId (reg_runs reg)
      in if reg_byEvent reg eventId = Some runId
         then reg\<lparr>reg_runs := runs', reg_byEvent := (reg_byEvent reg)(eventId := None)\<rparr>
         else reg\<lparr>reg_runs := runs'\<rparr>)"

text \<open>\<open>done.Store(true)\<close> at the end of \<open>Runner.Run\<close>.\<close>

definition mark_done :: "string \<Rightarrow> Registry \<Rightarrow> Registry" where
  "mark_done runId reg =
     (case run_of reg runId of
        None \<Rightarrow> reg
      | Some run \<Rightarrow> reg\<lparr>reg_runs := AList.update runId (run\<lparr>run_done := True\<rparr>) (reg_runs reg)\<rparr>)"

section \<open>Runs of the registry\<close>

text \<open>
  \<open>rg_running\<close> are the runs whose goroutine has not yet set its timer, with their events;
  \<open>rg_timers\<close> the pending calls of \<open>forget\<close> with the moment they are due. A new id is one no run
  has ever had.
\<close>

record reg_state =
  rg_now :: time
  rg_reg :: Registry
  rg_running :: "(string \<times> string) list"
  rg_timers :: "(time \<times> string \<times> string) list"
  rg_used :: "string set"

inductive reg_step :: "reg_state \<Rightarrow> reg_state \<Rightarrow> bool" where
  start: "new_id \<notin> rg_used s \<Longrightarrow> reg_Start new_id (rg_now s) cfg (rg_reg s) = (reg', Inr run) \<Longrightarrow>
    reg_step s (s\<lparr>rg_reg := reg', rg_running := (new_id, sc_EventId cfg) # rg_running s, rg_used := insert new_id (rg_used s)\<rparr>)"
| refused: "reg_Start new_id (rg_now s) cfg (rg_reg s) = (reg', Inl err) \<Longrightarrow> reg_step s (s\<lparr>rg_reg := reg'\<rparr>)"
| finish: "(i, e) \<in> set (rg_running s) \<Longrightarrow> reg_step s (s\<lparr>rg_reg := mark_done i (rg_reg s)\<rparr>)"
| timer: "(i, e) \<in> set (rg_running s) \<Longrightarrow> (\<exists>run. run_of (rg_reg s) i = Some run \<and> run_done run) \<Longrightarrow>
    reg_step s (s\<lparr>rg_running := removeAll (i, e) (rg_running s), rg_timers := (rg_now s + runRetention, i, e) # rg_timers s\<rparr>)"
| forget: "(t, i, e) \<in> set (rg_timers s) \<Longrightarrow> t \<le> rg_now s \<Longrightarrow>
    reg_step s (s\<lparr>rg_reg := reg_forget i e (rg_reg s), rg_timers := removeAll (t, i, e) (rg_timers s)\<rparr>)"
| cancel: "reg_step s (s\<lparr>rg_reg := fst (reg_Cancel i (rg_reg s))\<rparr>)"
| tick: "rg_now s \<le> t \<Longrightarrow> reg_step s (s\<lparr>rg_now := t\<rparr>)"

inductive_cases reg_stepE: "reg_step s s'"

definition reg_init :: "reg_state \<Rightarrow> bool" where
  "reg_init s \<longleftrightarrow> rg_reg s = NewRegistry \<and> rg_running s = [] \<and> rg_timers s = [] \<and> rg_used s = {}"

section \<open>The invariant\<close>

text \<open>
  The two maps agree: a run is filed under its own id, an event's entry names a run of that event,
  and a run that is not done is its event's entry. A run that is not done has its goroutine, and a
  timer is for a run that is done.
\<close>

definition runs_filed :: "reg_state \<Rightarrow> bool" where
  "runs_filed s \<longleftrightarrow> distinct (map fst (reg_runs (rg_reg s)))
     \<and> (\<forall>i run. run_of (rg_reg s) i = Some run \<longrightarrow> run_Id run = i \<and> i \<in> rg_used s)"

definition live_filed :: "reg_state \<Rightarrow> bool" where
  "live_filed s \<longleftrightarrow> (\<forall>i run. run_of (rg_reg s) i = Some run \<longrightarrow> \<not> run_done run \<longrightarrow>
     reg_byEvent (rg_reg s) (run_EventId run) = Some i \<and> (i, run_EventId run) \<in> set (rg_running s))"

definition events_filed :: "reg_state \<Rightarrow> bool" where
  "events_filed s \<longleftrightarrow> (\<forall>e i. reg_byEvent (rg_reg s) e = Some i \<longrightarrow> (\<exists>run. run_of (rg_reg s) i = Some run \<and> run_EventId run = e))"

definition running_filed :: "reg_state \<Rightarrow> bool" where
  "running_filed s \<longleftrightarrow> (\<forall>i e. (i, e) \<in> set (rg_running s) \<longrightarrow>
     (\<exists>run. run_of (rg_reg s) i = Some run \<and> run_EventId run = e) \<and> (\<forall>t e'. (t, i, e') \<notin> set (rg_timers s)))"

definition timers_done :: "reg_state \<Rightarrow> bool" where
  "timers_done s \<longleftrightarrow> (\<forall>t i e. (t, i, e) \<in> set (rg_timers s) \<longrightarrow> i \<in> rg_used s
     \<and> (\<forall>run. run_of (rg_reg s) i = Some run \<longrightarrow> run_done run \<and> run_EventId run = e))"

definition reg_inv :: "reg_state \<Rightarrow> bool" where
  "reg_inv s \<longleftrightarrow> runs_filed s \<and> live_filed s \<and> events_filed s \<and> running_filed s \<and> timers_done s"

lemmas reg_inv_defs = runs_filed_def live_filed_def events_filed_def running_filed_def timers_done_def

lemma reg_Start_cases:
  assumes "reg_Start new_id now cfg reg = (reg', res)"
  obtains "HasActiveRun (sc_EventId cfg) reg" "reg' = reg" "res = Inl ErrRunInProgress"
  | run where "\<not> HasActiveRun (sc_EventId cfg) reg" "res = Inr run" "run_Id run = new_id" "run_EventId run = sc_EventId cfg"
      "\<not> run_done run" "run_cfg run = settle_config cfg"
      "reg' = reg\<lparr>reg_runs := AList.update new_id run (reg_runs reg), reg_byEvent := (reg_byEvent reg)(sc_EventId cfg \<mapsto> new_id)\<rparr>"
proof (cases "HasActiveRun (sc_EventId cfg) reg")
  case True
  then have "reg_Start new_id now cfg reg = (reg, Inl ErrRunInProgress)" by (simp add: reg_Start_def HasActiveRun_def)
  then show thesis using True assms by (intro that(1)) simp_all
next
  case False
  then show thesis using assms
    by (intro that(2) [of "\<lparr>run_Id = new_id, run_EventId = sc_EventId cfg, run_StartedAt = now, run_cfg = settle_config cfg,
        run_done = False, run_cancelled = False\<rparr>"]) (simp_all add: reg_Start_def HasActiveRun_def Let_def)
qed

text \<open>Marking a run done or cancelled replaces its entry by one for the same event.\<close>

lemma reg_inv_replace:
  assumes "reg_inv s" and run: "run_of (rg_reg s) i = Some run"
    and same: "run_Id run' = run_Id run" "run_EventId run' = run_EventId run" "run_done run \<Longrightarrow> run_done run'"
  shows "reg_inv (s\<lparr>rg_reg := (rg_reg s)\<lparr>reg_runs := AList.update i run' (reg_runs (rg_reg s))\<rparr>\<rparr>)"
    (is "reg_inv ?s")
proof -
  have inv: "runs_filed s" "live_filed s" "events_filed s" "running_filed s" "timers_done s"
    using assms(1) by (simp_all add: reg_inv_def)
  have runs: "run_of (rg_reg ?s) = (run_of (rg_reg s))(i \<mapsto> run')" by (simp add: update_conv')
  have "runs_filed ?s" using inv(1) run same unfolding runs_filed_def runs by (auto simp: distinct_update split: if_splits)
  moreover have "live_filed ?s" using inv(2) run same unfolding live_filed_def runs by (auto split: if_splits)
  moreover have "events_filed ?s" using inv(3) run same unfolding events_filed_def runs by fastforce
  moreover have "running_filed ?s" using inv(4) run same unfolding running_filed_def runs by fastforce
  moreover have "timers_done ?s" using inv(5) run same unfolding timers_done_def runs by (auto split: if_splits)
  ultimately show ?thesis by (simp add: reg_inv_def)
qed

lemma reg_inv_start:
  assumes "reg_inv s" and fresh: "new_id \<notin> rg_used s" and start: "reg_Start new_id (rg_now s) cfg (rg_reg s) = (reg', Inr run)"
  shows "reg_inv (s\<lparr>rg_reg := reg', rg_running := (new_id, sc_EventId cfg) # rg_running s, rg_used := insert new_id (rg_used s)\<rparr>)"
    (is "reg_inv ?s")
proof -
  have inv: "runs_filed s" "live_filed s" "events_filed s" "running_filed s" "timers_done s"
    using assms(1) by (simp_all add: reg_inv_def)
  obtain idle: "\<not> HasActiveRun (sc_EventId cfg) (rg_reg s)" and new: "run_Id run = new_id" "run_EventId run = sc_EventId cfg" "\<not> run_done run"
    and reg': "reg' = (rg_reg s)\<lparr>reg_runs := AList.update new_id run (reg_runs (rg_reg s)),
      reg_byEvent := (reg_byEvent (rg_reg s))(sc_EventId cfg \<mapsto> new_id)\<rparr>"
    by (rule reg_Start_cases [OF start]) auto
  have runs: "run_of (rg_reg ?s) = (run_of (rg_reg s))(new_id \<mapsto> run)" by (simp add: reg' update_conv')
  have unused: "run_of (rg_reg s) new_id = None" "\<And>t e. (t, new_id, e) \<notin> set (rg_timers s)"
    using inv(1,5) fresh unfolding runs_filed_def timers_done_def by (metis option.exhaust, blast)
  have other: "run_done r" if "run_of (rg_reg s) i = Some r" "run_EventId r = sc_EventId cfg" for i r
    using inv(2) that idle unfolding live_filed_def HasActiveRun_def by (metis option.simps(5))
  have "runs_filed ?s" using inv(1) new unfolding runs_filed_def runs by (auto simp: reg' distinct_update split: if_splits)
  moreover have "live_filed ?s" using inv(2) new other unfolding live_filed_def runs by (auto simp: reg' split: if_splits)
  moreover have "events_filed ?s" using inv(3) new unused unfolding events_filed_def runs
    by (auto simp: reg') (metis option.distinct(1))
  moreover have "running_filed ?s" using inv(4) new unused unfolding running_filed_def runs by (auto simp: reg') (metis option.distinct(1))
  moreover have "timers_done ?s" using inv(5) unused unfolding timers_done_def runs by (auto split: if_splits)
  ultimately show ?thesis by (simp add: reg_inv_def)
qed

lemma reg_inv_timer:
  assumes "reg_inv s" and "(i, e) \<in> set (rg_running s)" and "run_of (rg_reg s) i = Some run" "run_done run"
  shows "reg_inv (s\<lparr>rg_running := removeAll (i, e) (rg_running s), rg_timers := (t, i, e) # rg_timers s\<rparr>)"
proof -
  have inv: "runs_filed s" "live_filed s" "events_filed s" "running_filed s" "timers_done s"
    using assms(1) by (simp_all add: reg_inv_def)
  have e: "run_EventId run = e" using inv(4) assms(2,3) unfolding running_filed_def by fastforce
  let ?s = "s\<lparr>rg_running := removeAll (i, e) (rg_running s), rg_timers := (t, i, e) # rg_timers s\<rparr>"
  have "runs_filed ?s" using inv(1) by (simp add: runs_filed_def)
  moreover have "live_filed ?s" using inv(2) assms(3,4) unfolding live_filed_def by auto
  moreover have "events_filed ?s" using inv(3) by (simp add: events_filed_def)
  moreover have "running_filed ?s" using inv(4) e assms(3) unfolding running_filed_def by fastforce
  moreover have "timers_done ?s"
  proof -
    have "i \<in> rg_used s" using inv(1) assms(3) unfolding runs_filed_def by blast
    then show ?thesis using inv(5) e assms(3,4) unfolding timers_done_def by fastforce
  qed
  ultimately show ?thesis by (simp add: reg_inv_def)
qed

lemma reg_inv_forget:
  assumes "reg_inv s" and "(t, i, e) \<in> set (rg_timers s)"
  shows "reg_inv (s\<lparr>rg_reg := reg_forget i e (rg_reg s), rg_timers := removeAll (t, i, e) (rg_timers s)\<rparr>)" (is "reg_inv ?s")
proof -
  have inv: "runs_filed s" "live_filed s" "events_filed s" "running_filed s" "timers_done s"
    using assms(1) by (simp_all add: reg_inv_def)
  have runs: "run_of (rg_reg ?s) = (run_of (rg_reg s))(i := None)"
    by (simp add: reg_forget_def Let_def delete_conv')
  have by_event: "reg_byEvent (rg_reg ?s) = (if reg_byEvent (rg_reg s) e = Some i then (reg_byEvent (rg_reg s))(e := None) else reg_byEvent (rg_reg s))"
    by (simp add: reg_forget_def Let_def)
  have over: "run_done r" "run_EventId r = e" if "run_of (rg_reg s) i = Some r" for r
    using inv(5) assms(2) that unfolding timers_done_def by blast+
  have "runs_filed ?s" using inv(1) unfolding runs_filed_def runs
    by (auto simp: reg_forget_def Let_def distinct_delete split: if_splits)
  moreover have "live_filed ?s" using inv(2) over unfolding live_filed_def runs by_event
    by (auto split: if_splits) (metis option.inject)
  moreover have "events_filed ?s" using inv(3) over unfolding events_filed_def runs by_event by (fastforce split: if_splits)
  moreover have "running_filed ?s" using inv(4) assms(2) unfolding running_filed_def runs by auto
  moreover have "timers_done ?s" using inv(5) unfolding timers_done_def runs by (auto split: if_splits)
  ultimately show ?thesis by (simp add: reg_inv_def)
qed

lemma reg_inv_tick: "reg_inv (s\<lparr>rg_now := t\<rparr>) \<longleftrightarrow> reg_inv s"
  by (cases s) (simp only: reg_inv_def reg_inv_defs reg_state.simps)

lemma reg_step_inv:
  assumes "reg_step s s'" and "reg_inv s"
  shows "reg_inv s'"
  using assms(1)
proof (cases rule: reg_step.cases)
  case (start new_id cfg reg' run)
  then show ?thesis using reg_inv_start [OF assms(2)] by simp
next
  case (refused new_id cfg reg' err)
  have "reg' = rg_reg s" by (rule reg_Start_cases [OF refused(2)]) simp_all
  then show ?thesis using refused(1) assms(2) by simp
next
  case (finish i e)
  obtain run where run: "run_of (rg_reg s) i = Some run"
    using assms(2) finish(2) unfolding reg_inv_def running_filed_def by blast
  then show ?thesis using reg_inv_replace [OF assms(2) run, of "run\<lparr>run_done := True\<rparr>"] by (simp add: finish(1) mark_done_def)
next
  case (timer i e)
  then show ?thesis using reg_inv_timer [OF assms(2)] by blast
next
  case (forget t i e)
  then show ?thesis using reg_inv_forget [OF assms(2)] by simp
next
  case (cancel i)
  show ?thesis
  proof (cases "run_of (rg_reg s) i")
    case None
    then show ?thesis using assms(2) by (simp add: cancel reg_Cancel_def reg_Get_def)
  next
    case (Some run)
    then show ?thesis using reg_inv_replace [OF assms(2) Some, of "run\<lparr>run_cancelled := True\<rparr>"]
      by (simp add: cancel reg_Cancel_def reg_Get_def)
  qed
next
  case (tick t)
  then show ?thesis using assms(2) by (simp only: reg_inv_tick)
qed

interpretation registry: inductive_invariant reg_init reg_step reg_inv
proof
  show "reg_inv s" if "reg_init s" for s
    using that by (simp add: reg_init_def reg_inv_def reg_inv_defs NewRegistry_def)
qed (rule reg_step_inv)

section \<open>What the invariant says\<close>

definition live_run :: "Registry \<Rightarrow> string \<Rightarrow> Run \<Rightarrow> bool" where
  "live_run reg e run \<longleftrightarrow> run_of reg (run_Id run) = Some run \<and> run_EventId run = e \<and> \<not> run_done run"

lemma HasActiveRun_live:
  assumes "reg_inv s"
  shows "HasActiveRun e (rg_reg s) \<longleftrightarrow> (\<exists>run. live_run (rg_reg s) e run)"
proof
  assume "HasActiveRun e (rg_reg s)"
  then obtain i run where run: "reg_byEvent (rg_reg s) e = Some i" "run_of (rg_reg s) i = Some run" "\<not> run_done run"
    by (auto simp: HasActiveRun_def split: option.splits)
  then have "run_Id run = i" "run_EventId run = e"
    using assms unfolding reg_inv_def runs_filed_def events_filed_def by (blast, fastforce)
  then show "\<exists>run. live_run (rg_reg s) e run" using run unfolding live_run_def by blast
next
  assume "\<exists>run. live_run (rg_reg s) e run"
  then obtain run where run: "run_of (rg_reg s) (run_Id run) = Some run" "run_EventId run = e" "\<not> run_done run"
    unfolding live_run_def by blast
  then have "reg_byEvent (rg_reg s) e = Some (run_Id run)"
    using assms unfolding reg_inv_def live_filed_def by blast
  then show "HasActiveRun e (rg_reg s)" using run by (simp add: HasActiveRun_def)
qed

lemma live_run_unique:
  assumes "reg_inv s" and "live_run (rg_reg s) e run" and "live_run (rg_reg s) e run'"
  shows "run = run'"
proof -
  have "reg_byEvent (rg_reg s) e = Some (run_Id r)" if "live_run (rg_reg s) e r" for r
    using assms(1) that unfolding reg_inv_def live_filed_def live_run_def by blast
  then have "run_Id run = run_Id run'" using assms(2,3) by (metis option.inject)
  then show ?thesis using assms(2,3) unfolding live_run_def by (metis option.inject)
qed

lemma HasAnyActiveRun_live:
  assumes "reg_inv s"
  shows "HasAnyActiveRun (rg_reg s) \<longleftrightarrow> (\<exists>e. HasActiveRun e (rg_reg s))"
proof -
  have filed: "distinct (map fst (reg_runs (rg_reg s)))" "\<And>i run. run_of (rg_reg s) i = Some run \<Longrightarrow> run_Id run = i"
    using assms unfolding reg_inv_def runs_filed_def by blast+
  have "HasAnyActiveRun (rg_reg s) \<longleftrightarrow> (\<exists>i run. run_of (rg_reg s) i = Some run \<and> \<not> run_done run)"
    unfolding HasAnyActiveRun_def list_ex_iff using filed(1) by (force simp: map_of_eq_Some_iff)
  also have "\<dots> \<longleftrightarrow> (\<exists>e run. live_run (rg_reg s) e run)" unfolding live_run_def using filed(2) by blast
  finally show ?thesis using HasActiveRun_live [OF assms] by blast
qed

text \<open>A run keeps its entry, event and configuration until its timer is due.\<close>

definition kept :: "time \<Rightarrow> string \<Rightarrow> Run \<Rightarrow> reg_state \<Rightarrow> bool" where
  "kept t0 i run s \<longleftrightarrow> t0 + runRetention \<le> rg_now s \<or>
     (t0 \<le> rg_now s \<and> i \<in> rg_used s \<and> (\<forall>t e. (t, i, e) \<in> set (rg_timers s) \<longrightarrow> t0 + runRetention \<le> t)
      \<and> (\<exists>run'. run_of (rg_reg s) i = Some run' \<and> run_EventId run' = run_EventId run \<and> run_cfg run' = run_cfg run))"

lemma kept_step:
  assumes "reg_step s s'" and "kept t0 i run s"
  shows "kept t0 i run s'"
  using assms(1)
proof (cases rule: reg_step.cases)
  case (start new_id cfg reg' r)
  have "reg_runs reg' = AList.update new_id r (reg_runs (rg_reg s))" by (rule reg_Start_cases [OF start(3)]) auto
  then show ?thesis using assms(2) start(2) by (auto simp: start(1) kept_def update_conv')
next
  case (refused new_id cfg reg' err)
  have "reg' = rg_reg s" by (rule reg_Start_cases [OF refused(2)]) simp_all
  then show ?thesis using refused(1) assms(2) by simp
next
  case (finish j e)
  then show ?thesis using assms(2) by (auto simp: kept_def mark_done_def update_conv' split: option.splits)
next
  case (timer j e)
  then show ?thesis using assms(2) by (auto simp: kept_def)
next
  case (forget t j e)
  show ?thesis
  proof (cases "t0 + runRetention \<le> rg_now s")
    case False
    then have "j \<noteq> i" using assms(2) forget(2,3) unfolding kept_def by force
    then show ?thesis using assms(2) by (auto simp: forget(1) kept_def reg_forget_def Let_def delete_conv')
  qed (simp add: forget(1) kept_def)
next
  case (cancel j)
  then show ?thesis using assms(2) by (auto simp: kept_def reg_Cancel_def reg_Get_def update_conv' split: option.splits sum.splits)
next
  case (tick t)
  then show ?thesis using assms(2) by (auto simp: kept_def)
qed

lemma kept_steps: "reg_step\<^sup>*\<^sup>* s s' \<Longrightarrow> kept t0 i run s \<Longrightarrow> kept t0 i run s'"
  by (induction rule: rtranclp_induct) (auto intro: kept_step)

section \<open>Properties\<close>

text \<open>
  C35: an event has at most one run at a time. In every state the registry can reach, two runs of an
  event that are not done are one and the same; \<open>HasActiveRun\<close> answers whether there is one, whatever
  has been forgotten or started over in between; \<open>HasAnyActiveRun\<close> answers whether some event has one;
  and \<open>Start\<close> is refused, with the registry left as it is, exactly when its event has one.
\<close>

theorem registry_one_run_per_event:
  assumes "reg_init s0" and "reg_step\<^sup>*\<^sup>* s0 s"
  shows "(live_run (rg_reg s) e run \<and> live_run (rg_reg s) e run' \<longrightarrow> run = run')
    \<and> (HasActiveRun e (rg_reg s) \<longleftrightarrow> (\<exists>run. live_run (rg_reg s) e run))
    \<and> (HasAnyActiveRun (rg_reg s) \<longleftrightarrow> (\<exists>e run. live_run (rg_reg s) e run))
    \<and> (reg_Start new_id now cfg (rg_reg s) = (rg_reg s, Inl ErrRunInProgress) \<longleftrightarrow> (\<exists>run. live_run (rg_reg s) (sc_EventId cfg) run))"
proof -
  have inv: "reg_inv s" by (rule registry.reach_inv [OF assms])
  have "reg_Start new_id now cfg (rg_reg s) = (rg_reg s, Inl ErrRunInProgress) \<longleftrightarrow> HasActiveRun (sc_EventId cfg) (rg_reg s)"
    by (auto simp: reg_Start_def HasActiveRun_def Let_def split: option.splits)
  then show ?thesis
    using live_run_unique [OF inv] HasActiveRun_live [OF inv] HasAnyActiveRun_live [OF inv] by blast
qed

definition demo_run_cfg :: SimConfig where
  "demo_run_cfg = \<lparr>sc_EventId = ''e1'', sc_UserIds = [''u1'', ''u2''], sc_Quantity = 1, sc_MaxConcurrent = 0, sc_Workers = 2,
     sc_PollInterval = Millisecond, sc_UserTimeout = Second, sc_Transport = [], sc_BaseURL = [], sc_Tokens = (\<lambda>_. None)\<rparr>"

definition demo_registry :: reg_state where
  "demo_registry = \<lparr>rg_now = 0, rg_reg = NewRegistry, rg_running = [], rg_timers = [], rg_used = {}\<rparr>"

definition demo_started :: reg_state where
  "demo_started = demo_registry\<lparr>rg_reg := fst (reg_Start ''i1'' 0 demo_run_cfg NewRegistry), rg_running := [(''i1'', ''e1'')], rg_used := {''i1''}\<rparr>"

lemma demo_starts: "reg_init demo_registry" "reg_step\<^sup>*\<^sup>* demo_registry demo_started"
proof -
  show "reg_init demo_registry" by (simp add: reg_init_def demo_registry_def)
  obtain reg' run where "reg_Start ''i1'' 0 demo_run_cfg NewRegistry = (reg', Inr run)"
    by (auto simp: reg_Start_def NewRegistry_def Let_def)
  then have "reg_step demo_registry demo_started"
    using reg_step.start [where s = demo_registry and new_id = "''i1''" and cfg = demo_run_cfg]
    by (simp add: demo_registry_def demo_started_def demo_run_cfg_def)
  then show "reg_step\<^sup>*\<^sup>* demo_registry demo_started" by blast
qed

theorem registry_one_run_per_event_witness:
  "reg_Start ''i2'' 5 demo_run_cfg (rg_reg demo_started) = (rg_reg demo_started, Inl ErrRunInProgress)"
proof -
  have "live_run (rg_reg demo_started) (sc_EventId demo_run_cfg) (snd (hd (reg_runs (rg_reg demo_started))))"
    by (simp add: live_run_def demo_started_def demo_registry_def NewRegistry_def reg_Start_def Let_def demo_run_cfg_def)
  then show ?thesis using registry_one_run_per_event [OF demo_starts] by blast
qed

text \<open>
  C36: the result of a run can be read for ten minutes. A run that is in progress at some moment is
  found by \<open>Get\<close>, with its event and its settled configuration, in every later state, until at
  least \<open>runRetention\<close> after that moment: however soon it is done, whatever is cancelled or
  forgotten, and although a new run of the same event may have taken its place meanwhile.
\<close>

theorem runs_stay_readable:
  assumes "reg_init s0" and "reg_step\<^sup>*\<^sup>* s0 s" and "reg_step\<^sup>*\<^sup>* s s'"
    and "live_run (rg_reg s) e run" and "rg_now s' < rg_now s + runRetention"
  shows "\<exists>run'. reg_Get (run_Id run) (rg_reg s') = Inr run' \<and> run_EventId run' = e \<and> run_cfg run' = run_cfg run"
proof -
  have inv: "reg_inv s" by (rule registry.reach_inv [OF assms(1,2)])
  have run: "run_of (rg_reg s) (run_Id run) = Some run" "run_EventId run = e" "\<not> run_done run"
    using assms(4) unfolding live_run_def by blast+
  then have "(run_Id run, e) \<in> set (rg_running s)" "run_Id run \<in> rg_used s"
    using inv unfolding reg_inv_def live_filed_def runs_filed_def by blast+
  then have "\<And>t e'. (t, run_Id run, e') \<notin> set (rg_timers s)" using inv unfolding reg_inv_def running_filed_def by blast
  then have "kept (rg_now s) (run_Id run) run s" using run(1) \<open>run_Id run \<in> rg_used s\<close> unfolding kept_def by blast
  then have "kept (rg_now s) (run_Id run) run s'" by (rule kept_steps [OF assms(3)])
  then show ?thesis using assms(5) run(2) by (auto simp: kept_def reg_Get_def)
qed

text \<open>The run ends at once, its timer is set, and nine minutes later it is still there.\<close>

theorem runs_stay_readable_witness:
  "\<exists>s run'. reg_step\<^sup>*\<^sup>* demo_started s \<and> rg_now s = 9 * Minute \<and> \<not> HasActiveRun ''e1'' (rg_reg s)
     \<and> reg_Get ''i1'' (rg_reg s) = Inr run' \<and> run_EventId run' = ''e1''"
proof -
  let ?run = "snd (hd (reg_runs (rg_reg demo_started)))"
  have live: "live_run (rg_reg demo_started) ''e1'' ?run" and i: "run_Id ?run = ''i1''"
    by (simp_all add: live_run_def demo_started_def demo_registry_def NewRegistry_def reg_Start_def Let_def demo_run_cfg_def)
  let ?s1 = "demo_started\<lparr>rg_reg := mark_done ''i1'' (rg_reg demo_started)\<rparr>"
  let ?s2 = "?s1\<lparr>rg_running := removeAll (''i1'', ''e1'') (rg_running ?s1), rg_timers := (rg_now ?s1 + runRetention, ''i1'', ''e1'') # rg_timers ?s1\<rparr>"
  let ?s3 = "?s2\<lparr>rg_now := 9 * Minute\<rparr>"
  have over: "\<exists>run. run_of (rg_reg ?s1) ''i1'' = Some run \<and> run_done run" "\<not> HasActiveRun ''e1'' (rg_reg ?s1)"
    by (simp_all add: demo_started_def demo_registry_def NewRegistry_def reg_Start_def Let_def demo_run_cfg_def mark_done_def HasActiveRun_def update_conv')
  have "reg_step demo_started ?s1" by (rule reg_step.finish) (simp add: demo_started_def)
  moreover have "reg_step ?s1 ?s2" by (rule reg_step.timer [OF _ over(1)]) (simp add: demo_started_def)
  moreover have "reg_step ?s2 ?s3" by (rule reg_step.tick) (simp add: demo_started_def demo_registry_def)
  ultimately have run: "reg_step\<^sup>*\<^sup>* demo_started ?s3" by (meson converse_rtranclp_into_rtranclp rtranclp.rtrancl_refl)
  have "rg_now ?s3 < rg_now demo_started + runRetention" by (simp add: runRetention_def demo_started_def demo_registry_def)
  from runs_stay_readable [OF demo_starts run live this] obtain run' where "reg_Get ''i1'' (rg_reg ?s3) = Inr run'" "run_EventId run' = ''e1''"
    unfolding i by blast
  then show ?thesis using run over(2) by (intro exI [of _ ?s3] exI [of _ run']) simp
qed

end
