(* ===== verification/SimProperties.thy ===== *)
theory SimProperties
  imports Simulation
begin

text \<open>
  What the load generator's numbers mean: every simulated user is counted once, the waiting loop
  ends, both transports give the same verdicts, the percentiles are order statistics, the snapshot
  flags an oversell exactly when there is one, and a run never causes one.
\<close>

section \<open>The waiting loop\<close>

lemma poll_step_phase: "fst (poll_step cl pg_text k x k' x' took u r w) \<in> {Waiting, Admitted, Finished}"
  by (auto simp: poll_step_def split: prod.splits sum.splits)

text \<open>Up to \<open>2^62\<close> nanoseconds the sum of interval and jitter does not wrap, so every pass sleeps for the interval.\<close>

lemma sleeps_interval:
  assumes "0 < interval" and "interval \<le> 2 ^ 62"
  shows "interval \<le> max 0 (wrap_i64 (interval + j mod interval))"
proof -
  have j: "0 \<le> j mod interval" "j mod interval < interval" using assms(1) by simp_all
  have "wrap_i64 (interval + j mod interval) = interval + j mod interval"
  proof (rule wrap_i64_id)
    have "0 \<le> interval + j mod interval" using assms(1) j(1) by linarith
    then show "- (2 ^ 63) \<le> interval + j mod interval" by (rule order_trans [rotated]) simp
    have "interval + j mod interval < 2 ^ 62 + 2 ^ 62" using assms(2) j(2) by linarith
    then show "interval + j mod interval < 2 ^ 63" by (rule order_less_le_trans) simp
  qed
  then show ?thesis using j(1) by simp
qed

text \<open>Beyond that it can wrap below zero, and the timer fires at once.\<close>

lemma long_interval_overflows:
  assumes "2 ^ 62 < interval" and "interval < 2 ^ 63"
  shows "max 0 (wrap_i64 (interval + (interval - 1) mod interval)) = 0"
proof -
  have "(interval + (interval - 1) + 2 ^ 63) mod 2 ^ 64 = interval + (interval - 1) + 2 ^ 63 - 2 ^ 64"
    using assms by (intro int_mod_pos_eq [where q = 1]) simp_all
  moreover have "(interval - 1) mod interval = interval - 1" using assms(1) by (intro mod_pos_pos_trivial) simp_all
  ultimately have "wrap_i64 (interval + (interval - 1) mod interval) = interval + (interval - 1) - 2 ^ 64" by (simp add: wrap_i64_def)
  then show ?thesis using assms(2) by simp
qed

lemma waitForAdmission_bound:
  assumes "0 < interval" and "interval \<le> 2 ^ 62 \<or> (\<forall>n. 0 < lasts n)"
  shows "\<exists>ph r' w' m. waitForAdmission cl pg_text interval rnd late lasts ks xs ends why enq u now n r w = Some (Some (ph, r', w', m))
    \<and> ph \<in> {Admitted, Finished} \<and> n \<le> m
    \<and> (interval \<le> 2 ^ 62 \<longrightarrow> int (m - n) * interval \<le> max 0 (ends - now))
    \<and> ((\<forall>n. 0 < lasts n) \<longrightarrow> int (m - n) \<le> max 0 (ends - now))"
proof (induction "nat (ends - now)" arbitrary: now n r w rule: less_induct)
  case less
  let ?woke = "now + max 0 (wrap_i64 (interval + rnd n mod interval)) + int (late n)"
  let ?over = "?woke + int (lasts n)"
  have later: "now \<le> ?woke" "interval \<le> 2 ^ 62 \<Longrightarrow> now + interval \<le> ?woke"
    using sleeps_interval [OF assms(1), of "rnd n"] by simp_all
  show ?case
  proof (cases "ends \<le> ?woke")
    case True
    then show ?thesis using assms(1) by (subst waitForAdmission.simps) (simp add: Let_def)
  next
    case False
    obtain ph r' w' where p: "poll_step cl pg_text (ks (2 * n)) (xs (2 * n)) (ks (2 * n + 1)) (xs (2 * n + 1)) (?over - enq) u r w
        = (ph, r', w')" by (metis prod_cases3)
    show ?thesis
    proof (cases "ph = Waiting")
      case True
      have longer: "now < ?over" using later assms by (cases "interval \<le> 2 ^ 62") (auto simp: add_strict_increasing2)
      then have "nat (ends - ?over) < nat (ends - now)" using False later(1) by simp
      from less [OF this, of "Suc n" r' w']
      obtain ph' r2 w2 m where rec: "waitForAdmission cl pg_text interval rnd late lasts ks xs ends why enq u ?over (Suc n) r' w'
          = Some (Some (ph', r2, w2, m))" "ph' \<in> {Admitted, Finished}" "Suc n \<le> m"
        "interval \<le> 2 ^ 62 \<longrightarrow> int (m - Suc n) * interval \<le> max 0 (ends - ?over)"
        "(\<forall>n. 0 < lasts n) \<longrightarrow> int (m - Suc n) \<le> max 0 (ends - ?over)" by blast
      have m: "int (m - n) * interval = int (m - Suc n) * interval + interval" "int (m - n) = int (m - Suc n) + 1"
        using rec(3) by (simp_all add: of_nat_diff algebra_simps)
      have "int (m - n) * interval \<le> max 0 (ends - now)" if "interval \<le> 2 ^ 62"
        using rec(4) that later(2) [OF that] False unfolding m(1) by auto
      moreover have "int (m - n) \<le> max 0 (ends - now)" if "\<forall>n. 0 < lasts n"
        using rec(5) that longer False later(1) unfolding m(2) by auto
      ultimately show ?thesis using assms(1) False True p rec(1-3) by (subst waitForAdmission.simps) (simp add: Let_def)
    next
      case notw: False
      then have "ph \<in> {Admitted, Finished}"
        using poll_step_phase [of cl pg_text "ks (2 * n)" "xs (2 * n)" "ks (2 * n + 1)" "xs (2 * n + 1)" "?over - enq" u r w] p by auto
      moreover have "interval \<le> max 0 (ends - now)" if "interval \<le> 2 ^ 62" using later(2) [OF that] False by simp
      moreover have "1 \<le> max 0 (ends - now)" using later(1) False by simp
      ultimately show ?thesis using assms(1) False notw p by (subst waitForAdmission.simps) (simp add: Let_def)
    qed
  qed
qed

lemma settle_config_positive:
  "0 < sc_PollInterval (settle_config cfg)" "0 < sc_UserTimeout (settle_config cfg)" "sc_Quantity (settle_config cfg) \<noteq> 0"
  "sc_Workers (settle_config cfg) \<le> int (length (sc_UserIds cfg))"
  "sc_UserIds cfg \<noteq> [] \<Longrightarrow> 0 < sc_Workers (settle_config cfg)"
  by (auto simp: settle_config_def Let_def DefaultPollInterval_def MaxPollInterval_def DefaultUserTimeout_def DefaultWorkers_def)

lemma in_phase_two:
  assumes "\<And>i. i < n \<Longrightarrow> ph i = NotStarted \<or> ph i = Finished"
  shows "in_phase n Finished ph + in_phase n NotStarted ph = n"
proof -
  have "filter (\<lambda>i. ph i = NotStarted) [0..<n] = filter (\<lambda>i. ph i \<noteq> Finished) [0..<n]"
    by (rule filter_cong) (use assms in auto)
  then show ?thesis using sum_length_filter_compl [of "\<lambda>i. ph i = Finished" "[0..<n]"] by (simp add: in_phase_def)
qed

section \<open>The two transports\<close>

text \<open>What the HTTP client's requests are to the server, for a user whose token authenticates.\<close>

definition authenticates :: "'l server \<Rightarrow> circumstances \<Rightarrow> (string \<Rightarrow> string option) \<Rightarrow> string \<Rightarrow> 'l sys \<Rightarrow> 'l sys \<Rightarrow> bool" where
  "authenticates sv k tokens userId s s1 \<longleftrightarrow>
     (\<exists>token user. tokens userId = Some token \<and> ud_Id user = userId
        \<and> GetAuthenticatedUser (sv_jwt sv) (sv_JwtSecret sv) (k_auth k) (k_clocks k)
            \<lparr>rq_authorization = bearer_prefix @ token, rq_limit = [], rq_body = None\<rparr> s = (s1, Inr user))"

lemma GetAuthenticatedUser_header:
  "rq_authorization rq = rq_authorization rq' \<Longrightarrow>
     GetAuthenticatedUser J secret flt c rq s = GetAuthenticatedUser J secret flt c rq' s"
  by (simp add: GetAuthenticatedUser_def)

lemma http_do_authenticated:
  assumes "authenticates sv k tokens u s s1" and "open_handler sv k rt = None"
  obtains user rq where "ud_Id user = u" "rq_body rq = Some b"
    "http_do sv pg_text tokens k Done rt u b s =
       (case user_handler sv k rt (Some user) rq s1 of
          (s', res) \<Rightarrow> if 400 \<le> rs_status res
                        then (s', rs_status res, Inl (HttpError (int (rs_status res)) (body_error pg_text (rs_body res))))
                        else (s', rs_status res, Inr (rs_body res)))"
proof -
  obtain token user where tok: "tokens u = Some token" "ud_Id user = u"
    and auth: "GetAuthenticatedUser (sv_jwt sv) (sv_JwtSecret sv) (k_auth k) (k_clocks k)
      \<lparr>rq_authorization = bearer_prefix @ token, rq_limit = [], rq_body = None\<rparr> s = (s1, Inr user)"
    using assms(1) by (auto simp: authenticates_def)
  let ?rq = "\<lparr>rq_authorization = bearer_prefix @ token, rq_limit = [], rq_body = Some b\<rparr>"
  have "GetAuthenticatedUser (sv_jwt sv) (sv_JwtSecret sv) (k_auth k) (k_clocks k) ?rq s = (s1, Inr user)"
    using auth by (subst GetAuthenticatedUser_header) simp_all
  then have "serve sv k rt ?rq s = user_handler sv k rt (Some user) ?rq s1" using serve_protected [OF assms(2)] by simp
  then show thesis by (intro that [of user ?rq]) (simp_all add: tok http_do_def Let_def split_beta)
qed

lemma event_body:
  "DecodeRequestBody EventIdBody_fields \<lparr>eb_EventId = []\<rparr> (Some (JObj [(''eventId'', JStr e)])) = Inr \<lparr>eb_EventId = e\<rparr>"
  "DecodeRequestBody PingRequestBody_fields \<lparr>eb_EventId = [], pb_UserId = []\<rparr> (Some (JObj [(''eventId'', JStr e)]))
     = Inr \<lparr>eb_EventId = e, pb_UserId = []\<rparr>"
  by (simp_all add: EventIdBody_fields_def PingRequestBody_fields_def field_setter_def)

lemma quantity_body:
  "DecodeRequestBody ReserveEventRequestBody_fields \<lparr>reb_IdempotencyKey = [], reb_Quantity = 0\<rparr>
     (Some (JObj [(''quantity'', JNum (dec (unat q)))])) = Inr \<lparr>reb_IdempotencyKey = [], reb_Quantity = q\<rparr>"
proof -
  have "foldName ''idempotencyKey'' \<noteq> foldName ''quantity''" by (simp add: char_of_def)
  moreover have "unat q < 2 ^ 32" by (rule order_less_le_trans [OF unsigned_less]) simp
  ultimately show ?thesis by (simp add: ReserveEventRequestBody_fields_def field_setter_def ParseUint_dec)
qed

declare DecodeRequestBody.simps [simp del]

lemma transport_Reserve:
  assumes "authenticates sv k tokens u s s1" and "q \<noteq> 0"
    and "inproc_Reserve sv e k u q s1 = (si, ri)" and "http_Reserve sv pg_text tokens e k Done u q s = (sh, rh)"
  shows "sh = si \<and> (case ri of
      Inr _ \<Rightarrow> rh = Inr ()
    | Inl err \<Rightarrow> if err = ErrInsufficientCapacity \<or> err = ErrExceedMaxReserveQuantity then rh = Inl err
                else (\<exists>status message. rh = Inl (HttpError status message) \<and> (err = DeadlineExceeded \<longrightarrow> status = int StatusGatewayTimeout)))"
proof -
  have none: "open_handler sv k (R_Reserve e) = None" by simp
  obtain user rq where user: "ud_Id user = u" "rq_body rq = Some (JObj [(''quantity'', JNum (dec (unat q)))])"
    and run: "http_do sv pg_text tokens k Done (R_Reserve e) u (JObj [(''quantity'', JNum (dec (unat q)))]) s =
       (case user_handler sv k (R_Reserve e) (Some user) rq s1 of
          (s', res) \<Rightarrow> if 400 \<le> rs_status res
                        then (s', rs_status res, Inl (HttpError (int (rs_status res)) (body_error pg_text (rs_body res))))
                        else (s', rs_status res, Inr (rs_body res)))"
    by (rule http_do_authenticated [OF assms(1) none])
  let ?req = "\<lparr>rer_EventId = e, rer_UserId = u, rer_Quantity = q, rer_IdempotencyKey = None\<rparr>"
  obtain s2 res where svc: "svc_ReserveEvent (sv_lru sv) (sv_queue sv) (k_reserve k) (k_clocks k) (k_rnd k) True (k_gone k) (k_new_id k) ?req s1
      = (s2, res)" by fastforce
  have handler: "user_handler sv k (R_Reserve e) (Some user) rq s1 =
      (s2, case res of Inl err \<Rightarrow> reserve_error err | Inr it \<Rightarrow> WriteJSONResponse StatusOK (Some (PReservationItem it)))"
    using svc assms(2) by (simp add: reserveEventHandler_def user quantity_body split: sum.split)
  show ?thesis
  proof (cases res)
    case (Inr it)
    then show ?thesis using assms(3,4) svc run handler
      by (auto simp: inproc_Reserve_def http_Reserve_def WriteJSONResponse_def translateReserveError_def)
  next
    case (Inl err)
    then have ri: "ri = Inl err" "si = s2" using assms(3) svc by (simp_all add: inproc_Reserve_def)
    have "400 \<le> rs_status (reserve_error err)" by (simp add: reserve_error_def WriteErrorResponse_def)
    then have "sh = s2" and rh: "rh = translateReserveError
        (Inl (HttpError (int (rs_status (reserve_error err))) (body_error pg_text (rs_body (reserve_error err)))))"
      using assms(4) run handler Inl by (simp_all add: http_Reserve_def)
    then show ?thesis unfolding ri rh
      by (auto simp: reserve_error_def WriteErrorResponse_def translateReserveError_def)
  qed
qed

lemma transport_Enqueue:
  assumes "authenticates sv k tokens u s s1"
    and "svc_Enqueue (sv_queue sv) (k_queue k) (k_clocks k) e u s1 = (si, ri)"
    and "http_Enqueue sv pg_text tokens e k Done u s = (sh, rh)"
  shows "sh = si \<and> (case ri of Inl _ \<Rightarrow> (\<exists>status message. rh = Inl (HttpError status message)) | Inr ttl \<Rightarrow> (\<exists>ttl'. rh = Inr ttl' \<and> (0 < ttl') = (0 < ttl)))"
proof -
  have none: "open_handler sv k R_Enqueue = None" by simp
  obtain user rq where user: "ud_Id user = u" "rq_body rq = Some (JObj [(''eventId'', JStr e)])"
    and run: "http_do sv pg_text tokens k Done R_Enqueue u (JObj [(''eventId'', JStr e)]) s =
       (case user_handler sv k R_Enqueue (Some user) rq s1 of
          (s', res) \<Rightarrow> if 400 \<le> rs_status res
                        then (s', rs_status res, Inl (HttpError (int (rs_status res)) (body_error pg_text (rs_body res))))
                        else (s', rs_status res, Inr (rs_body res)))"
    by (rule http_do_authenticated [OF assms(1) none])
  show ?thesis
  proof (cases ri)
    case (Inl err)
    then show ?thesis using assms(2,3) run user
      by (auto simp: http_Enqueue_def enqueueHandler_def event_body WriteErrorResponse_def split: if_splits)
  next
    case (Inr ttl)
    then show ?thesis using assms(2,3) run user
      by (auto simp: http_Enqueue_def enqueueHandler_def event_body WriteJSONResponse_def StatusWhitelisted_def StatusInQueue_def split: if_splits)
  qed
qed

text \<open>What the engine makes of a status: admitted, else reaped, else sold out, else wait on.\<close>

definition poll_verdict :: "QueueStatus \<Rightarrow> bool \<times> bool \<times> bool" where
  "poll_verdict st = (0 < qs_WhitelistTTL st, \<not> 0 < qs_WhitelistTTL st \<and> \<not> qs_Alive st,
     \<not> 0 < qs_WhitelistTTL st \<and> qs_Alive st \<and> qs_SoldOut st)"

lemma Ping_admitted_alive:
  "svc_Ping L repo flt c e u s = (s', Inr st) \<Longrightarrow> 0 < qs_WhitelistTTL st \<Longrightarrow> qs_Alive st"
  by (auto simp: svc_Ping_def vqPing_def Let_def split: prod.splits sum.splits if_splits)

lemma Seconds_nonpos: "\<not> 0 < d \<Longrightarrow> Seconds d = 0"
  using zdiv_mono1 [of d 0 Second] by (simp add: Seconds_def)

lemma transport_Poll:
  assumes "authenticates sv k tokens u s s1"
    and "svc_Ping (sv_lru sv) (sv_queue sv) (k_queue k) (k_clocks k) e u s1 = (si, ri)"
    and "http_Poll sv pg_text tokens e k Done u s = (sh, rh)"
  shows "sh = si \<and> (case ri of Inl _ \<Rightarrow> (\<exists>status message. rh = Inl (HttpError status message)) | Inr st \<Rightarrow> (\<exists>st'. rh = Inr st' \<and> poll_verdict st' = poll_verdict st))"
proof -
  have none: "open_handler sv k R_Ping = None" by simp
  obtain user rq where user: "ud_Id user = u" "rq_body rq = Some (JObj [(''eventId'', JStr e)])"
    and run: "http_do sv pg_text tokens k Done R_Ping u (JObj [(''eventId'', JStr e)]) s =
       (case user_handler sv k R_Ping (Some user) rq s1 of
          (s', res) \<Rightarrow> if 400 \<le> rs_status res
                        then (s', rs_status res, Inl (HttpError (int (rs_status res)) (body_error pg_text (rs_body res))))
                        else (s', rs_status res, Inr (rs_body res)))"
    by (rule http_do_authenticated [OF assms(1) none])
  show ?thesis
  proof (cases ri)
    case (Inl err)
    then show ?thesis using assms(2,3) run user
      by (auto simp: http_Poll_def pingHandler_def event_body WriteErrorResponse_def)
  next
    case (Inr st)
    have alive: "0 < qs_WhitelistTTL st \<Longrightarrow> qs_Alive st" using Ping_admitted_alive assms(2) Inr by blast
    show ?thesis
    proof (cases "qs_Alive st")
      case True
      define t where "t = int (Seconds (qs_WhitelistTTL st))"
      define admitted where "admitted \<longleftrightarrow> 0 < qs_WhitelistTTL st"
      have handler: "user_handler sv k R_Ping (Some user) rq s1 =
          (si, WriteJSONResponse StatusOK (Some (PPing admitted t (qs_SoldOut st))))"
        using assms(2) user Inr True by (simp add: pingHandler_def event_body t_def admitted_def)
      have sent: "http_do sv pg_text tokens k Done R_Ping u (JObj [(''eventId'', JStr e)]) s =
          (si, StatusOK, Inr (Some (PPing admitted t (qs_SoldOut st))))"
        unfolding run handler by (simp add: WriteJSONResponse_def)
      have "sh = si" and rh: "rh = Inr \<lparr>qs_WhitelistTTL = (if admitted \<and> wrap_i64 (t * Second) \<le> 0 then Second
            else wrap_i64 (t * Second)), qs_Alive = True, qs_SoldOut = qs_SoldOut st\<rparr>"
        using assms(3) unfolding http_Poll_def sent by (simp_all add: Let_def)
      moreover have "0 < (if admitted \<and> wrap_i64 (t * Second) \<le> 0 then Second else wrap_i64 (t * Second)) \<longleftrightarrow> admitted"
      proof (cases admitted)
        case False
        then have "t = 0" by (simp add: t_def admitted_def Seconds_nonpos)
        then show ?thesis using False by (simp add: wrap_i64_def)
      qed (simp add: not_le)
      ultimately show ?thesis using Inr True by (simp add: poll_verdict_def admitted_def)
    next
      case False
      then show ?thesis using alive assms(2,3) run user Inr
        by (auto simp: http_Poll_def pingHandler_def event_body WriteErrorResponse_def poll_verdict_def)
    qed
  qed
qed

lemma transport_ReleaseSlot:
  assumes "authenticates sv k tokens u s s1"
    and "svc_Dequeue (sv_queue sv) (k_queue k) (k_clocks k) e u s1 = (si, ri)"
    and "http_ReleaseSlot sv pg_text tokens e k Done u s = (sh, rh)"
  shows "sh = si \<and> isl rh = isl ri"
proof -
  have none: "open_handler sv k R_Dequeue = None" by simp
  obtain user rq where user: "ud_Id user = u" "rq_body rq = Some (JObj [(''eventId'', JStr e)])"
    and run: "http_do sv pg_text tokens k Done R_Dequeue u (JObj [(''eventId'', JStr e)]) s =
       (case user_handler sv k R_Dequeue (Some user) rq s1 of
          (s', res) \<Rightarrow> if 400 \<le> rs_status res
                        then (s', rs_status res, Inl (HttpError (int (rs_status res)) (body_error pg_text (rs_body res))))
                        else (s', rs_status res, Inr (rs_body res)))"
    by (rule http_do_authenticated [OF assms(1) none])
  then show ?thesis using assms(2,3)
    by (cases ri) (auto simp: http_ReleaseSlot_def dequeueHandler_def event_body WriteErrorResponse_def WriteJSONResponse_def)
qed

section \<open>The counters of the engine\<close>

text \<open>
  The counter under which the engine books the result of a call, \<open>T_waiting\<close> for a user who waits on, and the
  counters of a runner in these terms.
\<close>

datatype tally = T_reserved | T_rejectedCapacity | T_rejectedQuota | T_timedOut | T_cancelled | T_errors | T_reaped | T_admitted | T_waiting

fun counts :: "Runner \<Rightarrow> tally \<Rightarrow> nat" where
  "counts r T_reserved = reserved r" | "counts r T_rejectedCapacity = rejectedCapacity r" | "counts r T_rejectedQuota = rejectedQuota r"
| "counts r T_timedOut = timedOut r" | "counts r T_cancelled = cancelled r" | "counts r T_errors = errors r"
| "counts r T_reaped = reaped r" | "counts r T_admitted = admitted r" | "counts r T_waiting = 0"

definition tally_error :: "go_error \<Rightarrow> tally" where
  "tally_error err = (if err = DeadlineExceeded then T_timedOut else if err = Canceled then T_cancelled else T_errors)"

definition tally_enqueue :: "duration result \<Rightarrow> tally" where
  "tally_enqueue res = (case res of Inl err \<Rightarrow> tally_error err | Inr ttl \<Rightarrow> if ttl \<le> 0 then T_waiting else T_admitted)"

definition tally_poll :: "QueueStatus result \<Rightarrow> tally" where
  "tally_poll res = (case res of
       Inl err \<Rightarrow> tally_error err
     | Inr st \<Rightarrow> if 0 < qs_WhitelistTTL st then T_admitted else if \<not> qs_Alive st then T_reaped
                 else if qs_SoldOut st then T_rejectedCapacity else T_waiting)"

definition tally_reserve :: "unit result \<Rightarrow> tally" where
  "tally_reserve res = (case res of
       Inr _ \<Rightarrow> T_reserved
     | Inl err \<Rightarrow> if err = ErrInsufficientCapacity then T_rejectedCapacity
                 else if err = ErrExceedMaxReserveQuantity then T_rejectedQuota else tally_error err)"

definition booked :: "tally \<Rightarrow> Runner \<Rightarrow> tally \<Rightarrow> nat" where
  "booked t r = (if t = T_waiting then counts r else (counts r)(t := Suc (counts r t)))"

lemma counts_classify: "counts (classify pg_text stage err r) t = booked (tally_error err) r t"
  by (cases t) (simp_all add: booked_def tally_error_def classify_def recordError_def)

text \<open>The steps of a user book exactly the result of their call.\<close>

lemma steps_book:
  "join_step cl pg_text k x took u r w = (ph, r', w') \<Longrightarrow> counts r' t = booked (tally_enqueue (snd (cl_Enqueue cl k x u w))) r t"
  "poll_step cl pg_text k x k' x' took u r w = (ph, r', w') \<Longrightarrow> counts r' t = booked (tally_poll (snd (cl_Poll cl k x u w))) r t"
  "reserve_step cl pg_text cfg k x took u r w = (ph, r', w') \<Longrightarrow> counts r' t = booked (tally_reserve (snd (cl_Reserve cl k x u (sc_Quantity cfg) w))) r t"
proof -
  show "join_step cl pg_text k x took u r w = (ph, r', w') \<Longrightarrow> counts r' t = booked (tally_enqueue (snd (cl_Enqueue cl k x u w))) r t"
    by (auto simp: join_step_def tally_enqueue_def counts_classify Let_def split: prod.splits sum.splits if_splits)
       (cases t; simp add: booked_def admit_def recordWait_def)+
  show "poll_step cl pg_text k x k' x' took u r w = (ph, r', w') \<Longrightarrow> counts r' t = booked (tally_poll (snd (cl_Poll cl k x u w))) r t"
    by (auto simp: poll_step_def tally_poll_def counts_classify split: prod.splits sum.splits if_splits)
       (cases t; simp add: booked_def admit_def recordWait_def)+
  show "reserve_step cl pg_text cfg k x took u r w = (ph, r', w') \<Longrightarrow> counts r' t = booked (tally_reserve (snd (cl_Reserve cl k x u (sc_Quantity cfg) w))) r t"
    by (auto simp: reserve_step_def tally_reserve_def counts_classify split: prod.splits sum.splits if_splits)
       (cases t; simp add: booked_def recordReserve_def recordRejected_def)+
qed

text \<open>Over HTTP the end of a context inside the server is a status like any other.\<close>

definition over_http :: "tally \<Rightarrow> tally" where
  "over_http t = (if t = T_timedOut \<or> t = T_cancelled then T_errors else t)"

section \<open>The oversell check\<close>

lemma GetEvent_coherent_row:
  assumes "coherent event_cached (event_rows db) r" and "snd (repo_GetEvent flt now rnd dl gone e db r) = Inr ev"
  shows "event_rows db e = Some ev"
proof (cases "rc_GetEvent (flt GE_Cache) now e r")
  case (Inr ev')
  then have "ev' = ev" using assms(2) by (simp add: repo_GetEvent_def)
  then have "event_cached now e r = Some ev"
    using Inr by (cases "flt GE_Cache") (auto simp: rc_GetEvent_def event_cached_def)
  then show ?thesis by (rule event_cache.hit_coherent [OF assms(1)])
next
  case (Inl err)
  then have "pg_GetEvent (flt GE_Query) e db = Inr ev"
    using assms(2) by (auto simp: repo_GetEvent_def Let_def split: sum.splits option.splits if_splits)
  then show ?thesis by (auto simp: pg_GetEvent_def event_rows_def split: option.splits)
qed

lemma snapshot_fields:
  "sn_Capacity (snd (take_snapshot cfg flt c rnd gone r fin s)) =
     (case snd (repo_GetEvent (\<lambda>x. flt (SN_Event x)) (c_redis c) rnd True gone (sc_EventId cfg) (sys_db s) (sys_redis s)) of
        Inr ev \<Rightarrow> ev_Capacity ev | Inl _ \<Rightarrow> 0)"
  "sn_SeatsSold (snd (take_snapshot cfg flt c rnd gone r fin s)) =
     (case pg_GetTotalReserved (flt SN_Sold) (c_pg c) (sc_EventId cfg) (sys_db s) of Inr n \<Rightarrow> int n | Inl _ \<Rightarrow> 0)"
  "sn_Oversold (snd (take_snapshot cfg flt c rnd gone r fin s)) \<longleftrightarrow>
     0 < sn_Capacity (snd (take_snapshot cfg flt c rnd gone r fin s))
     \<and> int (unat (sn_Capacity (snd (take_snapshot cfg flt c rnd gone r fin s)))) < sn_SeatsSold (snd (take_snapshot cfg flt c rnd gone r fin s))"
  by (simp_all add: take_snapshot_def Let_def split_beta)

text \<open>On a sound database a snapshot that reads the event's row, or no event, does not raise the flag.\<close>

lemma snapshot_row_not_oversold:
  assumes "within_capacity (c_pg c) (sys_db s)"
    and "\<And>ev. snd (repo_GetEvent (\<lambda>x. flt (SN_Event x)) (c_redis c) rnd True gone (sc_EventId cfg) (sys_db s) (sys_redis s)) = Inr ev \<Longrightarrow>
      event_rows (sys_db s) (sc_EventId cfg) = Some ev"
  shows "\<not> sn_Oversold (snd (take_snapshot cfg flt c rnd gone r fin s))"
proof (cases "snd (repo_GetEvent (\<lambda>x. flt (SN_Event x)) (c_redis c) rnd True gone (sc_EventId cfg) (sys_db s) (sys_redis s))")
  case (Inl e)
  then show ?thesis by (simp add: snapshot_fields)
next
  case (Inr ev)
  then have "event_rows (sys_db s) (sc_EventId cfg) = Some ev" by (rule assms(2))
  then obtain row where "find (\<lambda>e. er_id e = sc_EventId cfg) (events_tbl (sys_db s)) = Some row" "er_item row = ev"
    by (auto simp: event_rows_def)
  then have "row \<in> set (events_tbl (sys_db s))" "er_id row = sc_EventId cfg" "er_item row = ev" by (auto dest: find_SomeD)
  then have "active_seats (c_pg c) (sc_EventId cfg) (reservations_tbl (sys_db s)) \<le> unat (ev_Capacity ev)"
    using assms(1) by (auto simp: within_capacity_def list_all_iff)
  then have "int (active_seats (c_pg c) (sc_EventId cfg) (reservations_tbl (sys_db s))) \<le> int (unat (ev_Capacity ev))"
    by (simp only: of_nat_le_iff)
  then show ?thesis using Inr
    by (cases "flt SN_Sold") (simp_all add: snapshot_fields pg_GetTotalReserved_def)
qed

lemma snapshot_not_oversold:
  assumes "within_capacity (c_pg c) (sys_db s)" and "coherent event_cached (event_rows (sys_db s)) (sys_redis s)"
  shows "\<not> sn_Oversold (snd (take_snapshot cfg flt c rnd gone r fin s))"
  by (rule snapshot_row_not_oversold [OF assms(1) GetEvent_coherent_row [OF assms(2)]])

section \<open>Properties\<close>

text \<open>
  C26: every simulated user is accounted for exactly once. In every state of a run, whatever the
  goroutines' interleaving and the calls' outcomes: the outcomes counted are as many as the users
  that have finished, the funnel narrows from started over enqueued and admitted to reserved, no
  more users than workers hold the semaphore, there is one latency sample per reservation and one waiting
  time per admission, the error breakdown adds up to the errors, and once every started user is
  through, the outcomes add up to the users started.
\<close>

theorem simulation_accounts_for_every_user:
  assumes "(sim_step cl pg_text cfg env)\<^sup>*\<^sup>* (sim_start w) s" and "r = sm_run s"
  shows "accounted r = in_phase (length (sc_UserIds cfg)) Finished (sm_phase s)
    \<and> reserved r \<le> admitted r \<and> admitted r \<le> enqueued r \<and> enqueued r \<le> started r \<and> started r \<le> length (sc_UserIds cfg)
    \<and> int (in_phase (length (sc_UserIds cfg)) Reserving (sm_phase s)) \<le> max 0 (sc_Workers cfg)
    \<and> length (reserveSample r) = reserved r \<and> length (waitSample r) = admitted r \<and> sum_list (map snd (errorCounts r)) = errors r
    \<and> ((\<forall>i < length (sc_UserIds cfg). sm_phase s i = NotStarted \<or> sm_phase s i = Finished) \<longrightarrow> accounted r = started r)"
proof -
  have books: "books_balance cfg (sm_run s) (sm_phase s)"
    by (rule books.reach_inv [OF _ assms(1)]) (simp add: sim_start_def)
  have "accounted r = started r" if "\<forall>i < length (sc_UserIds cfg). sm_phase s i = NotStarted \<or> sm_phase s i = Finished"
    using in_phase_two [of "length (sc_UserIds cfg)" "sm_phase s"] that books by (simp add: books_balance_def assms(2) Let_def)
  then show ?thesis using books by (simp add: books_balance_def assms(2) Let_def)
qed

definition demo_sim :: SimConfig where
  "demo_sim = \<lparr>sc_EventId = ''e1'', sc_UserIds = [''u1'', ''u2''], sc_Quantity = 1, sc_MaxConcurrent = 0, sc_Workers = 1,
     sc_PollInterval = 0, sc_UserTimeout = 0, sc_Transport = [], sc_BaseURL = [], sc_Tokens = (\<lambda>_. None)\<rparr>"

theorem simulation_accounts_for_every_user_witness:
  "accounted (sm_run (put 0 (Joining, fresh_runner\<lparr>started := 1\<rparr>, (5, demo_sys [] empty_redis (\<lambda>_. None)))
     (sim_start (5, demo_sys [] empty_redis (\<lambda>_. None))))) = 0"
proof -
  let ?w = "(5 :: time, demo_sys [] empty_redis (\<lambda>_. None))"
  let ?s = "put 0 (Joining, (sm_run (sim_start ?w))\<lparr>started := started (sm_run (sim_start ?w)) + 1\<rparr>, sm_world (sim_start ?w)) (sim_start ?w)"
  have "sim_step (inProcessClient demo_server ''e1'') id demo_sim (\<lambda>_ _. False) (sim_start ?w) ?s"
    by (rule sim_step.start) (simp_all add: demo_sim_def sim_start_def)
  then have run: "(sim_step (inProcessClient demo_server ''e1'') id demo_sim (\<lambda>_ _. False))\<^sup>*\<^sup>* (sim_start ?w) ?s" by blast
  have "accounted (sm_run ?s) = in_phase 2 Finished (sm_phase ?s)"
    using simulation_accounts_for_every_user [OF run refl] by (simp add: demo_sim_def numeral_2_eq_2)
  then show ?thesis by (simp add: sim_start_def put_def in_phase_def fresh_runner_def numeral_2_eq_2)
qed

text \<open>
  C31: the waiting loop ends. With the configuration that \<open>NewRunner\<close> settles on, \<open>waitForAdmission\<close>
  never panics on its random jitter and returns with the user admitted or finished, whatever the
  polls answer, however late the timer fires and however long the calls last, for every poll interval up to
  \<open>2^62\<close> nanoseconds, after at most as many polls as intervals fit into the user's timeout. Beyond that the sum of interval
  and jitter can overflow, the timer fires at once, and the loop ends only because its calls take time: if every call lasts
  at least a nanosecond it returns after at most as many polls as nanoseconds fit into the timeout.
\<close>

theorem waitForAdmission_terminates:
  assumes "sc_PollInterval cfg \<le> 2 ^ 62 \<or> (\<forall>n. 0 < lasts n)"
  shows "\<exists>ph r' w' m. waitForAdmission cl pg_text (sc_PollInterval (settle_config cfg)) rnd late lasts ks xs
       (now + sc_UserTimeout (settle_config cfg)) why enq u now 0 r w = Some (Some (ph, r', w', m))
     \<and> (ph = Admitted \<or> ph = Finished)
     \<and> (sc_PollInterval cfg \<le> 2 ^ 62 \<longrightarrow> int m * sc_PollInterval (settle_config cfg) \<le> sc_UserTimeout (settle_config cfg))
     \<and> ((\<forall>n. 0 < lasts n) \<longrightarrow> int m \<le> sc_UserTimeout (settle_config cfg))"
proof -
  have "sc_PollInterval cfg \<le> 2 ^ 62 \<Longrightarrow> sc_PollInterval (settle_config cfg) \<le> 2 ^ 62"
    by (auto simp: settle_config_def Let_def DefaultPollInterval_def MaxPollInterval_def)
  then show ?thesis
    using waitForAdmission_bound [OF settle_config_positive(1), of cfg lasts cl pg_text rnd late ks xs
        "now + sc_UserTimeout (settle_config cfg)" why enq u now 0 r w] settle_config_positive(2) [of cfg] assms
    by fastforce
qed

theorem waitForAdmission_terminates_witness:
  "\<exists>ph r' w' m. waitForAdmission (inProcessClient demo_server ''e1'') id (sc_PollInterval (settle_config demo_sim)) (\<lambda>_. 7) (\<lambda>_. 0) (\<lambda>_. 0)
       (\<lambda>_. demo_calls) (\<lambda>_. Done) (sc_UserTimeout (settle_config demo_sim)) DeadlineExceeded 0 ''u1'' 0 0 fresh_runner
       (5, demo_sys [] empty_redis (\<lambda>_. None)) = Some (Some (ph, r', w', m))
     \<and> int m * sc_PollInterval (settle_config demo_sim) \<le> sc_UserTimeout (settle_config demo_sim)"
proof -
  have "sc_PollInterval demo_sim \<le> 2 ^ 62" by (simp add: demo_sim_def)
  then show ?thesis
    using waitForAdmission_terminates [of demo_sim "\<lambda>_. 0" "inProcessClient demo_server ''e1''" id "\<lambda>_. 7" "\<lambda>_. 0" "\<lambda>_. demo_calls" "\<lambda>_. Done" 0
        DeadlineExceeded 0 "''u1''" fresh_runner "(5, demo_sys [] empty_redis (\<lambda>_. None))"] by auto
qed

text \<open>
  C33: both transports give the same verdicts. For a user whose token authenticates and a call that
  reaches the server and returns, the HTTP client leaves the system in the state in which the in-process client
  leaves it after the authentication, for all four calls, and the engine books the result under the same counter: reserved,
  refused for capacity, refused for the quota, admitted, waiting, reaped, stopped as sold out, failed. The two exceptions are a
  deadline and a cancellation that end the context inside the server: in process they count as timed out and
  cancelled, over HTTP they arrive as a status, 504 for the deadline of a reservation, and count as errors. Giving a
  slot back succeeds over HTTP exactly when it does in process.
\<close>

theorem transports_agree:
  assumes "authenticates sv k tokens u s s1" and "q \<noteq> 0"
    and "inproc_Reserve sv e k u q s1 = (si, ri)" and "http_Reserve sv pg_text tokens e k Done u q s = (sh, rh)"
    and "svc_Enqueue (sv_queue sv) (k_queue k) (k_clocks k) e u s1 = (si', ri')"
    and "http_Enqueue sv pg_text tokens e k Done u s = (sh', rh')"
    and "svc_Ping (sv_lru sv) (sv_queue sv) (k_queue k) (k_clocks k) e u s1 = (si'', ri'')"
    and "http_Poll sv pg_text tokens e k Done u s = (sh'', rh'')"
    and "svc_Dequeue (sv_queue sv) (k_queue k) (k_clocks k) e u s1 = (sd, rd)"
    and "http_ReleaseSlot sv pg_text tokens e k Done u s = (shd, rhd)"
  shows "sh = si \<and> tally_reserve rh = over_http (tally_reserve ri)
    \<and> (ri = Inl DeadlineExceeded \<longrightarrow> (\<exists>message. rh = Inl (HttpError (int StatusGatewayTimeout) message)))
    \<and> sh' = si' \<and> tally_enqueue rh' = over_http (tally_enqueue ri')
    \<and> sh'' = si'' \<and> tally_poll rh'' = over_http (tally_poll ri'')
    \<and> shd = sd \<and> isl rhd = isl rd"
proof -
  have "sh = si \<and> tally_reserve rh = over_http (tally_reserve ri)
      \<and> (ri = Inl DeadlineExceeded \<longrightarrow> (\<exists>message. rh = Inl (HttpError (int StatusGatewayTimeout) message)))"
    using transport_Reserve [OF assms(1-4)]
    by (cases ri) (auto simp: tally_reserve_def tally_error_def over_http_def split: if_splits)
  moreover have "sh' = si' \<and> tally_enqueue rh' = over_http (tally_enqueue ri')"
    using transport_Enqueue [OF assms(1,5,6)] by (cases ri') (auto simp: tally_enqueue_def tally_error_def over_http_def)
  moreover have "sh'' = si'' \<and> tally_poll rh'' = over_http (tally_poll ri'')"
    using transport_Poll [OF assms(1,7,8)] by (cases ri'') (auto simp: tally_poll_def tally_error_def over_http_def poll_verdict_def)
  ultimately show ?thesis using transport_ReleaseSlot [OF assms(1,9,10)] by blast
qed

theorem transports_agree_witness:
  "case inproc_Reserve demo_server ''e1'' demo_calls ''u1'' 1
       (fst (GetAuthenticatedUser demo_jwt ''k'' (\<lambda>_. Done) demo_clock
          \<lparr>rq_authorization = bearer_prefix @ demo_token ''k'' \<lparr>uc_Name = [], uc_Email = [], uc_Subject = ''u1''\<rparr>, rq_limit = [], rq_body = None\<rparr>
          (demo_sys [] empty_redis (\<lambda>_. None)))) of
     (si, ri) \<Rightarrow> si = fst (http_Reserve demo_server id (\<lambda>u. Some (demo_token ''k'' \<lparr>uc_Name = [], uc_Email = [], uc_Subject = u\<rparr>)) ''e1'' demo_calls Done
       ''u1'' 1 (demo_sys [] empty_redis (\<lambda>_. None)))"
proof -
  let ?s = "demo_sys [] empty_redis (\<lambda>_. None)" and ?tok = "\<lambda>u. demo_token ''k'' \<lparr>uc_Name = [], uc_Email = [], uc_Subject = u\<rparr>"
  let ?rq = "\<lparr>rq_authorization = bearer_prefix @ ?tok ''u1'', rq_limit = [], rq_body = None\<rparr>"
  let ?u = "ur_item (demo_user ''u1'' ''a@x.io'')"
  have coh: "coherent user_cached (user_rows (sys_db ?s)) (sys_redis ?s)"
    by (simp add: coherent_def user_cached_def rc_GetUser_def rget_def empty_redis_def)
  have "snd (repo_GetUser (\<lambda>_. Done) (c_redis demo_clock) ''u1'' (sys_db ?s) (sys_redis ?s)) = Inr ?u"
    using GetUser_reads_through [where flt = "\<lambda>_. Done" and k = "''u1''", OF coh] by (simp add: user_rows_def demo_defs)
  then obtain r' where get: "repo_GetUser (\<lambda>_. Done) (c_redis demo_clock) ''u1'' (sys_db ?s) (sys_redis ?s) = (r', Inr ?u)"
    by (metis prod.collapse)
  have auth: "GetAuthenticatedUser demo_jwt ''k'' (\<lambda>_. Done) demo_clock ?rq ?s = (?s\<lparr>sys_redis := r'\<rparr>, Inr (UserDto_toDto ?u))"
    using GetAuthenticatedUser_token [OF demo_jwt_laws, of "''k''" "\<lparr>uc_Name = [], uc_Email = [], uc_Subject = ''u1''\<rparr>" "?tok ''u1''" ?rq
        "\<lambda>_. Done" demo_clock ?s r' "Inr ?u"] get by (simp add: demo_jwt_def)
  then have a: "authenticates demo_server demo_calls (\<lambda>u. Some (?tok u)) ''u1'' ?s (?s\<lparr>sys_redis := r'\<rparr>)"
    by (auto simp: authenticates_def demo_server_def demo_calls_def UserDto_toDto_def demo_user_def)
  obtain si ri where ri: "inproc_Reserve demo_server ''e1'' demo_calls ''u1'' 1 (?s\<lparr>sys_redis := r'\<rparr>) = (si, ri)" by fastforce
  obtain sh rh where rh: "http_Reserve demo_server id (\<lambda>u. Some (?tok u)) ''e1'' demo_calls Done ''u1'' 1 ?s = (sh, rh)" by fastforce
  obtain a1 a2 where e1: "svc_Enqueue (sv_queue demo_server) (k_queue demo_calls) (k_clocks demo_calls) ''e1'' ''u1'' (?s\<lparr>sys_redis := r'\<rparr>) = (a1, a2)" by fastforce
  obtain b1 b2 where e2: "http_Enqueue demo_server id (\<lambda>u. Some (?tok u)) ''e1'' demo_calls Done ''u1'' ?s = (b1, b2)" by fastforce
  obtain c1 c2 where p1: "svc_Ping (sv_lru demo_server) (sv_queue demo_server) (k_queue demo_calls) (k_clocks demo_calls) ''e1'' ''u1'' (?s\<lparr>sys_redis := r'\<rparr>) = (c1, c2)" by fastforce
  obtain d1 d2 where p2: "http_Poll demo_server id (\<lambda>u. Some (?tok u)) ''e1'' demo_calls Done ''u1'' ?s = (d1, d2)" by fastforce
  obtain g1 g2 where r1: "svc_Dequeue (sv_queue demo_server) (k_queue demo_calls) (k_clocks demo_calls) ''e1'' ''u1'' (?s\<lparr>sys_redis := r'\<rparr>) = (g1, g2)" by fastforce
  obtain h1 h2 where r2: "http_ReleaseSlot demo_server id (\<lambda>u. Some (?tok u)) ''e1'' demo_calls Done ''u1'' ?s = (h1, h2)" by fastforce
  have "sh = si" using transports_agree [OF a _ ri rh e1 e2 p1 p2 r1 r2] by simp
  then show ?thesis by (simp add: auth ri rh)
qed


text \<open>
  The snapshot's oversell flag is exact. When the calls answer and the event cache agrees with
  the table, \<open>Oversold\<close> is set exactly when the active seats of the event exceed its capacity, and
  \<open>SeatsSold\<close> and \<open>Capacity\<close> are the true numbers; and no failing call can raise it on a sound database.
\<close>

lemma Snapshot_detects_oversell:
  assumes "coherent event_cached (event_rows (sys_db s)) (sys_redis s)" and "event_rows (sys_db s) (sc_EventId cfg) = Some ev"
    and "flt (SN_Event GE_Query) = Done" and "flt SN_Sold = Done" and "0 < ev_Capacity ev"
    and "sn = snd (take_snapshot cfg flt c rnd None r fin s)"
  shows "(sn_Oversold sn \<longleftrightarrow> unat (ev_Capacity ev) < active_seats (c_pg c) (sc_EventId cfg) (reservations_tbl (sys_db s)))
    \<and> sn_SeatsSold sn = int (active_seats (c_pg c) (sc_EventId cfg) (reservations_tbl (sys_db s))) \<and> sn_Capacity sn = ev_Capacity ev
    \<and> (within_capacity (c_pg c) (sys_db s) \<longrightarrow> \<not> sn_Oversold (snd (take_snapshot cfg flt' c rnd' gone' r' fin' s)))"
proof -
  have "snd (repo_GetEvent (\<lambda>x. flt (SN_Event x)) (c_redis c) rnd True None (sc_EventId cfg) (sys_db s) (sys_redis s)) = Inr ev"
    using event_read_through [where flt = "\<lambda>x. flt (SN_Event x)", OF assms(1,3)] assms(2) by simp
  then have cap: "sn_Capacity sn = ev_Capacity ev" by (simp add: assms(6) snapshot_fields)
  moreover have sold: "sn_SeatsSold sn = int (active_seats (c_pg c) (sc_EventId cfg) (reservations_tbl (sys_db s)))"
    by (simp add: assms(6) snapshot_fields assms(4) pg_GetTotalReserved_def)
  moreover have "sn_Oversold sn \<longleftrightarrow> unat (ev_Capacity ev) < active_seats (c_pg c) (sc_EventId cfg) (reservations_tbl (sys_db s))"
    using assms(5) unfolding assms(6) snapshot_fields(3) cap [unfolded assms(6)] sold [unfolded assms(6)] by (simp only: of_nat_less_iff simp_thms)
  ultimately show ?thesis using snapshot_not_oversold [OF _ assms(1)] by blast
qed

text \<open>
  A percentile is an order statistic. Whatever index the floating-point product gives,
  \<open>percentileMs\<close> reads a sample (in whole microseconds) such that at least as many samples as the
  clamped index are not above it, itself not counted, and all but that many are not below it; a
  larger index never gives a smaller value.
\<close>

lemma percentile_is_order_statistic:
  assumes "xs \<noteq> []" and "i = nat (min (max 0 (f (length xs - 1))) (int (length xs) - 1))"
    and "f (length xs - 1) \<le> g (length xs - 1)"
  shows "(\<exists>x \<in> set xs. percentileUs f xs = x div 1000 \<and> i < length (filter (\<lambda>y. y \<le> x) xs) \<and> length xs - i \<le> length (filter (\<lambda>y. x \<le> y) xs))
    \<and> percentileUs f xs \<le> percentileUs g xs"
proof -
  have i: "i = clamp_index f xs" by (simp add: assms(2) clamp_index_def)
  note p = percentile_index [OF assms(1), of f] and q = percentile_index [OF assms(1), of g]
  have "i \<le> clamp_index g xs" unfolding i clamp_index_def using assms(3) by (intro nat_mono min.mono max.mono) simp_all
  then have "sort xs ! i \<le> sort xs ! clamp_index g xs" using q(2) by (intro sorted_nth_mono) simp_all
  then have "percentileUs f xs \<le> percentileUs g xs" unfolding p(1) q(1) i by (rule zdiv_mono1) simp
  moreover have "sort xs ! i \<in> set xs" using p(2) by (metis i length_sort nth_mem set_sort)
  moreover have "i < length (filter (\<lambda>y. y \<le> sort xs ! i) xs)" "length xs - i \<le> length (filter (\<lambda>y. sort xs ! i \<le> y) xs)"
    using sorted_counts [of "sort xs" i] p(2) by (simp_all add: i length_filter_sort)
  ultimately show ?thesis using p(1) by (auto simp: i)
qed

end
