(* ===== verification/Admin.thy ===== *)
theory Admin
  imports Registry SimProperties
begin

text \<open>
  The demo routes under \<open>handler/admin\<close>: minting users and events, resetting the tables, starting,
  watching and cancelling simulations. They act on the tables and Redis directly, beside the
  repositories, and on the registry of runs.
\<close>

section \<open>State and answers\<close>

record 'l admin =
  ad_sys :: "'l sys"
  ad_reg :: Registry

record ResetResponse =
  rr_Scope :: string
  rr_ReservationsCount :: nat
  rr_EventsCount :: nat
  rr_UsersCount :: nat
  rr_RedisFlushed :: bool

datatype admin_payload =
    A_Error go_error
  | A_MintUsers u64 nat "string list"
  | A_MintEvents u64 nat "EventItem list"
  | A_Reset ResetResponse
  | A_Simulate string string nat
  | A_Snapshot Snapshot

record admin_response =
  ar_status :: nat
  ar_body :: "admin_payload option"

abbreviation StatusAccepted :: nat where "StatusAccepted \<equiv> 202"

definition admin_error :: "nat \<Rightarrow> go_error \<Rightarrow> admin_response" where
  "admin_error status err = \<lparr>ar_status = status, ar_body = Some (A_Error err)\<rparr>"

definition admin_json :: "nat \<Rightarrow> admin_payload option \<Rightarrow> admin_response" where
  "admin_json status data = \<lparr>ar_status = status, ar_body = data\<rparr>"

section \<open>Minting\<close>

definition maxMintUsers :: u64 where "maxMintUsers = 20000"
definition maxMintEvents :: u64 where "maxMintEvents = 500"

definition mintedHash :: string where
  "mintedHash = ''$2a$10$GdGI14Uzy6WzBWBjujbZD.W5VI8K51Ur3lrRpdfknbzsjeTZD/Wjq''"

definition mintedFirstNames :: "string list" where
  "mintedFirstNames = [''Ava'', ''Marcus'', ''Priya'', ''Diego'', ''Grace'', ''Noor'', ''Kenji'', ''Lucia'', ''Omar'', ''Freya'']"

definition mintedLastNames :: "string list" where
  "mintedLastNames = [''Thompson'', ''Lee'', ''Sharma'', ''Fernandez'', ''Kim'', ''Haddad'', ''Tanaka'', ''Rossi'', ''Farouk'', ''Berg'']"

definition mintedVenues :: "string list" where
  "mintedVenues = [''Arena'', ''Stadium'', ''Amphitheatre'', ''Hall'', ''Garden'', ''Dome'']"

definition mintedActs :: "string list" where
  "mintedActs = [''Neon Tide'', ''Paper Kites'', ''Midnight Circuit'', ''Velvet Static'', ''Echo Harbour'', ''Glass Animals'']"

text \<open>
  \<open>rnd i j\<close> is what the \<open>j\<close>-th draw for item \<open>i\<close> gives, before \<open>rand.Intn\<close> brings it below its
  bound, and \<open>uuids i\<close> the value of \<open>uuid.NewString\<close>.
\<close>

definition Intn :: "nat \<Rightarrow> nat \<Rightarrow> nat" where
  "Intn bound r = r mod bound"

definition pick :: "string list \<Rightarrow> nat \<Rightarrow> string" where
  "pick xs r = xs ! Intn (length xs) r"

definition minted_user :: "(nat \<Rightarrow> nat \<Rightarrow> nat) \<Rightarrow> (nat \<Rightarrow> string) \<Rightarrow> nat \<Rightarrow> NewUser" where
  "minted_user rnd uuids i =
     \<lparr>nu_Name = pick mintedFirstNames (rnd i 0) @ '' '' @ pick mintedLastNames (rnd i 1),
      nu_Email = ''minted+'' @ uuids i @ ''@example.com'', nu_PasswordHash = mintedHash\<rparr>"

record CountBody =
  cb_Count :: u64

definition MintUsersRequest_fields :: "CountBody fields" where
  "MintUsersRequest_fields = [(''count'', json_u64 (\<lambda>v r. r\<lparr>cb_Count := v\<rparr>))]"

definition mintUsersHandler ::
  "(create_call \<Rightarrow> io) \<Rightarrow> clocks \<Rightarrow> (nat \<Rightarrow> nat \<Rightarrow> nat) \<Rightarrow> (nat \<Rightarrow> string) \<Rightarrow> string list \<Rightarrow> request \<Rightarrow> 'l admin \<Rightarrow> 'l admin \<times> admin_response" where
  "mintUsersHandler flt c rnd uuids ids rq a =
     (case DecodeRequestBody MintUsersRequest_fields \<lparr>cb_Count = 0\<rparr> (rq_body rq) of
        Inl err \<Rightarrow> (a, admin_error StatusBadRequest err)
      | Inr req \<Rightarrow>
          if cb_Count req = 0 \<or> maxMintUsers < cb_Count req
          then (a, admin_error StatusBadRequest (OtherError ''count must be between 1 and 20000''))
          else
            (case pg_CreateUsers flt (c_pg c) ids (map (minted_user rnd uuids) [0..<unat (cb_Count req)]) (sys_db (ad_sys a)) of
               (db', Inl err) \<Rightarrow> (a\<lparr>ad_sys := (ad_sys a)\<lparr>sys_db := db'\<rparr>\<rparr>, admin_error StatusInternalServerError err)
             | (db', Inr userIds) \<Rightarrow>
                 (a\<lparr>ad_sys := (ad_sys a)\<lparr>sys_db := db'\<rparr>\<rparr>,
                  admin_json StatusCreated (Some (A_MintUsers (cb_Count req) (length userIds) userIds)))))"

record MintEventsRequest = CountBody +
  me_Capacity :: u32
  me_MaxReservePerUser :: u32

definition MintEventsRequest_fields :: "MintEventsRequest fields" where
  "MintEventsRequest_fields =
     [(''count'', json_u64 (\<lambda>v r. r\<lparr>cb_Count := v\<rparr>)), (''capacity'', json_u32 (\<lambda>v r. r\<lparr>me_Capacity := v\<rparr>)),
      (''maxReservePerUser'', json_u32 (\<lambda>v r. r\<lparr>me_MaxReservePerUser := v\<rparr>))]"

definition minted_event :: "(nat \<Rightarrow> nat \<Rightarrow> nat) \<Rightarrow> time \<Rightarrow> MintEventsRequest \<Rightarrow> nat \<Rightarrow> NewEvent" where
  "minted_event rnd startSalesAt req i =
     \<lparr>ne_Name = pick mintedActs (rnd i 2) @ '' at the '' @ pick mintedVenues (rnd i 3),
      ne_Capacity = (if me_Capacity req = 0 then of_nat (50 + Intn 450 (rnd i 0)) else me_Capacity req),
      ne_MaxReservePerUser = (if me_MaxReservePerUser req = 0 then of_nat (1 + Intn 6 (rnd i 1)) else me_MaxReservePerUser req),
      ne_StartSalesAt = Some startSalesAt\<rparr>"

definition mintEventsHandler ::
  "(create_call \<Rightarrow> io) \<Rightarrow> clocks \<Rightarrow> (nat \<Rightarrow> nat \<Rightarrow> nat) \<Rightarrow> string list \<Rightarrow> request \<Rightarrow> 'l admin \<Rightarrow> 'l admin \<times> admin_response" where
  "mintEventsHandler flt c rnd ids rq a =
     (case DecodeRequestBody MintEventsRequest_fields \<lparr>cb_Count = 0, me_Capacity = 0, me_MaxReservePerUser = 0\<rparr> (rq_body rq) of
        Inl err \<Rightarrow> (a, admin_error StatusBadRequest err)
      | Inr req \<Rightarrow>
          if cb_Count req = 0 \<or> maxMintEvents < cb_Count req
          then (a, admin_error StatusBadRequest (OtherError ''count must be between 1 and 500''))
          else
            (case pg_CreateEvents flt (c_pg c) ids
                    (map (minted_event rnd (c_wall c - Minute) req) [0..<unat (cb_Count req)]) (sys_db (ad_sys a)) of
               (db', Inl err) \<Rightarrow> (a\<lparr>ad_sys := (ad_sys a)\<lparr>sys_db := db'\<rparr>\<rparr>, admin_error StatusInternalServerError err)
             | (db', Inr created) \<Rightarrow>
                 (a\<lparr>ad_sys := (ad_sys a)\<lparr>sys_db := db'\<rparr>\<rparr>,
                  admin_json StatusCreated (Some (A_MintEvents (cb_Count req) (length created) created)))))"

section \<open>Reset\<close>

definition ScopeReservations :: string where "ScopeReservations = ''reservations''"
definition ScopeUsers :: string where "ScopeUsers = ''users''"
definition ScopeAll :: string where "ScopeAll = ''all''"

definition scope_valid :: "string \<Rightarrow> bool" where
  "scope_valid s \<longleftrightarrow> s = ScopeReservations \<or> s = ScopeUsers \<or> s = ScopeAll"

datatype reset_call = RT_Begin | RT_CountReservations | RT_CountUsers | RT_CountEvents | RT_Truncate | RT_Commit | RT_Flush

text \<open>The \<open>TRUNCATE\<close> of each scope. Nothing else refers to these tables, so \<open>CASCADE\<close> adds no table.\<close>

definition truncate_scope :: "string \<Rightarrow> pg \<Rightarrow> pg" where
  "truncate_scope scope db =
     (if scope = ScopeAll then db\<lparr>reservations_tbl := [], events_tbl := [], users_tbl := []\<rparr>
      else if scope = ScopeUsers then db\<lparr>reservations_tbl := [], users_tbl := []\<rparr>
      else db\<lparr>reservations_tbl := []\<rparr>)"

definition admin_reset :: "'l lru_ops \<Rightarrow> (reset_call \<Rightarrow> io) \<Rightarrow> string \<Rightarrow> 'l sys \<Rightarrow> 'l sys \<times> ResetResponse result" where
  "admin_reset L flt scope s =
     (let db = sys_db s; withUsers = (scope = ScopeUsers \<or> scope = ScopeAll)
      in case io_err (flt RT_Begin) of Some e \<Rightarrow> (s, Inl e) | None \<Rightarrow>
      (case io_err (flt RT_CountReservations) of Some e \<Rightarrow> (s, Inl e) | None \<Rightarrow>
      (case (if withUsers then io_err (flt RT_CountUsers) else None) of Some e \<Rightarrow> (s, Inl e) | None \<Rightarrow>
      (case (if scope = ScopeAll then io_err (flt RT_CountEvents) else None) of Some e \<Rightarrow> (s, Inl e) | None \<Rightarrow>
      (case io_err (flt RT_Truncate) of Some e \<Rightarrow> (s, Inl e) | None \<Rightarrow>
      (case io_call (flt RT_Commit) (\<lambda>db. (truncate_scope scope db, ())) db of
         (db', Inl e) \<Rightarrow> (s\<lparr>sys_db := db'\<rparr>, Inl e)
       | (db', Inr _) \<Rightarrow>
           let s1 = repo_ClearBlockedEvents L (s\<lparr>sys_db := db'\<rparr>);
               (r', res) = io_call (flt RT_Flush) (\<lambda>r. (rflushdb r, ())) (sys_redis s1)
           in (s1\<lparr>sys_redis := r'\<rparr>,
               Inr \<lparr>rr_Scope = scope, rr_ReservationsCount = length (reservations_tbl db),
                    rr_EventsCount = (if scope = ScopeAll then length (events_tbl db) else 0),
                    rr_UsersCount = (if withUsers then length (users_tbl db) else 0),
                    rr_RedisFlushed = (\<not> isl res)\<rparr>)))))))"

record ScopeBody =
  sb_Scope :: string

definition ResetRequest_fields :: "ScopeBody fields" where
  "ResetRequest_fields = [(''scope'', json_string (\<lambda>v r. r\<lparr>sb_Scope := v\<rparr>))]"

definition resetHandler :: "'l lru_ops \<Rightarrow> (reset_call \<Rightarrow> io) \<Rightarrow> request \<Rightarrow> 'l admin \<Rightarrow> 'l admin \<times> admin_response" where
  "resetHandler L flt rq a =
     (case DecodeRequestBody ResetRequest_fields \<lparr>sb_Scope = []\<rparr> (rq_body rq) of
        Inl err \<Rightarrow> (a, admin_error StatusBadRequest err)
      | Inr req \<Rightarrow>
          let scope = (if sb_Scope req = [] then ScopeReservations else sb_Scope req)
          in if \<not> scope_valid scope
             then (a, admin_error StatusBadRequest (OtherError ''scope must be \"reservations\", \"users\" or \"all\"''))
             else if HasAnyActiveRun (ad_reg a) then (a, admin_error StatusConflict ErrRunInProgress)
             else
               (case admin_reset L flt scope (ad_sys a) of
                  (s', Inl err) \<Rightarrow>
                    (a\<lparr>ad_sys := s'\<rparr>,
                     if err = Canceled then admin_error StatusBadRequest err
                     else if err = DeadlineExceeded then admin_error StatusGatewayTimeout err
                     else admin_error StatusInternalServerError err)
                | (s', Inr response) \<Rightarrow> (a\<lparr>ad_sys := s'\<rparr>, admin_json StatusOK (Some (A_Reset response)))))"

section \<open>Simulations\<close>

definition maxSimulatedUsers :: int where "maxSimulatedUsers = 20000"
definition maxHTTPSimulatedUsers :: int where "maxHTTPSimulatedUsers = 4000"

record SimulateRequest =
  sq_EventId :: string
  sq_Users :: int
  sq_Quantity :: u32
  sq_MaxConcurrent :: u64
  sq_Capacity :: u32
  sq_Workers :: int
  sq_PollMs :: int
  sq_UserTimeoutMs :: int
  sq_Reset :: bool
  sq_Transport :: string

definition zero_SimulateRequest :: SimulateRequest where
  "zero_SimulateRequest = \<lparr>sq_EventId = [], sq_Users = 0, sq_Quantity = 0, sq_MaxConcurrent = 0, sq_Capacity = 0,
     sq_Workers = 0, sq_PollMs = 0, sq_UserTimeoutMs = 0, sq_Reset = False, sq_Transport = []\<rparr>"

definition SimulateRequest_fields :: "SimulateRequest fields" where
  "SimulateRequest_fields =
     [(''eventId'', json_string (\<lambda>v r. r\<lparr>sq_EventId := v\<rparr>)), (''users'', json_int (\<lambda>v r. r\<lparr>sq_Users := v\<rparr>)),
      (''quantity'', json_u32 (\<lambda>v r. r\<lparr>sq_Quantity := v\<rparr>)), (''maxConcurrent'', json_u64 (\<lambda>v r. r\<lparr>sq_MaxConcurrent := v\<rparr>)),
      (''capacity'', json_u32 (\<lambda>v r. r\<lparr>sq_Capacity := v\<rparr>)), (''workers'', json_int (\<lambda>v r. r\<lparr>sq_Workers := v\<rparr>)),
      (''pollMs'', json_int (\<lambda>v r. r\<lparr>sq_PollMs := v\<rparr>)), (''userTimeoutMs'', json_int (\<lambda>v r. r\<lparr>sq_UserTimeoutMs := v\<rparr>)),
      (''reset'', json_bool (\<lambda>v r. r\<lparr>sq_Reset := v\<rparr>)), (''transport'', json_string (\<lambda>v r. r\<lparr>sq_Transport := v\<rparr>))]"

datatype sim_call = SC_Capacity | SC_Invalidate | SC_Delete | SC_Flush | SC_Unblock | SC_Mint create_call

text \<open>
  The two statements the handler sends itself. A capacity that does not fit an \<open>INTEGER\<close> is refused
  by the driver; the trigger on the table stamps the row.
\<close>

definition set_capacity :: "time \<Rightarrow> u32 \<Rightarrow> string \<Rightarrow> event_row \<Rightarrow> event_row" where
  "set_capacity now capacity eventId e =
     (if er_id e = eventId then e\<lparr>er_item := (er_item e)\<lparr>ev_Capacity := capacity, ev_UpdatedAt := now\<rparr>\<rparr> else e)"

definition update_capacity :: "io \<Rightarrow> time \<Rightarrow> u32 \<Rightarrow> string \<Rightarrow> pg \<Rightarrow> pg \<times> unit result" where
  "update_capacity x now capacity eventId db =
     (if 2 ^ 31 \<le> unat capacity then (db, Inl (OtherError ''value out of range for int4''))
      else io_call x (\<lambda>db. (db\<lparr>events_tbl := map (set_capacity now capacity eventId) (events_tbl db)\<rparr>, ())) db)"

definition delete_reservations :: "io \<Rightarrow> string \<Rightarrow> pg \<Rightarrow> pg \<times> unit result" where
  "delete_reservations x eventId db =
     io_call x (\<lambda>db. (db\<lparr>reservations_tbl := filter (\<lambda>r. res_EventId r \<noteq> eventId) (reservations_tbl db)\<rparr>, ())) db"

definition sim_user :: "(nat \<Rightarrow> string) \<Rightarrow> nat \<Rightarrow> NewUser" where
  "sim_user uuids i =
     \<lparr>nu_Name = ''Sim User '' @ dec (i + 1), nu_Email = ''sim+'' @ uuids i @ ''@example.com'', nu_PasswordHash = mintedHash\<rparr>"

definition mintSimUsers ::
  "(create_call \<Rightarrow> io) \<Rightarrow> time \<Rightarrow> (nat \<Rightarrow> string) \<Rightarrow> string list \<Rightarrow> nat \<Rightarrow> pg \<Rightarrow> pg \<times> string list result" where
  "mintSimUsers flt now uuids ids count db = pg_CreateUsers flt now ids (map (sim_user uuids) [0..<count]) db"

text \<open>
  The token of a simulated user has \<open>RegisteredClaims\<close> with the subject alone; \<open>sign\<close> is its
  \<open>SignedString\<close>.
\<close>

fun mintTokens ::
  "(string \<Rightarrow> string \<Rightarrow> string result) \<Rightarrow> string \<Rightarrow> (string \<Rightarrow> string option) \<Rightarrow> string list \<Rightarrow> (string \<Rightarrow> string option) result" where
  "mintTokens sign secret tokens [] = Inr tokens"
| "mintTokens sign secret tokens (userId # userIds) =
     (case sign secret userId of
        Inl err \<Rightarrow> Inl err
      | Inr tok \<Rightarrow> mintTokens sign secret (tokens(userId \<mapsto> tok)) userIds)"

text \<open>
  What the handler is given beside the request: the outcomes of its calls, the clocks, ids for the
  new rows and the run, the e-mail salts and the token signer.
\<close>

record 'l sim_env =
  se_lru :: "'l lru_ops"
  se_flt :: "sim_call \<Rightarrow> io"
  se_clocks :: clocks
  se_uuids :: "nat \<Rightarrow> string"
  se_ids :: "string list"
  se_run_id :: string
  se_sign :: "string \<Rightarrow> string \<Rightarrow> string result"
  se_secret :: string
  se_BaseURL :: string

definition prepare_capacity :: "'l sim_env \<Rightarrow> SimulateRequest \<Rightarrow> 'l sys \<Rightarrow> 'l sys \<times> unit result" where
  "prepare_capacity en req s =
     (if sq_Capacity req = 0 then (s, Inr ())
      else case update_capacity (se_flt en SC_Capacity) (c_pg (se_clocks en)) (sq_Capacity req) (sq_EventId req) (sys_db s) of
        (db', Inl err) \<Rightarrow> (s\<lparr>sys_db := db'\<rparr>, Inl err)
      | (db', Inr _) \<Rightarrow>
          (case rc_InvalidateCache (se_flt en SC_Invalidate) (c_redis (se_clocks en)) (sq_EventId req) (sys_redis s) of
             (r', Inl err) \<Rightarrow> (s\<lparr>sys_db := db', sys_redis := r'\<rparr>, Inl err)
           | (r', Inr _) \<Rightarrow> (s\<lparr>sys_db := db', sys_redis := r'\<rparr>, Inr ())))"

definition prepare_reset :: "'l sim_env \<Rightarrow> SimulateRequest \<Rightarrow> 'l sys \<Rightarrow> 'l sys \<times> unit result" where
  "prepare_reset en req s =
     (if \<not> sq_Reset req then (s, Inr ())
      else case delete_reservations (se_flt en SC_Delete) (sq_EventId req) (sys_db s) of
        (db', Inl err) \<Rightarrow> (s\<lparr>sys_db := db'\<rparr>, Inl err)
      | (db', Inr _) \<Rightarrow>
          (case io_call (se_flt en SC_Flush) (\<lambda>r. (rflushdb r, ())) (sys_redis s) of
             (r', Inl err) \<Rightarrow> (s\<lparr>sys_db := db', sys_redis := r'\<rparr>, Inl err)
           | (r', Inr _) \<Rightarrow> (repo_ClearBlockedEvents (se_lru en) (s\<lparr>sys_db := db', sys_redis := r'\<rparr>), Inr ())))"

definition simulate_config :: "'l sim_env \<Rightarrow> SimulateRequest \<Rightarrow> string \<Rightarrow> string list \<Rightarrow> (string \<Rightarrow> string option) \<Rightarrow> SimConfig" where
  "simulate_config en req transport userIds tokens =
     \<lparr>sc_EventId = sq_EventId req, sc_UserIds = userIds, sc_Quantity = sq_Quantity req, sc_MaxConcurrent = sq_MaxConcurrent req,
      sc_Workers = sq_Workers req, sc_PollInterval = wrap_i64 (sq_PollMs req * Millisecond),
      sc_UserTimeout = wrap_i64 (sq_UserTimeoutMs req * Millisecond), sc_Transport = transport, sc_BaseURL = se_BaseURL en,
      sc_Tokens = tokens\<rparr>"

definition simulate_start :: "'l sim_env \<Rightarrow> SimulateRequest \<Rightarrow> string \<Rightarrow> 'l admin \<Rightarrow> 'l admin \<times> admin_response" where
  "simulate_start en req transport a =
     (case mintSimUsers (\<lambda>x. se_flt en (SC_Mint x)) (c_pg (se_clocks en)) (se_uuids en) (se_ids en) (nat (sq_Users req)) (sys_db (ad_sys a)) of
        (db', Inl err) \<Rightarrow> (a\<lparr>ad_sys := (ad_sys a)\<lparr>sys_db := db'\<rparr>\<rparr>, admin_error StatusInternalServerError err)
      | (db', Inr userIds) \<Rightarrow>
          let a1 = a\<lparr>ad_sys := (ad_sys a)\<lparr>sys_db := db'\<rparr>\<rparr>
          in case (if transport = TransportHTTP then mintTokens (se_sign en) (se_secret en) (\<lambda>_. None) userIds else Inr (\<lambda>_. None)) of
               Inl err \<Rightarrow> (a1, admin_error StatusInternalServerError err)
             | Inr tokens \<Rightarrow>
                 (case reg_Start (se_run_id en) (c_wall (se_clocks en)) (simulate_config en req transport userIds tokens) (ad_reg a1) of
                    (reg', Inl err) \<Rightarrow>
                      (a1\<lparr>ad_reg := reg'\<rparr>,
                       if err = ErrRunInProgress then admin_error StatusConflict err else admin_error StatusInternalServerError err)
                  | (reg', Inr run) \<Rightarrow>
                      (a1\<lparr>ad_reg := reg'\<rparr>, admin_json StatusAccepted (Some (A_Simulate (run_Id run) (run_EventId run) (length userIds))))))"

definition simulateHandler :: "'l sim_env \<Rightarrow> request \<Rightarrow> 'l admin \<Rightarrow> 'l admin \<times> admin_response" where
  "simulateHandler en rq a =
     (case DecodeRequestBody SimulateRequest_fields zero_SimulateRequest (rq_body rq) of
        Inl err \<Rightarrow> (a, admin_error StatusBadRequest err)
      | Inr req \<Rightarrow>
          let transport = (if sq_Transport req = [] then TransportInProcess else sq_Transport req)
          in if sq_EventId req = [] then (a, admin_error StatusBadRequest (OtherError ''eventId is required''))
             else if sq_Users req \<le> 0 \<or> maxSimulatedUsers < sq_Users req
             then (a, admin_error StatusBadRequest (OtherError ''users must be between 1 and 20000''))
             else if transport \<noteq> TransportInProcess \<and> transport \<noteq> TransportHTTP
             then (a, admin_error StatusBadRequest (OtherError ''transport must be \"inproc\" or \"http\"''))
             else if transport = TransportHTTP \<and> maxHTTPSimulatedUsers < sq_Users req
             then (a, admin_error StatusBadRequest
                     (OtherError (''http transport supports at most 4000 users, got '' @ dec (nat (sq_Users req)))))
             else if HasActiveRun (sq_EventId req) (ad_reg a) then (a, admin_error StatusConflict ErrRunInProgress)
             else case prepare_capacity en req (ad_sys a) of
               (s1, Inl err) \<Rightarrow> (a\<lparr>ad_sys := s1\<rparr>, admin_error StatusInternalServerError err)
             | (s1, Inr _) \<Rightarrow>
                 (case prepare_reset en req s1 of
                    (s2, Inl err) \<Rightarrow> (a\<lparr>ad_sys := s2\<rparr>, admin_error StatusInternalServerError err)
                  | (s2, Inr _) \<Rightarrow>
                      let s3 = (if 0 < sq_Capacity req
                                then fst (repo_UnblockEvent (se_lru en) (se_flt en SC_Unblock) (se_clocks en) (sq_EventId req) s2) else s2)
                      in simulate_start en req transport (a\<lparr>ad_sys := s3\<rparr>)))"

text \<open>\<open>progress\<close> are the counters of the run's \<open>Runner\<close> at the moment.\<close>

definition simulateSnapshotHandler ::
  "(snapshot_call \<Rightarrow> io) \<Rightarrow> clocks \<Rightarrow> nat \<Rightarrow> go_error option \<Rightarrow> (string \<Rightarrow> Runner) \<Rightarrow> string \<Rightarrow> 'l admin \<Rightarrow> 'l admin \<times> admin_response" where
  "simulateSnapshotHandler flt c rnd gone progress runId a =
     (case reg_Get runId (ad_reg a) of
        Inl err \<Rightarrow> (a, admin_error StatusNotFound err)
      | Inr run \<Rightarrow>
          (case take_snapshot (run_cfg run) flt c rnd gone (progress runId) (run_done run) (ad_sys a) of
             (s', sn) \<Rightarrow> (a\<lparr>ad_sys := s'\<rparr>, admin_json StatusOK (Some (A_Snapshot sn)))))"

definition simulateCancelHandler :: "string \<Rightarrow> 'l admin \<Rightarrow> 'l admin \<times> admin_response" where
  "simulateCancelHandler runId a =
     (case reg_Cancel runId (ad_reg a) of
        (reg', Inl err) \<Rightarrow> (a\<lparr>ad_reg := reg'\<rparr>, admin_error StatusNotFound err)
      | (reg', Inr _) \<Rightarrow> (a\<lparr>ad_reg := reg'\<rparr>, admin_json StatusAccepted None))"

text \<open>
  The stream: a snapshot at once and one per tick until one says \<open>Done\<close> and was written, or the
  client is gone, which is the end of the list. Each element is what taking the snapshot does and
  whether writing it succeeds.
\<close>

fun simulate_stream :: "(('s \<Rightarrow> 's \<times> Snapshot) \<times> bool) list \<Rightarrow> 's \<Rightarrow> 's \<times> Snapshot list" where
  "simulate_stream [] s = (s, [])"
| "simulate_stream ((snapshot, written) # ticks) s =
     (case snapshot s of
        (s', sn) \<Rightarrow>
          if \<not> written then simulate_stream ticks s'
          else if sn_Done sn then (s', [sn])
          else (case simulate_stream ticks s' of (s'', sns) \<Rightarrow> (s'', sn # sns)))"

text \<open>
  One turn of the stream: the counters of the run at that moment, what happened to the system since the
  turn before, the outcomes of the snapshot's calls, and whether the write succeeded.
\<close>

record 's stream_tick =
  tk_flt :: "snapshot_call \<Rightarrow> io"
  tk_clocks :: clocks
  tk_rnd :: nat
  tk_gone :: "go_error option"
  tk_progress :: Runner
  tk_done :: bool
  tk_between :: "'s \<Rightarrow> 's"
  tk_written :: bool

definition stream_turn :: "SimConfig \<Rightarrow> 'l sys stream_tick \<Rightarrow> ('l sys \<Rightarrow> 'l sys \<times> Snapshot) \<times> bool" where
  "stream_turn cfg t =
     (\<lambda>s. take_snapshot cfg (tk_flt t) (tk_clocks t) (tk_rnd t) (tk_gone t) (tk_progress t) (tk_done t) (tk_between t s), tk_written t)"

text \<open>
  The handler refuses an unknown run, a writer that cannot flush (\<open>flushable\<close>) and one whose deadline
  cannot be lifted (\<open>deadline\<close> is the error of \<open>SetWriteDeadline\<close>); otherwise it streams under status 200.
\<close>

datatype stream_answer = Refused admin_response | Streamed nat "Snapshot list"

definition simulateStreamHandler ::
  "bool \<Rightarrow> go_error option \<Rightarrow> 'l sys stream_tick list \<Rightarrow> string \<Rightarrow> 'l admin \<Rightarrow> 'l admin \<times> stream_answer" where
  "simulateStreamHandler flushable deadline ticks runId a =
     (case reg_Get runId (ad_reg a) of
        Inl err \<Rightarrow> (a, Refused (admin_error StatusNotFound err))
      | Inr run \<Rightarrow>
          if \<not> flushable then (a, Refused (admin_error StatusInternalServerError (OtherError ''streaming unsupported'')))
          else case deadline of
            Some err \<Rightarrow> (a, Refused (admin_error StatusInternalServerError err))
          | None \<Rightarrow>
              (case simulate_stream (map (stream_turn (run_cfg run)) ticks) (ad_sys a) of
                 (s', sns) \<Rightarrow> (a\<lparr>ad_sys := s'\<rparr>, Streamed StatusOK sns)))"

lemma simulate_stream_ends:
  assumes "simulate_stream ticks s = (s', sns)"
  shows "\<forall>sn \<in> set (butlast sns). \<not> sn_Done sn" and "length sns \<le> length (filter snd ticks)"
proof -
  have "(\<forall>sn \<in> set (butlast sns). \<not> sn_Done sn) \<and> length sns \<le> length (filter snd ticks)"
    using assms
  proof (induction ticks s arbitrary: s' sns rule: simulate_stream.induct)
    case (2 snapshot written ticks s)
    obtain s1 sn where sn: "snapshot s = (s1, sn)" by (cases "snapshot s")
    obtain s2 rest where rest: "simulate_stream ticks s1 = (s2, rest)" by (cases "simulate_stream ticks s1")
    show ?case
    proof (cases "written \<and> \<not> sn_Done sn")
      case True
      then have "sns = sn # rest" using "2.prems" by (simp add: sn rest)
      then show ?thesis using "2.IH"(2) [OF sn [symmetric] _ _ rest] True by simp
    next
      case False
      then show ?thesis using "2.prems" "2.IH"(1) [OF sn [symmetric] _ rest] by (auto simp: sn rest split: if_splits)
    qed
  qed simp
  then show "\<forall>sn \<in> set (butlast sns). \<not> sn_Done sn" and "length sns \<le> length (filter snd ticks)" by blast+
qed

text \<open>
  A stream sends at most one snapshot per turn and stops with the first one that says the run is over; it leaves
  the registry alone.
\<close>

lemma stream_stops_at_end:
  assumes "simulateStreamHandler flushable deadline ticks runId a = (a', Streamed st sns)"
  shows "st = StatusOK \<and> (\<forall>sn \<in> set (butlast sns). \<not> sn_Done sn) \<and> length sns \<le> length ticks \<and> ad_reg a' = ad_reg a"
proof -
  obtain run where found: "reg_Get runId (ad_reg a) = Inr run"
    using assms by (cases "reg_Get runId (ad_reg a)") (simp_all add: simulateStreamHandler_def)
  obtain s' sns' where stream: "simulate_stream (map (stream_turn (run_cfg run)) ticks) (ad_sys a) = (s', sns')" by fastforce
  have run: "sns' = sns" "st = StatusOK" "a' = a\<lparr>ad_sys := s'\<rparr>"
    using assms by (auto simp: simulateStreamHandler_def found stream split: if_splits option.splits)
  have "length sns \<le> length ticks"
    using simulate_stream_ends(2) [OF stream [unfolded run(1)]] le_trans [OF _ length_filter_le]
    by (simp add: filter_map)
  then show ?thesis using simulate_stream_ends(1) [OF stream [unfolded run(1)]] run(2,3) by simp
qed

end
