(* ===== verification/Config.thy ===== *)
theory Config
  imports GoText VirtualQueue
begin

text \<open>
  \<open>config/config.go\<close>: the settings read from the environment, their defaults and their checks, and
  the virtual queue repository built from them. \<open>godotenv.Load\<close> is an argument: its error, if any,
  with the answer of \<open>os.IsNotExist\<close> on it; \<open>env\<close> is the environment after it. So are
  \<open>time.Duration\<close>'s text in an error message and the \<open>float64\<close> product of \<open>ParseDuration\<close>.
\<close>

section \<open>The settings\<close>

record Config =
  cfg_Port :: string
  cfg_LogLevel :: string
  cfg_JwtSecret :: string
  cfg_PostgreSQLUrl :: string
  cfg_RedisUrl :: string
  cfg_DemoMode :: bool
  cfg_MaxConcurrentQueue :: u64
  cfg_WhitelistTTL :: duration
  cfg_HeartbeatTTL :: duration
  cfg_QueueTTL :: duration
  cfg_PromoteInterval :: duration

type_synonym environment = "string \<Rightarrow> string option"

record golib =
  f64_fraction :: "nat \<Rightarrow> nat \<Rightarrow> nat \<Rightarrow> nat"
  Duration_String :: "duration \<Rightarrow> string"

definition getEnv :: "environment \<Rightarrow> string \<Rightarrow> string \<Rightarrow> string" where
  "getEnv env key fallback = (case env key of Some v \<Rightarrow> if v \<noteq> [] then v else fallback | None \<Rightarrow> fallback)"

definition getEnvBool :: "environment \<Rightarrow> string \<Rightarrow> bool \<Rightarrow> bool" where
  "getEnvBool env key fallback =
     (case env key of
        Some v \<Rightarrow> if v \<noteq> [] then (case ParseBool v of None \<Rightarrow> fallback | Some b \<Rightarrow> b) else fallback
      | None \<Rightarrow> fallback)"

definition getEnvDuration :: "golib \<Rightarrow> environment \<Rightarrow> string \<Rightarrow> duration \<Rightarrow> duration" where
  "getEnvDuration lib env key fallback =
     (case env key of
        Some v \<Rightarrow> if v \<noteq> [] then (case ParseDuration (f64_fraction lib) v of None \<Rightarrow> fallback | Some d \<Rightarrow> d) else fallback
      | None \<Rightarrow> fallback)"

definition getEnvUInt64 :: "environment \<Rightarrow> string \<Rightarrow> u64 \<Rightarrow> u64" where
  "getEnvUInt64 env key fallback =
     (case env key of
        Some v \<Rightarrow> if v \<noteq> [] then (case ParseUint 64 v of None \<Rightarrow> fallback | Some n \<Rightarrow> of_nat n) else fallback
      | None \<Rightarrow> fallback)"

definition mustNotEmptyEnv :: "string \<Rightarrow> string \<Rightarrow> go_error option" where
  "mustNotEmptyEnv name value = (if value = [] then Some (OtherError (name @ '' must be set'')) else None)"

definition mustAtLeast :: "golib \<Rightarrow> string \<Rightarrow> duration \<Rightarrow> duration \<Rightarrow> go_error option" where
  "mustAtLeast lib name value minimum =
     (if value < minimum
      then Some (OtherError (name @ '' must be at least '' @ Duration_String lib minimum @ '', got '' @ Duration_String lib value))
      else None)"

definition read_config :: "golib \<Rightarrow> environment \<Rightarrow> Config" where
  "read_config lib env =
     \<lparr>cfg_Port = getEnv env ''PORT'' ''8000'',
      cfg_LogLevel = getEnv env ''LOG_LEVEL'' ''info'',
      cfg_JwtSecret = getEnv env ''JWT_SECRET'' [],
      cfg_PostgreSQLUrl = getEnv env ''POSTGRESQL_URL'' [],
      cfg_RedisUrl = getEnv env ''REDIS_URL'' [],
      cfg_DemoMode = getEnvBool env ''DEMO_MODE'' False,
      cfg_MaxConcurrentQueue = getEnvUInt64 env ''MAX_CONCURRENT_QUEUE'' 10,
      cfg_WhitelistTTL = getEnvDuration lib env ''WHITELIST_TTL'' (15 * Minute),
      cfg_HeartbeatTTL = getEnvDuration lib env ''HEARTBEAT_TTL'' (5 * Minute),
      cfg_QueueTTL = getEnvDuration lib env ''QUEUE_TTL'' (5 * Minute),
      cfg_PromoteInterval = getEnvDuration lib env ''PROMOTE_INTERVAL'' (1 * Second)\<rparr>"

text \<open>The checks in the order of the source; the first that fails gives the error.\<close>

fun first_error :: "go_error option list \<Rightarrow> go_error option" where
  "first_error [] = None"
| "first_error (Some e # es) = Some e"
| "first_error (None # es) = first_error es"

definition Load :: "golib \<Rightarrow> (go_error \<times> bool) option \<Rightarrow> environment \<Rightarrow> Config result" where
  "Load lib dotenv env =
     (case dotenv of
        Some (e, False) \<Rightarrow> Inl e
      | _ \<Rightarrow>
          let cfg = read_config lib env in
          case first_error
            [mustNotEmptyEnv ''JWT_SECRET'' (cfg_JwtSecret cfg),
             mustNotEmptyEnv ''POSTGRESQL_URL'' (cfg_PostgreSQLUrl cfg),
             mustNotEmptyEnv ''REDIS_URL'' (cfg_RedisUrl cfg),
             mustAtLeast lib ''WHITELIST_TTL'' (cfg_WhitelistTTL cfg) Second,
             mustAtLeast lib ''HEARTBEAT_TTL'' (cfg_HeartbeatTTL cfg) Second,
             mustAtLeast lib ''QUEUE_TTL'' (cfg_QueueTTL cfg) Second,
             mustAtLeast lib ''PROMOTE_INTERVAL'' (cfg_PromoteInterval cfg) Millisecond]
          of Some e \<Rightarrow> Inl e | None \<Rightarrow> Inr cfg)"

text \<open>\<open>NewVirtualQueueRepository\<close>, less the ticker it starts.\<close>

definition NewVirtualQueueRepository :: "Config \<Rightarrow> VirtualQueueRepository" where
  "NewVirtualQueueRepository cfg =
     \<lparr>vq_maxConcurrentQueue = cfg_MaxConcurrentQueue cfg, vq_promoteInterval = cfg_PromoteInterval cfg,
      vq_WhitelistTTL = cfg_WhitelistTTL cfg, vq_HeartbeatTTL = cfg_HeartbeatTTL cfg, vq_QueueTTL = cfg_QueueTTL cfg\<rparr>"

section \<open>What the checks accept\<close>

lemma first_error_None: "first_error es = None \<longleftrightarrow> list_all (\<lambda>e. e = None) es"
  by (induction es rule: first_error.induct) auto

lemma must_None:
  "mustNotEmptyEnv n v = None \<longleftrightarrow> v \<noteq> []"
  "mustAtLeast lib n d m = None \<longleftrightarrow> m \<le> d"
  by (auto simp: mustNotEmptyEnv_def mustAtLeast_def)

lemma Load_Inr:
  "Load lib dotenv env = Inr cfg \<longleftrightarrow>
     cfg = read_config lib env \<and> (\<forall>e. dotenv \<noteq> Some (e, False))
     \<and> cfg_JwtSecret cfg \<noteq> [] \<and> cfg_PostgreSQLUrl cfg \<noteq> [] \<and> cfg_RedisUrl cfg \<noteq> []
     \<and> Second \<le> cfg_WhitelistTTL cfg \<and> Second \<le> cfg_HeartbeatTTL cfg \<and> Second \<le> cfg_QueueTTL cfg
     \<and> Millisecond \<le> cfg_PromoteInterval cfg"
proof (cases "\<exists>e. dotenv = Some (e, False)")
  case True
  then show ?thesis by (auto simp: Load_def)
next
  case False
  let ?c = "read_config lib env"
  let ?checks = "[mustNotEmptyEnv ''JWT_SECRET'' (cfg_JwtSecret ?c), mustNotEmptyEnv ''POSTGRESQL_URL'' (cfg_PostgreSQLUrl ?c),
     mustNotEmptyEnv ''REDIS_URL'' (cfg_RedisUrl ?c), mustAtLeast lib ''WHITELIST_TTL'' (cfg_WhitelistTTL ?c) Second,
     mustAtLeast lib ''HEARTBEAT_TTL'' (cfg_HeartbeatTTL ?c) Second, mustAtLeast lib ''QUEUE_TTL'' (cfg_QueueTTL ?c) Second,
     mustAtLeast lib ''PROMOTE_INTERVAL'' (cfg_PromoteInterval ?c) Millisecond]"
  have "Load lib dotenv env = (case first_error ?checks of Some e \<Rightarrow> Inl e | None \<Rightarrow> Inr ?c)"
    using False by (auto simp: Load_def Let_def split: option.split prod.split bool.split)
  then have "Load lib dotenv env = Inr cfg \<longleftrightarrow> cfg = ?c \<and> list_all (\<lambda>e. e = None) ?checks"
    unfolding first_error_None [symmetric] by (auto split: option.split)
  then show ?thesis using False by (auto simp: must_None)
qed

lemma getEnvDuration_range:
  "- (2 ^ 63) \<le> fallback \<Longrightarrow> fallback < 2 ^ 63 \<Longrightarrow>
     - (2 ^ 63) \<le> getEnvDuration lib env key fallback \<and> getEnvDuration lib env key fallback < 2 ^ 63"
  using ParseDuration_range [of "f64_fraction lib"] by (auto simp: getEnvDuration_def split: option.split)

section \<open>Properties\<close>

lemma Unix_after: "Second \<le> d \<Longrightarrow> Unix wall < Unix (wall + d)"
  using zdiv_mono1 [of "wall + Second" "wall + d" Second] by (simp add: Unix_def)

lemma first_enqueue_entry:
  assumes "\<not> beating now e r u" and "r_zsets r (getEventVirtualQueueKey e) = []" and "Second \<le> vq_HeartbeatTTL repo"
  shows "r_zsets (fst (vqEnqueue repo (\<lambda>_. Done) wall now e u r)) (getEventVirtualQueueKey e) = [(Unix (wall + vq_QueueTTL repo), u)]"
proof -
  have "Seconds (vq_HeartbeatTTL repo) \<noteq> 0" using Seconds_pos [OF assms(3)] by simp
  moreover have "\<not> rexists now (getUserHeartbeatKey e u) (rzremrangebyscore q m r)" for q m
    using assms(1) by (simp add: rexists_def rget_def)
  ultimately show ?thesis using assms(2)
    by (simp add: vqEnqueue_def enqueueLuaScript_def TrackActiveEvent_def rset_nx_def Let_def split_beta)
       (simp add: rzadd_def rzremrangebyscore_def zwithout_def)
qed

text \<open>
  C25: a configuration that \<open>Load\<close> accepts works. The token secret and the two connection addresses are not empty, the promoter's
  ticker has a positive interval (\<open>time.NewTicker\<close> panics otherwise), every duration fits
  \<open>time.Duration\<close>, and the queue built from it gives every admitted or waiting user at least one second in each respect: the
  slot, the heartbeat and the place in the line last a second or more. A first enqueue succeeds, puts the
  user in the line with an entry that a clean-up in the same second spares, and keeps the heartbeat for a second, which a
  shorter \<open>HEARTBEAT_TTL\<close> would not, since the script sets it in whole seconds.
\<close>

theorem Load_configures_working_queue:
  assumes "Load lib dotenv env = Inr cfg" and "repo = NewVirtualQueueRepository cfg"
    and "\<not> beating now e r u" and "r_zsets r (getEventVirtualQueueKey e) = []"
  shows "cfg_JwtSecret cfg \<noteq> [] \<and> cfg_PostgreSQLUrl cfg \<noteq> [] \<and> cfg_RedisUrl cfg \<noteq> []
    \<and> 0 < vq_promoteInterval repo \<and> 1 \<le> Seconds (vq_WhitelistTTL repo) \<and> 1 \<le> Seconds (vq_HeartbeatTTL repo) \<and> Second \<le> vq_QueueTTL repo
    \<and> vq_WhitelistTTL repo < 2 ^ 63 \<and> vq_HeartbeatTTL repo < 2 ^ 63 \<and> vq_QueueTTL repo < 2 ^ 63
    \<and> (\<exists>r' d. vqEnqueue repo (\<lambda>_. Done) wall now e u r = (r', Inr True)
          \<and> r_zsets r' (getEventVirtualQueueKey e) = [(d, u)] \<and> Unix wall < d \<and> beating (now + 999) e r' u)
    \<and> (\<exists>e'. snd (vqEnqueue (repo\<lparr>vq_HeartbeatTTL := Second - 1\<rparr>) (\<lambda>_. Done) wall now e u r) = Inl e')"
proof -
  note ok = assms(1) [unfolded Load_Inr]
  have repo: "Second \<le> vq_HeartbeatTTL repo" "Second \<le> vq_WhitelistTTL repo" "Millisecond \<le> vq_promoteInterval repo"
    "cfg = read_config lib env" "Second \<le> vq_QueueTTL repo"
    using ok by (auto simp: assms(2) NewVirtualQueueRepository_def)
  have ranges: "vq_WhitelistTTL repo < 2 ^ 63" "vq_HeartbeatTTL repo < 2 ^ 63" "vq_QueueTTL repo < 2 ^ 63"
    using getEnvDuration_range [of "15 * Minute" lib env "''WHITELIST_TTL''"]
      getEnvDuration_range [of "5 * Minute" lib env "''HEARTBEAT_TTL''"] getEnvDuration_range [of "5 * Minute" lib env "''QUEUE_TTL''"]
    by (simp_all add: assms(2) NewVirtualQueueRepository_def repo(4) read_config_def)
  obtain r' res where run: "vqEnqueue repo (\<lambda>_. Done) wall now e u r = (r', res)" by fastforce
  have "res = Inr True \<and> beating (now + 999) e r' u"
    using vqEnqueue_joins [OF assms(3) repo(1) _ run refl] Seconds_pos [OF repo(1)] assms(4) by simp
  then have joins: "\<exists>r' d. vqEnqueue repo (\<lambda>_. Done) wall now e u r = (r', Inr True)
      \<and> r_zsets r' (getEventVirtualQueueKey e) = [(d, u)] \<and> Unix wall < d \<and> beating (now + 999) e r' u"
    using first_enqueue_entry [OF assms(3,4) repo(1), of wall] Unix_after [OF repo(5), of wall] run by auto
  have "\<exists>e'. snd (vqEnqueue (repo\<lparr>vq_HeartbeatTTL := Second - 1\<rparr>) (\<lambda>_. Done) wall now e u r) = Inl e'"
    by (simp add: vqEnqueue_def enqueueLuaScript_def Seconds_def)
  then show ?thesis using ok repo(3,5) Seconds_pos [OF repo(1)] Seconds_pos [OF repo(2)] ranges joins by auto
qed

definition demo_env :: environment where
  "demo_env = [''JWT_SECRET'' \<mapsto> ''k'', ''POSTGRESQL_URL'' \<mapsto> ''p'', ''REDIS_URL'' \<mapsto> ''r'', ''HEARTBEAT_TTL'' \<mapsto> ''90s'', ''QUEUE_TTL'' \<mapsto> ''x'']"

definition demo_lib :: golib where
  "demo_lib = \<lparr>f64_fraction = (\<lambda>f unit scale. f * unit div scale), Duration_String = (\<lambda>d. dec (nat d) @ ''ns'')\<rparr>"

lemma dec_90: "dec 90 = ''90''"
  by code_simp

lemma demo_Load: "Load demo_lib None demo_env = Inr (read_config demo_lib demo_env) \<and> cfg_HeartbeatTTL (read_config demo_lib demo_env) = 90 * Second
    \<and> cfg_QueueTTL (read_config demo_lib demo_env) = 5 * Minute"
proof -
  have "ParseDuration f (dec 90 @ ''s'') = Some (int 90 * Second)" for f by (rule ParseDuration_seconds) simp
  then have p: "ParseDuration f ''90s'' = Some (90 * Second)" for f by (simp add: dec_90)
  have q: "ParseDuration f ''x'' = None" for f
    by (simp add: ParseDuration_def duration_groups.simps duration_group_def is_digit_def decimal_def Let_def)
  show ?thesis unfolding Load_Inr
    by (simp add: read_config_def getEnv_def getEnvDuration_def getEnvUInt64_def demo_env_def p q)
qed

theorem Load_configures_working_queue_witness:
  "\<exists>r'. vqEnqueue (NewVirtualQueueRepository (read_config demo_lib demo_env)) (\<lambda>_. Done) 0 0 ''e1'' ''u1'' empty_redis = (r', Inr True)
    \<and> beating 999 ''e1'' r' ''u1''"
proof -
  have l: "Load demo_lib None demo_env = Inr (read_config demo_lib demo_env)" using demo_Load by blast
  have "\<not> beating 0 ''e1'' empty_redis ''u1''" "r_zsets empty_redis (getEventVirtualQueueKey ''e1'') = []"
    by (simp_all add: empty_redis_def rexists_def rget_def)
  from Load_configures_working_queue [OF l refl this, where wall = 0] show ?thesis by auto
qed

end
