(* ===== verification/Routing.thy ===== *)
theory Routing
  imports Admin Config
begin

text \<open>
  \<open>handler/main.go\<close> and the \<open>NewHandler\<close> functions of the handler packages: the table of routes with
  their methods, patterns, timeouts and middleware, and what the \<open>http.Server\<close> of \<open>main.go\<close> allows a
  response. The chi router is an argument: it picks an entry of the table for a method and a path, and
  \<open>chi_laws\<close> says what it promises of its pick.
\<close>

section \<open>Patterns and the router\<close>

datatype verb = GET | POST | PATCH | DELETE

datatype seg = Lit string | Par string

text \<open>One constructor per handler that is registered.\<close>

datatype endpoint =
    E_Health | E_CreateUser | E_Login | E_Me | E_GetUser
  | E_CreateEvent | E_CreateEventBulk | E_GetEvent | E_ListEvents | E_UpdateEvent | E_DeleteEvent
  | E_Reserve | E_Confirm | E_Release | E_GetReservation | E_UpdateReservation | E_DeleteReservation
  | E_Ping | E_Enqueue | E_Dequeue | E_Total
  | E_MintUsers | E_MintEvents | E_Reset | E_Simulate | E_SimulateSnapshot | E_SimulateCancel | E_SimulateStream

text \<open>\<open>en_timeout\<close> is the duration given to the timeout middleware, \<open>en_auth\<close> whether \<open>RequireAuth\<close> is in front.\<close>

record entry =
  en_method :: verb
  en_pattern :: "seg list"
  en_timeout :: "duration option"
  en_auth :: bool
  en_endpoint :: endpoint

text \<open>A path is the list of its segments; a parameter takes one segment that is not empty.\<close>

fun fits :: "seg list \<Rightarrow> string list \<Rightarrow> bool" where
  "fits [] [] = True"
| "fits (Lit s # ps) (x # xs) = (x = s \<and> fits ps xs)"
| "fits (Par _ # ps) (x # xs) = (x \<noteq> [] \<and> fits ps xs)"
| "fits _ _ = False"

text \<open>A literal segment goes before a parameter.\<close>

fun prefers :: "seg list \<Rightarrow> seg list \<Rightarrow> bool" where
  "prefers (Lit _ # ps) (Par _ # qs) = True"
| "prefers (Par _ # ps) (Lit _ # qs) = False"
| "prefers (_ # ps) (_ # qs) = prefers ps qs"
| "prefers _ _ = True"

fun URLParam :: "seg list \<Rightarrow> string list \<Rightarrow> string \<Rightarrow> string" where
  "URLParam (Par n # ps) (x # xs) key = (if n = key then x else URLParam ps xs key)"
| "URLParam (Lit _ # ps) (_ # xs) key = URLParam ps xs key"
| "URLParam _ _ key = []"

type_synonym mux = "entry list \<Rightarrow> verb \<Rightarrow> string list \<Rightarrow> entry option"

abbreviation serves :: "verb \<Rightarrow> string list \<Rightarrow> entry \<Rightarrow> bool" where
  "serves m p e \<equiv> en_method e = m \<and> fits (en_pattern e) p"

text \<open>
  The router finds an entry whenever one fits, and among those that fit one whose pattern is the most
  literal from the left.
\<close>

definition chi_laws :: "mux \<Rightarrow> bool" where
  "chi_laws chi \<longleftrightarrow>
     (\<forall>tbl m p e. chi tbl m p = Some e \<longrightarrow>
        e \<in> set tbl \<and> serves m p e \<and> (\<forall>e' \<in> set tbl. serves m p e' \<longrightarrow> prefers (en_pattern e) (en_pattern e')))
   \<and> (\<forall>tbl m p. chi tbl m p = None \<longrightarrow> (\<forall>e \<in> set tbl. \<not> serves m p e))"

section \<open>The tables\<close>

abbreviation plain :: "verb \<Rightarrow> seg list \<Rightarrow> duration \<Rightarrow> endpoint \<Rightarrow> entry" where
  "plain m p t e \<equiv> \<lparr>en_method = m, en_pattern = p, en_timeout = Some t, en_auth = False, en_endpoint = e\<rparr>"

abbreviation guarded :: "verb \<Rightarrow> seg list \<Rightarrow> duration \<Rightarrow> endpoint \<Rightarrow> entry" where
  "guarded m p t e \<equiv> \<lparr>en_method = m, en_pattern = p, en_timeout = Some t, en_auth = True, en_endpoint = e\<rparr>"

definition health_routes :: "entry list" where
  "health_routes = [plain GET [Lit ''health''] (10 * Second) E_Health]"

definition user_routes :: "entry list" where
  "user_routes =
     [plain POST [Lit ''users''] (5 * Second) E_CreateUser,
      plain POST [Lit ''users'', Lit ''login''] (5 * Second) E_Login,
      guarded GET [Lit ''users'', Lit ''me''] (5 * Second) E_Me,
      guarded GET [Lit ''users'', Par ''id''] (5 * Second) E_GetUser]"

definition event_routes :: "entry list" where
  "event_routes =
     [plain POST [Lit ''events''] (5 * Second) E_CreateEvent,
      plain POST [Lit ''events'', Lit ''bulk''] (30 * Second) E_CreateEventBulk,
      plain GET [Lit ''events'', Par ''id''] (5 * Second) E_GetEvent,
      plain GET [Lit ''events''] (5 * Second) E_ListEvents,
      plain PATCH [Lit ''events'', Par ''id''] (5 * Second) E_UpdateEvent,
      plain DELETE [Lit ''events'', Par ''id''] (5 * Second) E_DeleteEvent]"

definition reservation_routes :: "entry list" where
  "reservation_routes =
     [guarded POST [Lit ''events'', Par ''id'', Lit ''reserve''] (5 * Second) E_Reserve,
      guarded POST [Lit ''reservations'', Par ''id'', Lit ''confirm''] (5 * Second) E_Confirm,
      guarded POST [Lit ''reservations'', Par ''id'', Lit ''release''] (5 * Second) E_Release,
      guarded GET [Lit ''reservations'', Par ''id''] (5 * Second) E_GetReservation,
      plain PATCH [Lit ''reservations'', Par ''id''] (5 * Second) E_UpdateReservation,
      plain DELETE [Lit ''reservations'', Par ''id''] (5 * Second) E_DeleteReservation]"

definition queue_routes :: "entry list" where
  "queue_routes =
     [guarded POST [Lit ''virtual-queues'', Lit ''ping''] (5 * Second) E_Ping,
      guarded POST [Lit ''virtual-queues'', Lit ''enqueue''] (5 * Second) E_Enqueue,
      guarded POST [Lit ''virtual-queues'', Lit ''dequeue''] (5 * Second) E_Dequeue,
      guarded GET [Lit ''virtual-queues'', Par ''eventId'', Lit ''total''] (5 * Second) E_Total]"

definition admin_routes :: "entry list" where
  "admin_routes =
     [plain POST [Lit ''admin'', Lit ''mint'', Lit ''users''] (60 * Second) E_MintUsers,
      plain POST [Lit ''admin'', Lit ''mint'', Lit ''events''] (30 * Second) E_MintEvents,
      plain POST [Lit ''admin'', Lit ''reset''] (30 * Second) E_Reset,
      plain POST [Lit ''admin'', Lit ''simulate''] (120 * Second) E_Simulate,
      plain GET [Lit ''admin'', Lit ''simulate'', Par ''runId''] (10 * Second) E_SimulateSnapshot,
      plain POST [Lit ''admin'', Lit ''simulate'', Par ''runId'', Lit ''cancel''] (10 * Second) E_SimulateCancel,
      \<lparr>en_method = GET, en_pattern = [Lit ''admin'', Lit ''simulate'', Par ''runId'', Lit ''stream''],
       en_timeout = None, en_auth = False, en_endpoint = E_SimulateStream\<rparr>]"

definition NewHandler :: "Config \<Rightarrow> entry list" where
  "NewHandler cfg =
     health_routes @ user_routes @ event_routes @ reservation_routes @ queue_routes
     @ (if cfg_DemoMode cfg then admin_routes else [])"

lemmas route_tables = health_routes_def user_routes_def event_routes_def reservation_routes_def queue_routes_def admin_routes_def

section \<open>From a request to its handler\<close>

text \<open>The handler of a route of the API with its parameter; the admin handlers are not routes of \<open>serve\<close>.\<close>

fun api_route :: "endpoint \<Rightarrow> (string \<Rightarrow> string) \<Rightarrow> route option" where
  "api_route E_Health _ = Some R_Health"
| "api_route E_CreateUser _ = Some R_CreateUser"
| "api_route E_Login _ = Some R_Login"
| "api_route E_Me _ = Some R_Me"
| "api_route E_GetUser param = Some (R_GetUser (param ''id''))"
| "api_route E_CreateEvent _ = Some R_CreateEvent"
| "api_route E_CreateEventBulk _ = Some R_CreateEventBulk"
| "api_route E_GetEvent param = Some (R_GetEvent (param ''id''))"
| "api_route E_ListEvents _ = Some R_ListEvents"
| "api_route E_UpdateEvent param = Some (R_UpdateEvent (param ''id''))"
| "api_route E_DeleteEvent param = Some (R_DeleteEvent (param ''id''))"
| "api_route E_Reserve param = Some (R_Reserve (param ''id''))"
| "api_route E_Confirm param = Some (R_Confirm (param ''id''))"
| "api_route E_Release param = Some (R_Release (param ''id''))"
| "api_route E_GetReservation param = Some (R_GetReservation (param ''id''))"
| "api_route E_UpdateReservation param = Some (R_UpdateReservation (param ''id''))"
| "api_route E_DeleteReservation param = Some (R_DeleteReservation (param ''id''))"
| "api_route E_Ping _ = Some R_Ping"
| "api_route E_Enqueue _ = Some R_Enqueue"
| "api_route E_Dequeue _ = Some R_Dequeue"
| "api_route E_Total param = Some (R_Total (param ''eventId''))"
| "api_route _ _ = None"

text \<open>The entry that serves a request, and the route it stands for.\<close>

definition dispatch :: "mux \<Rightarrow> Config \<Rightarrow> verb \<Rightarrow> string list \<Rightarrow> (entry \<times> route option) option" where
  "dispatch chi cfg m path =
     map_option (\<lambda>e. (e, api_route (en_endpoint e) (URLParam (en_pattern e) path))) (chi (NewHandler cfg) m path)"

text \<open>The request line by which the documentation of the API addresses a route.\<close>

fun request_line :: "route \<Rightarrow> verb \<times> string list" where
  "request_line R_Health = (GET, [''health''])"
| "request_line R_CreateUser = (POST, [''users''])"
| "request_line R_Login = (POST, [''users'', ''login''])"
| "request_line R_Me = (GET, [''users'', ''me''])"
| "request_line (R_GetUser uid) = (GET, [''users'', uid])"
| "request_line R_CreateEvent = (POST, [''events''])"
| "request_line R_CreateEventBulk = (POST, [''events'', ''bulk''])"
| "request_line (R_GetEvent eid) = (GET, [''events'', eid])"
| "request_line R_ListEvents = (GET, [''events''])"
| "request_line (R_UpdateEvent eid) = (PATCH, [''events'', eid])"
| "request_line (R_DeleteEvent eid) = (DELETE, [''events'', eid])"
| "request_line (R_Reserve eid) = (POST, [''events'', eid, ''reserve''])"
| "request_line (R_Confirm rid) = (POST, [''reservations'', rid, ''confirm''])"
| "request_line (R_Release rid) = (POST, [''reservations'', rid, ''release''])"
| "request_line (R_GetReservation rid) = (GET, [''reservations'', rid])"
| "request_line (R_UpdateReservation rid) = (PATCH, [''reservations'', rid])"
| "request_line (R_DeleteReservation rid) = (DELETE, [''reservations'', rid])"
| "request_line R_Ping = (POST, [''virtual-queues'', ''ping''])"
| "request_line R_Enqueue = (POST, [''virtual-queues'', ''enqueue''])"
| "request_line R_Dequeue = (POST, [''virtual-queues'', ''dequeue''])"
| "request_line (R_Total eid) = (GET, [''virtual-queues'', eid, ''total''])"

text \<open>
  The parameter of a route, if it has one. \<open>/users/me\<close> is the one path of a literal route that a
  parameter could also spell.
\<close>

fun addressable :: "route \<Rightarrow> bool" where
  "addressable (R_GetUser uid) = (uid \<noteq> [] \<and> uid \<noteq> ''me'')"
| "addressable (R_GetEvent eid) = (eid \<noteq> [])"
| "addressable (R_UpdateEvent eid) = (eid \<noteq> [])"
| "addressable (R_DeleteEvent eid) = (eid \<noteq> [])"
| "addressable (R_Reserve eid) = (eid \<noteq> [])"
| "addressable (R_Confirm rid) = (rid \<noteq> [])"
| "addressable (R_Release rid) = (rid \<noteq> [])"
| "addressable (R_GetReservation rid) = (rid \<noteq> [])"
| "addressable (R_UpdateReservation rid) = (rid \<noteq> [])"
| "addressable (R_DeleteReservation rid) = (rid \<noteq> [])"
| "addressable (R_Total eid) = (eid \<noteq> [])"
| "addressable _ = True"

section \<open>The server\<close>

record http_server =
  hs_Addr :: string
  hs_ReadTimeout :: duration
  hs_WriteTimeout :: duration
  hs_IdleTimeout :: duration

definition newServer :: "Config \<Rightarrow> http_server" where
  "newServer cfg = \<lparr>hs_Addr = '':'' @ cfg_Port cfg, hs_ReadTimeout = 5 * Second, hs_WriteTimeout = 30 * Second, hs_IdleTimeout = 60 * Second\<rparr>"

section \<open>What the router does with the tables\<close>

definition admin_endpoints :: "endpoint list" where
  "admin_endpoints = map en_endpoint admin_routes"

text \<open>An entry that fits and that no other fitting entry is preferred to is the one the router picks.\<close>

lemma chi_picks:
  assumes "chi_laws chi" and "e \<in> set tbl" "serves m p e"
    and only: "\<forall>e' \<in> set tbl. serves m p e' \<and> prefers (en_pattern e') (en_pattern e) \<longrightarrow> e' = e"
  shows "chi tbl m p = Some e"
proof (cases "chi tbl m p")
  case None
  then show ?thesis using assms(1-3) unfolding chi_laws_def by blast
next
  case (Some e')
  then have "e' \<in> set tbl" "serves m p e'" "prefers (en_pattern e') (en_pattern e)"
    using assms(1-3) unfolding chi_laws_def by blast+
  then show ?thesis using only Some by blast
qed

lemma chi_picks_only:
  assumes "chi_laws chi" and "filter (serves m p) tbl = [e]"
  shows "chi tbl m p = Some e"
proof -
  have "set (filter (serves m p) tbl) = {e}" by (simp only: assms(2) list.set)
  then show ?thesis by (intro chi_picks [OF assms(1)]) auto
qed

definition open_routes :: "entry list" where
  "open_routes = health_routes @ user_routes @ event_routes @ reservation_routes @ queue_routes"

lemma admin_paths: "serves m (x # p) e \<Longrightarrow> e \<in> set admin_routes \<Longrightarrow> x = ''admin''"
  by (auto simp: admin_routes_def)

lemma filter_NewHandler:
  assumes "x \<noteq> ''admin''"
  shows "filter (serves m (x # p)) (NewHandler cfg) = filter (serves m (x # p)) (open_routes)"
proof -
  have "filter (serves m (x # p)) admin_routes = []" using admin_paths assms by (auto simp: filter_empty_conv)
  then show ?thesis by (simp add: NewHandler_def open_routes_def)
qed

abbreviation serves_route :: "'l server \<Rightarrow> circumstances \<Rightarrow> Config \<Rightarrow> route \<Rightarrow> entry \<Rightarrow> bool" where
  "serves_route sv k cfg rt e \<equiv> api_route (en_endpoint e) (URLParam (en_pattern e) (snd (request_line rt))) = Some rt
     \<and> (en_auth e \<longleftrightarrow> open_handler sv k rt = None) \<and> (\<exists>d. en_timeout e = Some d \<and> d \<le> hs_WriteTimeout (newServer cfg))"

lemma route_entry:
  assumes "addressable rt" and "rt \<noteq> R_Me"
  shows "\<exists>e. filter (serves (fst (request_line rt)) (snd (request_line rt))) (NewHandler cfg) = [e] \<and> serves_route sv k cfg rt e"
  using assms
  by (cases rt) (simp_all add: filter_NewHandler open_routes_def health_routes_def user_routes_def event_routes_def
    reservation_routes_def queue_routes_def newServer_def)

text \<open>\<open>GET /users/me\<close> fits two entries; the literal one is preferred.\<close>

lemma me_entry:
  assumes "chi_laws chi"
  shows "chi (NewHandler cfg) GET [''users'', ''me''] = Some (guarded GET [Lit ''users'', Lit ''me''] (5 * Second) E_Me)"
proof -
  let ?p = "[''users'', ''me'']"
  have "filter (serves GET ?p) (NewHandler cfg) =
      [guarded GET [Lit ''users'', Lit ''me''] (5 * Second) E_Me, guarded GET [Lit ''users'', Par ''id''] (5 * Second) E_GetUser]"
    by (simp add: filter_NewHandler open_routes_def health_routes_def user_routes_def event_routes_def
        reservation_routes_def queue_routes_def)
  then have "set (filter (serves GET ?p) (NewHandler cfg)) =
      {guarded GET [Lit ''users'', Lit ''me''] (5 * Second) E_Me, guarded GET [Lit ''users'', Par ''id''] (5 * Second) E_GetUser}"
    by (simp only: list.set)
  then have fitting: "e \<in> set (NewHandler cfg) \<and> serves GET ?p e \<longleftrightarrow>
      e = guarded GET [Lit ''users'', Lit ''me''] (5 * Second) E_Me \<or> e = guarded GET [Lit ''users'', Par ''id''] (5 * Second) E_GetUser" for e
    by (simp only: set_eq_iff set_filter mem_Collect_eq insert_iff empty_iff simp_thms)
  have only: "e' = guarded GET [Lit ''users'', Lit ''me''] (5 * Second) E_Me"
    if "e' \<in> set (NewHandler cfg)" "serves GET ?p e'" "prefers (en_pattern e') [Lit ''users'', Lit ''me'']" for e'
  proof (rule ccontr)
    assume "e' \<noteq> guarded GET [Lit ''users'', Lit ''me''] (5 * Second) E_Me"
    then have "e' = guarded GET [Lit ''users'', Par ''id''] (5 * Second) E_GetUser" using fitting that(1,2) by blast
    then show False using that(3) by simp
  qed
  have here: "guarded GET [Lit ''users'', Lit ''me''] (5 * Second) E_Me \<in> set (NewHandler cfg)"
    using fitting by blast
  show ?thesis
    by (rule chi_picks [OF assms here]) (simp, intro ballI impI, elim conjE, rule only, assumption, simp, simp)
qed

lemma route_served:
  assumes "chi_laws chi" and "addressable rt" and "request_line rt = (m, path)"
  shows "\<exists>e. dispatch chi cfg m path = Some (e, Some rt) \<and> (en_auth e \<longleftrightarrow> open_handler sv k rt = None)
     \<and> (\<exists>d. en_timeout e = Some d \<and> d \<le> hs_WriteTimeout (newServer cfg))"
proof (cases "rt = R_Me")
  case True
  then show ?thesis using assms(3) by (auto simp: dispatch_def me_entry [OF assms(1)] newServer_def)
next
  case False
  obtain e where e: "filter (serves (fst (request_line rt)) (snd (request_line rt))) (NewHandler cfg) = [e] \<and> serves_route sv k cfg rt e"
    using route_entry [OF assms(2) False] by (rule exE)
  have "chi (NewHandler cfg) m path = Some e"
    using conjunct1 [OF e] by (intro chi_picks_only [OF assms(1)]) (simp only: assms(3) fst_conv snd_conv)
  then show ?thesis using conjunct2 [OF e] assms(3) by (simp add: dispatch_def)
qed

lemma open_paths: "e \<in> set open_routes \<Longrightarrow> \<not> serves m (''admin'' # rest) e"
  by (auto simp: open_routes_def health_routes_def user_routes_def event_routes_def reservation_routes_def queue_routes_def)

lemma admin_unrouted:
  assumes "chi_laws chi" and "\<not> cfg_DemoMode cfg"
  shows "dispatch chi cfg m (''admin'' # rest) = None"
proof (cases "chi (NewHandler cfg) m (''admin'' # rest)")
  case (Some e)
  then have "e \<in> set (NewHandler cfg)" "serves m (''admin'' # rest) e" using assms(1) unfolding chi_laws_def by blast+
  moreover have "NewHandler cfg = open_routes" using assms(2) by (simp add: NewHandler_def open_routes_def)
  ultimately show ?thesis using open_paths by metis
qed (simp add: dispatch_def)

text \<open>
  The handlers of \<open>POST /admin/mint/users\<close> and \<open>POST /admin/simulate\<close> are given more time than the server
  gives a response: after 30 seconds the connection's write deadline has passed and the answer is lost.
\<close>

lemma admin_timeouts_exceed_write_timeout:
  "map en_endpoint (filter (\<lambda>e. case en_timeout e of Some d \<Rightarrow> hs_WriteTimeout (newServer cfg) < d | None \<Rightarrow> False) (open_routes @ admin_routes))
     = [E_MintUsers, E_Simulate]"
  by (simp add: open_routes_def route_tables newServer_def)

section \<open>A router\<close>

fun best :: "entry list \<Rightarrow> entry option" where
  "best [] = None"
| "best (e # es) = (case best es of None \<Rightarrow> Some e | Some e' \<Rightarrow> if prefers (en_pattern e) (en_pattern e') then Some e else Some e')"

definition demo_chi :: mux where
  "demo_chi tbl m p = best (filter (serves m p) tbl)"

lemma prefers_refl [simp]: "prefers p p"
  by (induction p) (auto elim: prefers.elims, metis prefers.simps(3,4) seg.exhaust)

lemma prefers_total: "fits p x \<Longrightarrow> fits q x \<Longrightarrow> \<not> prefers p q \<Longrightarrow> prefers q p"
  by (induction p q arbitrary: x rule: prefers.induct) (auto elim: fits.elims)

lemma prefers_trans: "fits p x \<Longrightarrow> fits q x \<Longrightarrow> fits r x \<Longrightarrow> prefers p q \<Longrightarrow> prefers q r \<Longrightarrow> prefers p r"
proof (induction x arbitrary: p q r)
  case Nil
  then show ?case by (cases p; cases q; cases r) (auto elim: fits.elims)
next
  case (Cons y ys)
  obtain a p' b q' c r' where "p = a # p'" "q = b # q'" "r = c # r'" using Cons.prems(1-3) by (metis fits.elims(2) list.distinct(1))
  then show ?case using Cons.prems Cons.IH [of p' q' r'] by (cases a; cases b; cases c) simp_all
qed

lemma best_None: "best es = None \<longleftrightarrow> es = []"
  by (cases es) (auto split: option.splits)

lemma best_Some: "best es = Some e \<Longrightarrow> (\<forall>e' \<in> set es. fits (en_pattern e') x) \<Longrightarrow>
    e \<in> set es \<and> (\<forall>e' \<in> set es. prefers (en_pattern e) (en_pattern e'))"
proof (induction es arbitrary: e)
  case (Cons a es)
  show ?case
  proof (cases "best es")
    case None
    then show ?thesis using Cons.prems by (simp add: best_None)
  next
    case (Some b)
    then have b: "b \<in> set es" "\<forall>e' \<in> set es. prefers (en_pattern b) (en_pattern e')" using Cons by simp_all
    show ?thesis
    proof (cases "prefers (en_pattern a) (en_pattern b)")
      case True
      then have "prefers (en_pattern a) (en_pattern e')" if "e' \<in> set es" for e'
        using b that Cons.prems(2) prefers_trans [of "en_pattern a" x "en_pattern b" "en_pattern e'"] by simp
      then show ?thesis using True Some Cons.prems(1) by simp
    next
      case False
      then have "prefers (en_pattern b) (en_pattern a)" using prefers_total Cons.prems(2) b(1) by (metis list.set_intros)
      then show ?thesis using False Some Cons.prems(1) b by simp
    qed
  qed
qed simp

lemma demo_chi_laws: "chi_laws demo_chi"
proof -
  have some: "e \<in> set tbl \<and> serves m p e \<and> (\<forall>e' \<in> set tbl. serves m p e' \<longrightarrow> prefers (en_pattern e) (en_pattern e'))"
    if "best (filter (serves m p) tbl) = Some e" for e m p tbl
    using best_Some [OF that, of p] by simp
  have none: "\<forall>e \<in> set tbl. \<not> serves m p e" if "best (filter (serves m p) tbl) = None" for m p tbl
    using that by (simp add: best_None filter_empty_conv)
  show ?thesis unfolding chi_laws_def demo_chi_def
    by (rule conjI; intro allI impI) (erule some, erule none)
qed

section \<open>Every request finds its handler\<close>

text \<open>
  C20: The request line of every route of the API, for any parameter that is not empty (and is not
  \<open>me\<close> after \<open>/users\<close>), is dispatched to an entry that stands for that route with that parameter, that
  has \<open>RequireAuth\<close> in front exactly when the route is not one of the open ones, and whose timeout is
  within what the server allows a response; without \<open>DEMO_MODE\<close> no path under \<open>/admin\<close> is served.
\<close>

theorem requests_reach_their_handlers:
  assumes "chi_laws chi" and "addressable rt" and "request_line rt = (m, path)"
  shows "(\<exists>e. dispatch chi cfg m path = Some (e, Some rt) \<and> (en_auth e \<longleftrightarrow> open_handler sv k rt = None)
      \<and> (\<exists>d. en_timeout e = Some d \<and> d \<le> hs_WriteTimeout (newServer cfg)))
    \<and> (cfg_DemoMode cfg \<or> dispatch chi cfg m' (''admin'' # rest) = None)"
  using admin_unrouted [OF assms(1)] by (intro conjI route_served [OF assms]) metis

theorem requests_reach_their_handlers_witness:
  "\<exists>e. dispatch demo_chi (read_config demo_lib demo_env) POST [''events'', ''e1'', ''reserve''] = Some (e, Some (R_Reserve ''e1'')) \<and> en_auth e"
proof -
  have "addressable (R_Reserve ''e1'')" "request_line (R_Reserve ''e1'') = (POST, [''events'', ''e1'', ''reserve''])" by simp_all
  from requests_reach_their_handlers [OF demo_chi_laws this, of "read_config demo_lib demo_env" demo_server demo_calls GET "[]"]
  obtain e where "dispatch demo_chi (read_config demo_lib demo_env) POST [''events'', ''e1'', ''reserve''] = Some (e, Some (R_Reserve ''e1''))"
    and "en_auth e \<longleftrightarrow> open_handler demo_server demo_calls (R_Reserve ''e1'') = None" by (elim exE conjE)
  then show ?thesis by simp
qed

end
