(* ===== verification/AdminProperties.thy ===== *)
theory AdminProperties
  imports Admin
begin

text \<open>
  What the demo routes promise: a reset empties exactly its scope and never under a running
  simulation, a simulation starts on a sound database with a cleared event and with users whose
  tokens the server accepts, and the one way in which starting a simulation can leave an event
  oversold.
\<close>

section \<open>Tables\<close>

lemma store_inv_truncate:
  assumes "store_inv (t, db)"
  shows "store_inv (t, truncate_scope scope db)"
  using assms by (simp add: store_inv_def truncate_scope_def pg_wf_def reservations_ok_def users_ok_def events_ok_def
      within_capacity_def within_quota_def list_all_iff)

lemma insert_users_inv:
  assumes "insert_users now ids nus db = Inr (db', created)" and "store_inv (t, db)"
  shows "store_inv (t, db')"
  using assms
proof (induction nus arbitrary: ids db created)
  case (Cons nu nus)
  show ?case
  proof (cases "insert_user now (hd ids) nu db")
    case (Inl e)
    then have "insert_users now (tl ids) nus db = Inr (db', created)"
      using Cons.prems(1) by (cases e) (auto split: if_splits)
    then show ?thesis using Cons.IH Cons.prems(2) by blast
  next
    case (Inr p)
    obtain db1 u where ins: "insert_user now (hd ids) nu db = Inr (db1, u)" using Inr by (cases p) auto
    then obtain rest where "insert_users now (tl ids) nus db1 = Inr (db', rest)"
      using Cons.prems(1) by (cases "insert_users now (tl ids) nus db1") auto
    then show ?thesis using Cons.IH new_user_inv [OF Cons.prems(2) ins] by blast
  qed
qed simp

lemma CreateUsers_store:
  assumes "store_inv (t, db)" and "pg_CreateUsers flt now ids us db = (db', res)"
  shows "store_inv (t, db')" "events_tbl db' = events_tbl db" "reservations_tbl db' = reservations_tbl db"
    "res = Inr created \<Longrightarrow> \<exists>new. users_tbl db' = users_tbl db @ new \<and> created = map ur_id new"
proof -
  have wf: "pg_wf db" using assms(1) by (simp add: store_inv_def)
  have out: "fst (pg_CreateUsers flt now ids us db) = db'" "snd (pg_CreateUsers flt now ids us db) = res" using assms(2) by simp_all
  consider "db' = db" "us = [] \<or> isl res"
    | new where "insert_users now ids us db = Inr (db', new)" "\<And>is. res = Inr is \<Longrightarrow> is = new"
    using out by (rule_tac pg_CreateUsers_cases [of flt now ids us db]) auto
  then have "store_inv (t, db') \<and> events_tbl db' = events_tbl db \<and> reservations_tbl db' = reservations_tbl db
    \<and> (res = Inr created \<longrightarrow> (\<exists>new. users_tbl db' = users_tbl db @ new \<and> created = map ur_id new))"
  proof cases
    case 1
    moreover have "created = []" if "us = []" "res = Inr created" using assms(2) that by (simp add: pg_CreateUsers_def)
    ultimately show ?thesis using assms(1) by auto
  next
    case (2 new)
    then show ?thesis using insert_users_inv [OF 2(1) assms(1)] insert_users_InrD [OF 2(1) wf] by blast
  qed
  then show "store_inv (t, db')" "events_tbl db' = events_tbl db" "reservations_tbl db' = reservations_tbl db"
    "res = Inr created \<Longrightarrow> \<exists>new. users_tbl db' = users_tbl db @ new \<and> created = map ur_id new" by blast+
qed

lemma set_capacity_rows [simp]:
  "er_id (set_capacity now cap e row) = er_id row"
  "ev_MaxReservePerUser (er_item (set_capacity now cap e row)) = ev_MaxReservePerUser (er_item row)"
  "ev_Capacity (er_item (set_capacity now cap e row)) = (if er_id row = e then cap else ev_Capacity (er_item row))"
  "ev_Name (er_item (set_capacity now cap e row)) = ev_Name (er_item row)"
  by (simp_all add: set_capacity_def)

text \<open>
  A new capacity with the event's reservations deleted, the two statements of a simulation with
  \<open>reset\<close>.
\<close>

abbreviation without_event :: "string \<Rightarrow> ReservationItem list \<Rightarrow> ReservationItem list" where
  "without_event e \<equiv> filter (\<lambda>r. res_EventId r \<noteq> e)"

lemma seats_without_event:
  "active_seats t e' (without_event e rs) = (if e' = e then 0 else active_seats t e' rs)"
  "user_active_seats t e' u (without_event e rs) = (if e' = e then 0 else user_active_seats t e' u rs)"
  by (induction rs) auto

lemma reservations_ok_without:
  assumes "reservations_ok db"
  shows "reservations_ok (db\<lparr>reservations_tbl := without_event e (reservations_tbl db)\<rparr>)"
proof -
  have "filter (\<lambda>r. res_IdempotencyKey r \<noteq> None) (without_event e (reservations_tbl db))
      = without_event e (filter (\<lambda>r. res_IdempotencyKey r \<noteq> None) (reservations_tbl db))" by (simp add: conj_commute)
  moreover have "distinct (map idem_key (without_event e (filter (\<lambda>r. res_IdempotencyKey r \<noteq> None) (reservations_tbl db))))"
    using assms by (rule_tac distinct_map_filterI) (simp add: reservations_ok_def)
  ultimately have "distinct (map idem_key (filter (\<lambda>r. res_IdempotencyKey r \<noteq> None) (without_event e (reservations_tbl db))))"
    by (simp only:)
  then show ?thesis using assms by (auto simp: reservations_ok_def list_all_iff)
qed

lemma store_inv_without_event:
  assumes "store_inv (t, db)"
  shows "store_inv (t, db\<lparr>reservations_tbl := without_event e (reservations_tbl db)\<rparr>)"
  using assms reservations_ok_without [of db e]
  by (auto simp: store_inv_def pg_wf_def within_capacity_def within_quota_def list_all_iff seats_without_event)

lemma store_inv_new_capacity:
  assumes "store_inv (t, db)" and "0 < cap" "unat cap < 2 ^ 31"
  shows "store_inv (t, db\<lparr>events_tbl := map (set_capacity now cap e) (events_tbl db),
    reservations_tbl := without_event e (reservations_tbl db)\<rparr>)"
proof -
  have wf: "pg_wf db" and cap: "within_capacity t db" and quota: "within_quota t db" using assms(1) by (simp_all add: store_inv_def)
  have "reservations_ok (db\<lparr>events_tbl := map (set_capacity now cap e) (events_tbl db),
      reservations_tbl := without_event e (reservations_tbl db)\<rparr>)"
    using reservations_ok_without [of db e] wf unfolding pg_wf_def reservations_ok_def by (simp add: image_image)
  moreover have "0 < unat cap" using assms(2) by (simp add: word_less_nat_alt)
  then have "events_ok (map (set_capacity now cap e) (events_tbl db))"
    using wf assms(3) by (auto simp: pg_wf_def events_ok_def list_all_iff event_row_ok_def int4_pos_def o_def)
  ultimately show ?thesis using wf cap quota
    by (auto simp: store_inv_def pg_wf_def within_capacity_def within_quota_def list_all_iff seats_without_event)
qed

section \<open>Reset\<close>

lemma ClearBlockedEvents_frame [simp]:
  "sys_db (repo_ClearBlockedEvents L s) = sys_db s" "sys_redis (repo_ClearBlockedEvents L s) = sys_redis s"
  by (simp_all add: repo_ClearBlockedEvents_def)

lemma reset_error:
  assumes "admin_reset L flt scope s = (s', Inl err)"
  shows "s' = s \<or> s' = s\<lparr>sys_db := truncate_scope scope (sys_db s)\<rparr>"
  using assms by (cases "flt RT_Commit") (auto simp: admin_reset_def Let_def split: option.splits if_splits prod.splits)

lemma reset_done:
  assumes "admin_reset L flt scope s = (s', Inr rr)"
  shows "sys_db s' = truncate_scope scope (sys_db s)" "sys_lru s' = lru_Purge L (sys_lru s)"
    "rr_RedisFlushed rr \<Longrightarrow> sys_redis s' = empty_redis" "rr_RedisFlushed rr = (flt RT_Flush = Done)"
    "rr_Scope rr = scope" "rr_ReservationsCount rr = length (reservations_tbl (sys_db s))"
    "rr_EventsCount rr = (if scope = ScopeAll then length (events_tbl (sys_db s)) else 0)"
    "rr_UsersCount rr = (if scope = ScopeUsers \<or> scope = ScopeAll then length (users_tbl (sys_db s)) else 0)"
proof -
  have c: "flt RT_Commit = Done"
    using assms by (cases "flt RT_Commit") (auto simp: admin_reset_def Let_def split: option.splits if_splits)
  show "sys_db s' = truncate_scope scope (sys_db s)" "sys_lru s' = lru_Purge L (sys_lru s)"
    "rr_RedisFlushed rr \<Longrightarrow> sys_redis s' = empty_redis" "rr_RedisFlushed rr = (flt RT_Flush = Done)"
    "rr_Scope rr = scope" "rr_ReservationsCount rr = length (reservations_tbl (sys_db s))"
    "rr_EventsCount rr = (if scope = ScopeAll then length (events_tbl (sys_db s)) else 0)"
    "rr_UsersCount rr = (if scope = ScopeUsers \<or> scope = ScopeAll then length (users_tbl (sys_db s)) else 0)"
    using assms c by (cases "flt RT_Flush"; auto simp: admin_reset_def Let_def repo_ClearBlockedEvents_def lru_ClearBlockedEvents_def
        rflushdb_def split: option.splits if_splits)+
qed

section \<open>Simulation\<close>

lemma prepare_capacity_done:
  assumes "prepare_capacity en req s = (s', Inr ())"
  shows "sys_lru s' = sys_lru s" "reservations_tbl (sys_db s') = reservations_tbl (sys_db s)"
    "sq_Capacity req = 0 \<Longrightarrow> s' = s"
    "sq_Capacity req \<noteq> 0 \<Longrightarrow> unat (sq_Capacity req) < 2 ^ 31
       \<and> sys_db s' = (sys_db s)\<lparr>events_tbl := map (set_capacity (c_pg (se_clocks en)) (sq_Capacity req) (sq_EventId req)) (events_tbl (sys_db s))\<rparr>"
proof -
  show "sys_lru s' = sys_lru s" "reservations_tbl (sys_db s') = reservations_tbl (sys_db s)"
    "sq_Capacity req = 0 \<Longrightarrow> s' = s"
    "sq_Capacity req \<noteq> 0 \<Longrightarrow> unat (sq_Capacity req) < 2 ^ 31
       \<and> sys_db s' = (sys_db s)\<lparr>events_tbl := map (set_capacity (c_pg (se_clocks en)) (sq_Capacity req) (sq_EventId req)) (events_tbl (sys_db s))\<rparr>"
    using assms
    by (cases "se_flt en SC_Capacity"; auto simp: prepare_capacity_def update_capacity_def split: if_splits prod.splits sum.splits)+
qed

lemma prepare_reset_done:
  assumes "prepare_reset en req s = (s', Inr ())"
  shows "\<not> sq_Reset req \<Longrightarrow> s' = s"
    "sq_Reset req \<Longrightarrow> sys_db s' = (sys_db s)\<lparr>reservations_tbl := without_event (sq_EventId req) (reservations_tbl (sys_db s))\<rparr>
       \<and> sys_redis s' = empty_redis \<and> sys_lru s' = lru_Purge (se_lru en) (sys_lru s)"
proof -
  show "\<not> sq_Reset req \<Longrightarrow> s' = s" using assms by (simp add: prepare_reset_def)
  show "sq_Reset req \<Longrightarrow> sys_db s' = (sys_db s)\<lparr>reservations_tbl := without_event (sq_EventId req) (reservations_tbl (sys_db s))\<rparr>
       \<and> sys_redis s' = empty_redis \<and> sys_lru s' = lru_Purge (se_lru en) (sys_lru s)"
    using assms by (cases "se_flt en SC_Delete"; cases "se_flt en SC_Flush")
      (auto simp: prepare_reset_def delete_reservations_def repo_ClearBlockedEvents_def lru_ClearBlockedEvents_def rflushdb_def)
qed

lemma simulate_start_accepted:
  assumes "simulate_start en req transport a = (a', res)" and "ar_status res = StatusAccepted"
  obtains db' userIds tokens run where
    "pg_CreateUsers (\<lambda>x. se_flt en (SC_Mint x)) (c_pg (se_clocks en)) (se_ids en) (map (sim_user (se_uuids en)) [0..<nat (sq_Users req)])
       (sys_db (ad_sys a)) = (db', Inr userIds)"
    "transport = TransportHTTP \<Longrightarrow> mintTokens (se_sign en) (se_secret en) (\<lambda>_. None) userIds = Inr tokens"
    "reg_Start (se_run_id en) (c_wall (se_clocks en)) (simulate_config en req transport userIds tokens) (ad_reg a) = (ad_reg a', Inr run)"
    "ad_sys a' = (ad_sys a)\<lparr>sys_db := db'\<rparr>"
proof -
  let ?mint = "pg_CreateUsers (\<lambda>x. se_flt en (SC_Mint x)) (c_pg (se_clocks en)) (se_ids en)
    (map (sim_user (se_uuids en)) [0..<nat (sq_Users req)]) (sys_db (ad_sys a))"
  let ?tokens = "\<lambda>ids. if transport = TransportHTTP then mintTokens (se_sign en) (se_secret en) (\<lambda>_. None) ids else Inr (\<lambda>_. None)"
  obtain db' userIds where mint: "?mint = (db', Inr userIds)"
    using assms by (cases ?mint, cases "snd ?mint") (auto simp: simulate_start_def mintSimUsers_def admin_error_def)
  obtain tokens where tokens: "?tokens userIds = Inr tokens"
    using assms mint by (cases "?tokens userIds") (auto simp: simulate_start_def mintSimUsers_def admin_error_def)
  obtain reg' out where start: "reg_Start (se_run_id en) (c_wall (se_clocks en)) (simulate_config en req transport userIds tokens) (ad_reg a) = (reg', out)"
    by fastforce
  then obtain run where "out = Inr run" "ad_reg a' = reg'" "ad_sys a' = (ad_sys a)\<lparr>sys_db := db'\<rparr>"
    using assms mint tokens by (cases out) (auto simp: simulate_start_def mintSimUsers_def admin_error_def split: if_splits)
  then show thesis using mint tokens start by (intro that [of db' userIds tokens run]) (simp_all split: if_splits)
qed

lemma simulateHandler_accepted:
  assumes "DecodeRequestBody SimulateRequest_fields zero_SimulateRequest (rq_body rq) = Inr req"
    and "simulateHandler en rq a = (a', res)" and "ar_status res = StatusAccepted"
  obtains s1 s2 transport where
    "prepare_capacity en req (ad_sys a) = (s1, Inr ())" "prepare_reset en req s1 = (s2, Inr ())"
    "simulate_start en req transport (a\<lparr>ad_sys := if 0 < sq_Capacity req
       then fst (repo_UnblockEvent (se_lru en) (se_flt en SC_Unblock) (se_clocks en) (sq_EventId req) s2) else s2\<rparr>) = (a', res)"
proof -
  define transport where "transport = (if sq_Transport req = [] then TransportInProcess else sq_Transport req)"
  obtain s1 r1 where cap: "prepare_capacity en req (ad_sys a) = (s1, r1)" by fastforce
  obtain s2 r2 where rst: "prepare_reset en req s1 = (s2, r2)" by fastforce
  have "r1 = Inr () \<and> r2 = Inr () \<and> simulate_start en req transport (a\<lparr>ad_sys := if 0 < sq_Capacity req
       then fst (repo_UnblockEvent (se_lru en) (se_flt en SC_Unblock) (se_clocks en) (sq_EventId req) s2) else s2\<rparr>) = (a', res)"
    using assms cap rst
    by (auto simp: simulateHandler_def Let_def admin_error_def transport_def [symmetric] split: if_splits sum.splits)
  then show thesis using cap rst by (intro that) auto
qed

lemma prepared_store:
  assumes "store_inv (t, sys_db s)" and "prepare_capacity en req s = (s1, Inr ())" and "prepare_reset en req s1 = (s2, Inr ())"
    and "sq_Reset req \<or> sq_Capacity req = 0"
  shows "store_inv (t, sys_db s2)"
proof (cases "sq_Capacity req = 0")
  case True
  then show ?thesis using assms prepare_capacity_done(3) [OF assms(2)] prepare_reset_done [OF assms(3)] store_inv_without_event [of t "sys_db s"]
    by (cases "sq_Reset req") auto
next
  case False
  then have "0 < sq_Capacity req" by (simp add: word_gt_0)
  then show ?thesis using False assms(1,4) prepare_capacity_done(4) [OF assms(2)] prepare_reset_done(2) [OF assms(3)]
      store_inv_new_capacity [where now = "c_pg (se_clocks en)" and e = "sq_EventId req", OF assms(1)] by simp
qed

lemma not_blocked_after_reset:
  assumes "lru_laws ttl L" and "sys_redis s = empty_redis" and "sys_lru s = lru_Purge L l"
  shows "\<not> snd (repo_IsBlockEvent L x c e s)" "\<not> snd (repo_IsBlockEvent L x c e (fst (repo_UnblockEvent L y c' e' s)))"
proof -
  have off: "\<not> rexists now k (sys_redis s)" for now k by (simp add: assms(2) rexists_def rget_def empty_redis_def)
  then show "\<not> snd (repo_IsBlockEvent L x c e s)" using lru_lawsD(6) [OF assms(1)] by (simp add: IsBlockEvent_value assms(3))
  have "\<not> rexists now k (fst (rc_UnblockEvent y c' e' (sys_redis s)))" for now k
    unfolding rc_UnblockEvent_def using off by (intro io_call_inv [where P = "\<lambda>r. \<not> rexists now k r"]) (simp_all add: rexists_rdel)
  then show "\<not> snd (repo_IsBlockEvent L x c e (fst (repo_UnblockEvent L y c' e' s)))"
    using lru_lawsD(4,6) [OF assms(1)]
    by (simp add: IsBlockEvent_value repo_UnblockEvent_def lru_UnblockEvent_def assms(3) split_beta)
qed

section \<open>Tokens\<close>

text \<open>
  What the JWT library promises of a token whose claims are a subject alone: the fields that the
  server's claims have beside it read as empty.
\<close>

definition registered_laws :: "jwt_lib \<Rightarrow> (string \<Rightarrow> string \<Rightarrow> string result) \<Rightarrow> bool" where
  "registered_laws J sign \<longleftrightarrow>
     (\<forall>secret sub tok. sign secret sub = Inr tok \<longrightarrow> tok \<noteq> [] \<and> list_all token_char tok
        \<and> (\<forall>key. key HMAC = Inr secret \<longrightarrow>
             jwt_ParseWithClaims J tok key = Inr (\<lparr>uc_Name = [], uc_Email = [], uc_Subject = sub\<rparr>, True)))"

lemma mintTokens_lookup:
  assumes "mintTokens sign secret tokens0 ids = Inr tokens"
  shows "u \<in> set ids \<Longrightarrow> \<exists>tok. sign secret u = Inr tok \<and> tokens u = Some tok" "u \<notin> set ids \<Longrightarrow> tokens u = tokens0 u"
  using assms
proof (induction ids arbitrary: tokens0)
  case (Cons i ids)
  {
    case 1
    from 1(2) obtain tok where tok: "sign secret i = Inr tok" "mintTokens sign secret (tokens0(i \<mapsto> tok)) ids = Inr tokens"
      by (auto split: sum.splits)
    then show ?case using 1(1) Cons.IH(1) [OF _ tok(2)] Cons.IH(2) [OF _ tok(2)] by (cases "u \<in> set ids") auto
  next
    case 2
    then show ?case using Cons.IH by (auto split: sum.splits)
  }
qed auto

lemma registered_token_authenticates:
  assumes "registered_laws J sign" and "sign secret u = Inr tok" and "rq_authorization rq = bearer_prefix @ tok"
    and "repo_GetUser flt (c_redis c) u (sys_db s) (sys_redis s) = (r', Inr userItem)"
  shows "GetAuthenticatedUser J secret flt c rq s = (s\<lparr>sys_redis := r'\<rparr>, Inr (UserDto_toDto userItem))"
proof -
  have tok: "tok \<noteq> []" "TrimSpace tok = tok"
    "jwt_ParseWithClaims J tok (token_key secret) = Inr (\<lparr>uc_Name = [], uc_Email = [], uc_Subject = u\<rparr>, True)"
    using assms(1,2) TrimSpace_token [of tok] by (auto simp: registered_laws_def)
  show ?thesis using tok assms(4) by (auto simp: GetAuthenticatedUser_def assms(3) bearer_prefix_def)
qed

section \<open>Properties\<close>

text \<open>
  C37: a reset clears exactly what it names. It is refused, with nothing touched, while any
  simulation is running. Otherwise, whatever fails, the tables are as before or truncated as a whole;
  an answer 200 means truncated: no reservations are left, the users are gone exactly for the scopes
  users and all, the events exactly for all, the counts are those of the rows that went, and if the
  flush of Redis succeeded no event is flagged as sold out. The registry stays as it is, and a
  database that is not oversold stays so.
\<close>

theorem reset_clears_exactly_its_scope:
  assumes "rq_body rq = Some (JObj [(''scope'', JStr scope)])" and "scope_valid scope"
    and "resetHandler L flt rq a = (a', res)" and "lru_laws ttl L" and "store_inv (t, sys_db (ad_sys a))"
  shows "ad_reg a' = ad_reg a
    \<and> (HasAnyActiveRun (ad_reg a) \<longrightarrow> a' = a \<and> ar_status res = StatusConflict)
    \<and> (ar_status res \<noteq> StatusOK \<longrightarrow>
         sys_db (ad_sys a') = sys_db (ad_sys a) \<or> sys_db (ad_sys a') = truncate_scope scope (sys_db (ad_sys a)))
    \<and> (ar_status res = StatusOK \<longrightarrow>
         (\<exists>rr. ar_body res = Some (A_Reset rr)
           \<and> rr_ReservationsCount rr = length (reservations_tbl (sys_db (ad_sys a)))
           \<and> rr_UsersCount rr = length (users_tbl (sys_db (ad_sys a))) - length (users_tbl (sys_db (ad_sys a')))
           \<and> rr_EventsCount rr = length (events_tbl (sys_db (ad_sys a))) - length (events_tbl (sys_db (ad_sys a')))
           \<and> (rr_RedisFlushed rr \<longrightarrow> (\<forall>x c e. \<not> snd (repo_IsBlockEvent L x c e (ad_sys a')))))
         \<and> reservations_tbl (sys_db (ad_sys a')) = []
         \<and> users_tbl (sys_db (ad_sys a')) = (if scope = ScopeReservations then users_tbl (sys_db (ad_sys a)) else [])
         \<and> events_tbl (sys_db (ad_sys a')) = (if scope = ScopeAll then [] else events_tbl (sys_db (ad_sys a))))
    \<and> store_inv (t, sys_db (ad_sys a'))"
proof -
  have scope: "scope \<noteq> []" using assms(2) by (auto simp: scope_valid_def ScopeReservations_def ScopeUsers_def ScopeAll_def)
  have dec: "DecodeRequestBody ResetRequest_fields \<lparr>sb_Scope = []\<rparr> (rq_body rq) = Inr \<lparr>sb_Scope = scope\<rparr>"
    by (simp add: assms(1) ResetRequest_fields_def field_setter_def DecodeRequestBody.simps)
  show ?thesis
  proof (cases "HasAnyActiveRun (ad_reg a)")
    case True
    then show ?thesis using assms(3,5) by (auto simp: resetHandler_def dec scope assms(2) admin_error_def)
  next
    case False
    obtain s' out where run: "admin_reset L flt scope (ad_sys a) = (s', out)" by fastforce
    have handler: "resetHandler L flt rq a = (a\<lparr>ad_sys := s'\<rparr>, case out of
        Inl err \<Rightarrow> if err = Canceled then admin_error StatusBadRequest err
          else if err = DeadlineExceeded then admin_error StatusGatewayTimeout err else admin_error StatusInternalServerError err
      | Inr response \<Rightarrow> admin_json StatusOK (Some (A_Reset response)))"
      by (simp add: resetHandler_def dec scope assms(2) False run split: sum.split)
    have a': "a' = a\<lparr>ad_sys := s'\<rparr>" "ar_status res = StatusOK \<longleftrightarrow> \<not> isl out" "\<And>rr. out = Inr rr \<Longrightarrow> ar_body res = Some (A_Reset rr)"
      using assms(3) unfolding handler by (auto simp: admin_error_def admin_json_def split: sum.splits if_splits)
    show ?thesis
    proof (cases out)
      case (Inl err)
      then show ?thesis using reset_error run a'(1,2) assms(5) store_inv_truncate False by fastforce
    next
      case (Inr rr)
      note done' = reset_done [OF run [unfolded Inr]]
      have "\<not> snd (repo_IsBlockEvent L x c e s')" if "rr_RedisFlushed rr" for x c e
        by (rule not_blocked_after_reset(1) [OF assms(4) done'(3) [OF that] done'(2)])
      then show ?thesis using Inr a' done' assms(2,5) store_inv_truncate [of t "sys_db (ad_sys a)" scope] False
        by (auto simp: truncate_scope_def scope_valid_def ScopeReservations_def ScopeUsers_def ScopeAll_def)
    qed
  qed
qed

theorem reset_clears_exactly_its_scope_witness:
  "reservations_tbl (sys_db (ad_sys (fst (resetHandler (table_lru lruBlockTTL) (\<lambda>_. Done)
      \<lparr>rq_authorization = [], rq_limit = [], rq_body = Some (JObj [(''scope'', JStr ''users'')])\<rparr>
      \<lparr>ad_sys = demo_sys [demo_hold ''r1'' 1 None 10] empty_redis (\<lambda>_. None), ad_reg = NewRegistry\<rparr>)))) = []"
proof -
  let ?rq = "\<lparr>rq_authorization = [], rq_limit = [], rq_body = Some (JObj [(''scope'', JStr ''users'')])\<rparr>"
  let ?a = "\<lparr>ad_sys = demo_sys [demo_hold ''r1'' 1 None 10] empty_redis (\<lambda>_. None), ad_reg = NewRegistry\<rparr>"
  obtain a' res where run: "resetHandler (table_lru lruBlockTTL) (\<lambda>_. Done) ?rq ?a = (a', res)" by fastforce
  have status: "ar_status res = StatusOK"
    using run by (auto simp: resetHandler_def ResetRequest_fields_def field_setter_def DecodeRequestBody.simps scope_valid_def ScopeReservations_def
        ScopeUsers_def ScopeAll_def HasAnyActiveRun_def NewRegistry_def admin_reset_def Let_def admin_json_def)
  have inv: "store_inv (5, sys_db (ad_sys ?a))"
    by (simp add: store_inv_def schema_defs demo_defs demo_emails within_capacity_def within_quota_def active_at_def)
  have valid: "scope_valid ''users''" by (simp add: scope_valid_def ScopeUsers_def)
  show ?thesis using reset_clears_exactly_its_scope [OF _ valid run table_lru_laws inv] status run by simp
qed

text \<open>
  C38: a simulation starts on a sound event. While the event has a run, the request changes nothing.
  An accepted request that does not change the capacity, or also resets, keeps the database free of
  oversells, leaves the reservation rows of all other events as they are, and leaves a running run in the
  registry whose users are all registered; a requested capacity is the event's capacity. Only with a reset has the event no reservations
  and is it not flagged as sold out; without one both may be there from before. What a reset does to Redis, where it takes the queues and
  slots of the other events too, is not part of this.
\<close>

theorem simulate_starts_on_sound_event:
  assumes req: "DecodeRequestBody SimulateRequest_fields zero_SimulateRequest (rq_body rq) = Inr req"
    and run: "simulateHandler en rq a = (a', res)"
    and inv: "store_inv (t, sys_db (ad_sys a))" and "lru_laws ttl (se_lru en)" and "sq_Reset req \<or> sq_Capacity req = 0"
  shows "(HasActiveRun (sq_EventId req) (ad_reg a) \<longrightarrow> a' = a)
    \<and> (ar_status res = StatusAccepted \<longrightarrow>
         store_inv (t, sys_db (ad_sys a'))
         \<and> without_event (sq_EventId req) (reservations_tbl (sys_db (ad_sys a')))
             = without_event (sq_EventId req) (reservations_tbl (sys_db (ad_sys a)))
         \<and> (\<exists>run. reg_Get (se_run_id en) (ad_reg a') = Inr run \<and> \<not> run_done run \<and> run_EventId run = sq_EventId req
              \<and> set (sc_UserIds (run_cfg run)) \<subseteq> set (map ur_id (users_tbl (sys_db (ad_sys a')))))
         \<and> (sq_Reset req \<longrightarrow> filter (\<lambda>r. res_EventId r = sq_EventId req) (reservations_tbl (sys_db (ad_sys a'))) = []
              \<and> \<not> snd (repo_IsBlockEvent (se_lru en) x c (sq_EventId req) (ad_sys a')))
         \<and> (0 < sq_Capacity req \<longrightarrow> list_all (\<lambda>e. er_id e = sq_EventId req \<longrightarrow> ev_Capacity (er_item e) = sq_Capacity req)
              (events_tbl (sys_db (ad_sys a')))))"
proof (intro conjI impI)
  show "a' = a" if "HasActiveRun (sq_EventId req) (ad_reg a)"
    using req run that by (auto simp: simulateHandler_def Let_def split: if_splits)
next
  assume acc: "ar_status res = StatusAccepted"
  obtain s1 s2 transport where cap: "prepare_capacity en req (ad_sys a) = (s1, Inr ())" and rst: "prepare_reset en req s1 = (s2, Inr ())"
    and start: "simulate_start en req transport (a\<lparr>ad_sys := if 0 < sq_Capacity req
       then fst (repo_UnblockEvent (se_lru en) (se_flt en SC_Unblock) (se_clocks en) (sq_EventId req) s2) else s2\<rparr>) = (a', res)"
    by (rule simulateHandler_accepted [OF req run acc])
  define s3 where "s3 = (if 0 < sq_Capacity req
    then fst (repo_UnblockEvent (se_lru en) (se_flt en SC_Unblock) (se_clocks en) (sq_EventId req) s2) else s2)"
  have db3: "sys_db s3 = sys_db s2" by (simp add: s3_def)
  obtain db' userIds tokens r where mint: "pg_CreateUsers (\<lambda>x. se_flt en (SC_Mint x)) (c_pg (se_clocks en)) (se_ids en)
       (map (sim_user (se_uuids en)) [0..<nat (sq_Users req)]) (sys_db s2) = (db', Inr userIds)"
    and reg: "reg_Start (se_run_id en) (c_wall (se_clocks en)) (simulate_config en req transport userIds tokens) (ad_reg a) = (ad_reg a', Inr r)"
    and a': "ad_sys a' = s3\<lparr>sys_db := db'\<rparr>"
    by (rule simulate_start_accepted [OF start [folded s3_def] acc]) (simp add: db3)
  have inv2: "store_inv (t, sys_db s2)" by (rule prepared_store [OF inv cap rst assms(5)])
  note users = CreateUsers_store [OF inv2 mint]
  have db': "sys_db (ad_sys a') = db'" by (simp add: a')
  show "store_inv (t, sys_db (ad_sys a'))" using users(1) by (simp add: db')
  have rows: "reservations_tbl db' = (if sq_Reset req then without_event (sq_EventId req) (reservations_tbl (sys_db (ad_sys a)))
      else reservations_tbl (sys_db (ad_sys a)))"
    using users(3) prepare_capacity_done(2) [OF cap] prepare_reset_done [OF rst] by auto
  then show "without_event (sq_EventId req) (reservations_tbl (sys_db (ad_sys a')))
             = without_event (sq_EventId req) (reservations_tbl (sys_db (ad_sys a)))" by (simp add: db')
  show "filter (\<lambda>r. res_EventId r = sq_EventId req) (reservations_tbl (sys_db (ad_sys a'))) = []" if "sq_Reset req"
    using that rows by (simp add: db')
  show "\<not> snd (repo_IsBlockEvent (se_lru en) x c (sq_EventId req) (ad_sys a'))" if "sq_Reset req"
  proof -
    have "\<not> snd (repo_IsBlockEvent (se_lru en) x c (sq_EventId req) s3)"
      using not_blocked_after_reset [OF assms(4), of s2] prepare_reset_done(2) [OF rst that] by (simp add: s3_def)
    then show ?thesis by (simp add: a' IsBlockEvent_value)
  qed
  show "list_all (\<lambda>e. er_id e = sq_EventId req \<longrightarrow> ev_Capacity (er_item e) = sq_Capacity req) (events_tbl (sys_db (ad_sys a')))"
    if "0 < sq_Capacity req"
    using that users(2) prepare_capacity_done(4) [OF cap] prepare_reset_done [OF rst] assms(5) by (auto simp: db' list_all_iff word_gt_0)
  obtain new where "users_tbl db' = users_tbl (sys_db s2) @ new" "userIds = map ur_id new" using users(4) by blast
  then have known: "set userIds \<subseteq> set (map ur_id (users_tbl db'))" by auto
  show "\<exists>run. reg_Get (se_run_id en) (ad_reg a') = Inr run \<and> \<not> run_done run \<and> run_EventId run = sq_EventId req
      \<and> set (sc_UserIds (run_cfg run)) \<subseteq> set (map ur_id (users_tbl (sys_db (ad_sys a'))))"
    by (rule reg_Start_cases [OF reg])
       (use known in \<open>auto simp: db' reg_Get_def update_conv' simulate_config_def settle_config_def Let_def\<close>)
qed

definition demo_sim_request :: "json \<Rightarrow> request" where
  "demo_sim_request capacity = \<lparr>rq_authorization = [], rq_limit = [], rq_body = Some (JObj
     [(''eventId'', JStr ''e1''), (''users'', JNum ''1''), (''capacity'', capacity), (''reset'', JBool True)])\<rparr>"

definition demo_sim_env :: "(sim_call \<Rightarrow> io) \<Rightarrow> (string \<Rightarrow> time option) sim_env" where
  "demo_sim_env flt = \<lparr>se_lru = table_lru lruBlockTTL, se_flt = flt, se_clocks = demo_clock, se_uuids = (\<lambda>_. ''x''), se_ids = [''u9''],
     se_run_id = ''i1'', se_sign = (\<lambda>secret sub. Inr (demo_token secret \<lparr>uc_Name = [], uc_Email = [], uc_Subject = sub\<rparr>)),
     se_secret = ''k'', se_BaseURL = []\<rparr>"

definition demo_admin :: "ReservationItem list \<Rightarrow> (string \<Rightarrow> time option) admin" where
  "demo_admin rs = \<lparr>ad_sys = demo_sys rs empty_redis (\<lambda>_. None), ad_reg = NewRegistry\<rparr>"

definition demo_sim_req :: SimulateRequest where
  "demo_sim_req = zero_SimulateRequest\<lparr>sq_EventId := ''e1'', sq_Users := 1, sq_Capacity := 1, sq_Reset := True\<rparr>"

lemma demo_sim_req_fields:
  "sq_EventId demo_sim_req = ''e1''" "sq_Users demo_sim_req = 1" "sq_Capacity demo_sim_req = 1" "sq_Reset demo_sim_req"
  "sq_Transport demo_sim_req = []"
  by (simp_all add: demo_sim_req_def zero_SimulateRequest_def)

lemma demo_sim_decode:
  "DecodeRequestBody SimulateRequest_fields zero_SimulateRequest (rq_body (demo_sim_request (JNum ''1''))) = Inr demo_sim_req"
  by (simp add: demo_sim_req_def demo_sim_request_def SimulateRequest_fields_def field_setter_def DecodeRequestBody.simps Atoi_def ParseUint_def
      is_digit_def decimal_def digit_val_def)

lemma demo_admin_fields [simp]: "ad_reg (demo_admin rs) = NewRegistry" "ad_sys (demo_admin rs) = demo_sys rs empty_redis (\<lambda>_. None)"
  by (simp_all add: demo_admin_def)

lemma demo_sim_env_fields [simp]:
  "se_lru (demo_sim_env flt) = table_lru lruBlockTTL" "se_flt (demo_sim_env flt) = flt" "se_clocks (demo_sim_env flt) = demo_clock"
  by (simp_all add: demo_sim_env_def)

lemma demo_admin_inv: "store_inv (5, sys_db (ad_sys (demo_admin [demo_hold ''r1'' 2 None 10])))"
  by (simp add: store_inv_def schema_defs demo_defs demo_emails within_capacity_def within_quota_def active_at_def)

lemma demo_sim_email: "email_format ''sim+x@example.com''" "lower ''sim+x@example.com'' = ''sim+x@example.com''"
  by (simp_all add: email_format_def posix_space_def Let_def lower_def lower_char_def upt_rec)

lemma demo_handler:
  "simulateHandler en (demo_sim_request (JNum ''1'')) (demo_admin rs) =
     (case prepare_capacity en demo_sim_req (ad_sys (demo_admin rs)) of
        (s1, Inl err) \<Rightarrow> ((demo_admin rs)\<lparr>ad_sys := s1\<rparr>, admin_error StatusInternalServerError err)
      | (s1, Inr _) \<Rightarrow>
          (case prepare_reset en demo_sim_req s1 of
             (s2, Inl err) \<Rightarrow> ((demo_admin rs)\<lparr>ad_sys := s2\<rparr>, admin_error StatusInternalServerError err)
           | (s2, Inr _) \<Rightarrow> simulate_start en demo_sim_req TransportInProcess
               ((demo_admin rs)\<lparr>ad_sys := fst (repo_UnblockEvent (se_lru en) (se_flt en SC_Unblock) (se_clocks en) ''e1'' s2)\<rparr>)))"
  by (simp add: simulateHandler_def demo_sim_decode demo_sim_req_fields maxSimulatedUsers_def maxHTTPSimulatedUsers_def
      HasActiveRun_def NewRegistry_def)

lemma demo_sim_accepted:
  "ar_status (snd (simulateHandler (demo_sim_env (\<lambda>_. Done)) (demo_sim_request (JNum ''1'')) (demo_admin rs))) = StatusAccepted"
proof -
  let ?en = "demo_sim_env (\<lambda>_. Done)"
  have mint: "\<exists>db'. pg_CreateUsers (\<lambda>x. se_flt ?en (SC_Mint x)) (c_pg (se_clocks ?en)) (se_ids ?en) (map (sim_user (se_uuids ?en)) [0..<nat 1]) db
      = (db', Inr [''u9''])" if "users_tbl db = users_tbl demo_db" for db
    using that by (simp add: demo_sim_env_def pg_CreateUsers_def sim_user_def insert_user_def mk_user_def name_not_blank_def demo_sim_email
        email_taken_def demo_db_def demo_user_def demo_emails)
  have start: "ar_status (snd (simulate_start ?en demo_sim_req TransportInProcess a)) = StatusAccepted"
    if "ad_reg a = NewRegistry" "users_tbl (sys_db (ad_sys a)) = users_tbl demo_db" for a
    using mint [OF that(2)] that(1)
    by (auto simp: simulate_start_def mintSimUsers_def TransportInProcess_def TransportHTTP_def reg_Start_def NewRegistry_def Let_def
        admin_json_def demo_sim_req_fields)
  obtain s1 where cap: "prepare_capacity ?en demo_sim_req (ad_sys (demo_admin rs)) = (s1, Inr ())" "users_tbl (sys_db s1) = users_tbl demo_db"
    by (auto simp: prepare_capacity_def update_capacity_def rc_InvalidateCache_def demo_sim_req_fields split_beta)
  obtain s2 where rst: "prepare_reset ?en demo_sim_req s1 = (s2, Inr ())" "users_tbl (sys_db s2) = users_tbl demo_db"
    using cap(2) by (auto simp: prepare_reset_def delete_reservations_def demo_sim_req_fields)
  show ?thesis unfolding demo_handler cap(1) rst(1) prod.case sum.case by (rule start) (simp_all add: rst(2))
qed

theorem simulate_starts_on_sound_event_witness:
  "ar_status (snd (simulateHandler (demo_sim_env (\<lambda>_. Done)) (demo_sim_request (JNum ''1'')) (demo_admin [demo_hold ''r1'' 2 None 10]))) = StatusAccepted
   \<and> filter (\<lambda>r. res_EventId r = ''e1'') (reservations_tbl (sys_db (ad_sys (fst (simulateHandler (demo_sim_env (\<lambda>_. Done))
     (demo_sim_request (JNum ''1'')) (demo_admin [demo_hold ''r1'' 2 None 10])))))) = []"
proof -
  obtain a' res where run: "simulateHandler (demo_sim_env (\<lambda>_. Done)) (demo_sim_request (JNum ''1'')) (demo_admin [demo_hold ''r1'' 2 None 10]) = (a', res)"
    by fastforce
  then have acc: "ar_status res = StatusAccepted" using demo_sim_accepted [of "[demo_hold ''r1'' 2 None 10]"] by simp
  have L: "lru_laws lruBlockTTL (se_lru (demo_sim_env (\<lambda>_. Done)))" by (simp add: table_lru_laws)
  have "filter (\<lambda>r. res_EventId r = sq_EventId demo_sim_req) (reservations_tbl (sys_db (ad_sys a'))) = []"
    using simulate_starts_on_sound_event [OF demo_sim_decode run demo_admin_inv L] acc demo_sim_req_fields(4) by blast
  then show ?thesis using run acc by (simp add: demo_sim_req_fields)
qed

text \<open>
  The simulated users can log in. Every user for whom \<open>mintTokens\<close> issued a token authenticates
  with it over HTTP as that user, as long as the user's row is there and the cache agrees with the
  table, so that both transports drive the same service calls; nobody else gets a token.
\<close>

lemma minted_tokens_authenticate:
  assumes "registered_laws (sv_jwt sv) sign" and "mintTokens sign (sv_JwtSecret sv) (\<lambda>_. None) ids = Inr tokens"
    and "coherent user_cached (user_rows (sys_db s)) (sys_redis s)" and "k_auth k GU_Query = Done"
    and "u \<in> set ids" and "user_rows (sys_db s) u = Some item" and "v \<notin> set ids"
  shows "(\<exists>s1. authenticates sv k tokens u s s1 \<and> sys_db s1 = sys_db s \<and> sys_lru s1 = sys_lru s) \<and> tokens v = None"
proof -
  obtain tok where tok: "sign (sv_JwtSecret sv) u = Inr tok" "tokens u = Some tok" using mintTokens_lookup(1) [OF assms(2,5)] by blast
  obtain r' out where get: "repo_GetUser (k_auth k) (c_redis (k_clocks k)) u (sys_db s) (sys_redis s) = (r', out)" by fastforce
  then have "out = Inr item" using GetUser_reads_through [where flt = "k_auth k", OF assms(3,4)] assms(6) by (metis option.simps(5) snd_conv)
  then have "GetAuthenticatedUser (sv_jwt sv) (sv_JwtSecret sv) (k_auth k) (k_clocks k)
      \<lparr>rq_authorization = bearer_prefix @ tok, rq_limit = [], rq_body = None\<rparr> s = (s\<lparr>sys_redis := r'\<rparr>, Inr (UserDto_toDto item))"
    using get by (intro registered_token_authenticates [OF assms(1) tok(1)]) simp_all
  moreover have "ud_Id (UserDto_toDto item) = u" using user_rows_id [OF assms(6)] by (simp add: UserDto_toDto_def)
  ultimately have "authenticates sv k tokens u s (s\<lparr>sys_redis := r'\<rparr>)" using tok(2) unfolding authenticates_def by blast
  then show ?thesis using mintTokens_lookup(2) [OF assms(2,7)] by (intro conjI exI [of _ "s\<lparr>sys_redis := r'\<rparr>"]) simp_all
qed

text \<open>
  A simulation request that fails half-way can leave its event oversold. The new capacity is
  written by a statement of its own before the old reservations are deleted: with two of two seats
  held, a request for capacity one with reset whose delete is never carried out answers 500, and the
  database, sound before, has an event with more active seats than capacity.
\<close>

lemma failed_simulation_oversells:
  "(let a = demo_admin [demo_hold ''r1'' 2 None 10];
        out = simulateHandler (demo_sim_env (\<lambda>x. if x = SC_Delete then NotSent Canceled else Done)) (demo_sim_request (JNum ''1'')) a
    in store_inv (5, sys_db (ad_sys a)) \<and> ar_status (snd out) = StatusInternalServerError
       \<and> \<not> within_capacity 5 (sys_db (ad_sys (fst out))))"
proof -
  let ?en = "demo_sim_env (\<lambda>x. if x = SC_Delete then NotSent Canceled else Done)" and ?a = "demo_admin [demo_hold ''r1'' 2 None 10]"
  obtain s1 where cap: "prepare_capacity ?en demo_sim_req (ad_sys ?a) = (s1, Inr ())"
    "sys_db s1 = (sys_db (ad_sys ?a))\<lparr>events_tbl := map (set_capacity 5 1 ''e1'') (events_tbl demo_db)\<rparr>"
    by (auto simp: prepare_capacity_def update_capacity_def rc_InvalidateCache_def demo_sim_req_fields demo_clock_def split_beta)
  have rst: "prepare_reset ?en demo_sim_req s1 = (s1, Inl Canceled)" by (simp add: prepare_reset_def delete_reservations_def demo_sim_req_fields)
  have "simulateHandler ?en (demo_sim_request (JNum ''1'')) ?a = (?a\<lparr>ad_sys := s1\<rparr>, admin_error StatusInternalServerError Canceled)"
    unfolding demo_handler cap(1) rst prod.case sum.case by simp
  moreover have "\<not> within_capacity 5 (sys_db s1)" by (simp add: cap(2) within_capacity_def demo_defs set_capacity_def active_at_def)
  ultimately show ?thesis using demo_admin_inv by (simp add: Let_def admin_error_def)
qed

end
