(* ===== verification/Journey.thy ===== *)
theory Journey
  imports SimProperties
begin

text \<open>
  A purchase from end to end over HTTP: a user with a token joins the line of an event, is admitted,
  reserves and confirms. Each of the three requests passes through the authentication, its handler, its
  service and the repositories down to the tables and Redis; the theorem says that with room in the gate
  and seats left an undisturbed purchase succeeds, and what it leaves behind.
\<close>

section \<open>Which keys a step touches\<close>

lemma keys_differ [simp]:
  "userCacheKey i \<noteq> getUserHeartbeatKey e u" "eventIdCacheKey i \<noteq> getUserHeartbeatKey e u"
  "getEventBlockedKey i \<noteq> getUserHeartbeatKey e u" "getUserHeartbeatKey e u \<noteq> userCacheKey i"
  "eventIdCacheKey j \<noteq> userCacheKey i" "userCacheKey i \<noteq> eventIdCacheKey j" "getEventBlockedKey j \<noteq> userCacheKey i"
  "getEventMaxConcurrentKey j \<noteq> userCacheKey i"
  by (simp_all add: userCacheKey_def eventIdCacheKey_def getUserHeartbeatKey_def getEventBlockedKey_def getEventMaxConcurrentKey_def)

lemma keys_outside:
  "eventIdCacheKey i \<notin> range userCacheKey" "getEventBlockedKey i \<notin> range userCacheKey"
  "getUserHeartbeatKey e u \<notin> range userCacheKey" "getEventMaxConcurrentKey e \<notin> range userCacheKey"
  "userCacheKey i \<notin> range eventIdCacheKey" "userCacheKey i \<notin> range getEventBlockedKey"
  by (auto simp: userCacheKey_def eventIdCacheKey_def getUserHeartbeatKey_def getEventBlockedKey_def getEventMaxConcurrentKey_def)

lemma rget_cong_strs: "r_strs r' k = r_strs r k \<Longrightarrow> rget now k r' = rget now k r"
  by (simp add: rget_def)

lemma coherent_users_cong:
  assumes "\<And>i. r_strs r' (userCacheKey i) = r_strs r (userCacheKey i)"
  shows "coherent user_cached rows r' = coherent user_cached rows r"
  by (simp add: coherent_def user_cached_def rc_GetUser_def rget_cong_strs [OF assms])

lemma coherent_events_cong:
  assumes "\<And>i. r_strs r' (eventIdCacheKey i) = r_strs r (eventIdCacheKey i)"
  shows "coherent event_cached rows r' = coherent event_cached rows r"
  by (simp add: coherent_def event_cached_def rc_GetEvent_def rget_cong_strs [OF assms])

lemma rset_outside: "k \<notin> range f \<Longrightarrow> r_strs (rset d (f i) v r) k = r_strs r k"
  by (rule rset_other) auto

lemma repo_GetUser_frame:
  "r_hashes (fst (repo_GetUser flt now uid db r)) = r_hashes r" "r_zsets (fst (repo_GetUser flt now uid db r)) = r_zsets r"
  "k \<notin> range userCacheKey \<Longrightarrow> r_strs (fst (repo_GetUser flt now uid db r)) k = r_strs r k"
  by (cases "flt GU_Fill"; simp add: repo_GetUser_def rc_SetUser_def rset_outside split: sum.splits)+

lemma repo_BlockEvent_strs:
  "k \<notin> range getEventBlockedKey \<Longrightarrow> r_strs (sys_redis (fst (repo_BlockEvent L x c e s))) k = r_strs (sys_redis s) k"
  by (cases x; simp add: repo_BlockEvent_def rc_BlockEvent_def split_beta rset_outside)

lemma repo_GetEvent_strs:
  "k \<notin> range eventIdCacheKey \<Longrightarrow> r_strs (fst (repo_GetEvent flt now rnd deadline gone eid db r)) k = r_strs r k"
  by (cases "flt GE_Fill"; simp add: repo_GetEvent_def rc_SetCache_def Let_def rset_outside split: sum.splits)

section \<open>One request at a time\<close>

text \<open>The token a user was given: signed with the server's secret, with the user's id as its subject.\<close>

definition token_for :: "'l server \<Rightarrow> string \<Rightarrow> string \<Rightarrow> bool" where
  "token_for sv u tok \<longleftrightarrow> (\<exists>claims. jwt_SignedString (sv_jwt sv) (sv_JwtSecret sv) claims = Inr tok \<and> uc_Subject claims = u)"

abbreviation with_token :: "string \<Rightarrow> json option \<Rightarrow> request" where
  "with_token tok body \<equiv> \<lparr>rq_authorization = bearer_prefix @ tok, rq_limit = [], rq_body = body\<rparr>"

lemma authenticated_request:
  assumes "jwt_laws (sv_jwt sv)" and "token_for sv u tok" and "coherent user_cached (user_rows (sys_db s)) (sys_redis s)"
    and "user_rows (sys_db s) u = Some item" and "k_auth k GU_Query = Done" and "open_handler sv k rt = None"
  obtains r' where "serve sv k rt (with_token tok body) s = user_handler sv k rt (Some (UserDto_toDto item)) (with_token tok body) (s\<lparr>sys_redis := r'\<rparr>)"
    and "coherent user_cached (user_rows (sys_db s)) r'" and "r_hashes r' = r_hashes (sys_redis s)" and "r_zsets r' = r_zsets (sys_redis s)"
    and "\<And>key. key \<notin> range userCacheKey \<Longrightarrow> r_strs r' key = r_strs (sys_redis s) key"
proof -
  obtain claims where c: "jwt_SignedString (sv_jwt sv) (sv_JwtSecret sv) claims = Inr tok" "uc_Subject claims = u"
    using assms(2) by (auto simp: token_for_def)
  let ?get = "repo_GetUser (k_auth k) (c_redis (k_clocks k)) u (sys_db s) (sys_redis s)"
  have "snd ?get = Inr item" and coh: "coherent user_cached (user_rows (sys_db s)) (fst ?get)"
    using GetUser_reads_through [where flt = "k_auth k" and flt' = "k_auth k" and k = u, OF assms(3,5)] assms(4) by simp_all
  then have get: "?get = (fst ?get, Inr item)" by (metis prod.collapse)
  have "GetAuthenticatedUser (sv_jwt sv) (sv_JwtSecret sv) (k_auth k) (k_clocks k) (with_token tok body) s
      = (s\<lparr>sys_redis := fst ?get\<rparr>, Inr (UserDto_toDto item))"
    using GetAuthenticatedUser_token [OF assms(1) c(1), of "with_token tok body" "k_auth k" "k_clocks k" s "fst ?get" "Inr item"] get c(2) by simp
  from serve_protected [OF assms(6) this]
  have "serve sv k rt (with_token tok body) s
      = user_handler sv k rt (Some (UserDto_toDto item)) (with_token tok body) (s\<lparr>sys_redis := fst ?get\<rparr>)" by simp
  then show thesis by (rule that) (rule coh, rule repo_GetUser_frame(1), rule repo_GetUser_frame(2), erule repo_GetUser_frame(3))
qed

section \<open>The store sells what is left\<close>

definition held_row :: "clocks \<Rightarrow> string \<Rightarrow> string \<Rightarrow> string \<Rightarrow> u32 \<Rightarrow> ReservationItem" where
  "held_row c new_id e u q =
     \<lparr>res_Id = new_id, res_UserId = u, res_EventId = e, res_Quantity = q, res_Status = StatusHeld, res_IdempotencyKey = None,
      res_ReservedAt = c_wall c, res_ExpiresAt = c_wall c + reservationTTL, res_ConfirmedAt = None, res_ReleasedAt = None,
      res_CreatedAt = c_pg c, res_UpdatedAt = c_pg c\<rparr>"

lemma pg_ReserveEvent_sells:
  assumes wf: "pg_wf db" and ev: "find (\<lambda>x. er_id x = e) (events_tbl db) = Some row" and q: "q \<noteq> 0"
    and seats: "active_seats (c_pg c) e (reservations_tbl db) + unat q \<le> unat (ev_Capacity (er_item row))"
    and mine: "user_active_seats (c_pg c) e u (reservations_tbl db) + unat q \<le> unat (ev_MaxReservePerUser (er_item row))"
    and fresh: "new_id \<notin> set (map res_Id (reservations_tbl db))" and user: "u \<in> set (map ur_id (users_tbl db))"
  shows "pg_ReserveEvent (\<lambda>_. Done) (c_pg c) (c_wall c) new_id e u q None db =
    (db\<lparr>reservations_tbl := reservations_tbl db @ [held_row c new_id e u q]\<rparr>,
     active_seats (c_pg c) e (reservations_tbl db) + unat q = unat (ev_Capacity (er_item row)), Inr (held_row c new_id e u q))"
proof -
  let ?sold = "active_seats (c_pg c) e (reservations_tbl db)" and ?mine = "user_active_seats (c_pg c) e u (reservations_tbl db)"
  have row: "row \<in> set (events_tbl db)" "er_id row = e" using find_SomeD [OF ev] by auto
  have cap: "unat (ev_Capacity (er_item row)) < 2 ^ 31" "unat (ev_MaxReservePerUser (er_item row)) < 2 ^ 31"
    using event_bounds [OF wf row(1)] by auto
  have sums: "select_active_sums Done (c_pg c) e u db = Inr (of_nat ?sold, of_nat ?mine)"
    using seats mine cap by (simp add: select_active_sums_def scan_u32_def)
  have nats: "unat (of_nat ?sold :: u32) = ?sold" "unat (of_nat ?mine :: u32) = ?mine"
    using seats mine cap by (simp_all add: unat_of_nat_u32)
  have chk: "reserve_check (ev_Capacity (er_item row)) (ev_MaxReservePerUser (er_item row)) (of_nat ?sold) (of_nat ?mine) q = None"
    using reserve_check_exact(1) [of "of_nat ?sold" "of_nat ?mine" q] nats seats mine cap by simp
  have "\<not> ev_MaxReservePerUser (er_item row) < q" using mine by (simp add: u32_less_iff)
  moreover have "ev_Capacity (er_item row) \<le> of_nat ?sold + q \<longleftrightarrow> ?sold + unat q = unat (ev_Capacity (er_item row))"
    using reserve_check_exact(2) [of "of_nat ?sold" "of_nat ?mine" q] nats seats mine cap by auto
  moreover have "e \<in> set (map er_id (events_tbl db))" using row by force
  moreover have "\<not> 2 ^ 31 \<le> unat q" using mine cap by simp
  ultimately show ?thesis using sums chk q fresh user
    by (simp add: pg_ReserveEvent_def select_event_for_update_def ev insert_reservation_def conflicting_row_def held_row_def Let_def)
qed

lemma pg_Update_confirms:
  assumes "new_id \<notin> set (map res_Id rs)" and "now < c_wall c + reservationTTL" and "reservations_tbl db = rs @ [held_row c new_id e u q]"
  shows "pg_UpdateReservation (\<lambda>_. Done) now wall u new_id StatusConfirmed db =
    (db\<lparr>reservations_tbl := rs @ [set_status StatusConfirmed now wall (held_row c new_id e u q)]\<rparr>, Inr e)"
proof -
  have old: "\<not> updatable now u new_id r" if "r \<in> set rs" for r using that assms(1) by (auto simp: updatable_def)
  have new: "updatable now u new_id (held_row c new_id e u q)" using assms(2) by (simp add: updatable_def held_row_def)
  have "find (updatable now u new_id) (rs @ [held_row c new_id e u q]) = Some (held_row c new_id e u q)"
    using old new by (induction rs) auto
  moreover have "map (\<lambda>x. if updatable now u new_id x then set_status StatusConfirmed now wall x else x) rs = rs"
    using old by (simp add: map_idI)
  ultimately show ?thesis using new by (simp add: pg_UpdateReservation_def assms(3)) (simp add: held_row_def)
qed

section \<open>The service sells to an admitted user\<close>

lemma scan_alive_Nil: "scan_alive P n [] = []"
  by (cases n) simp_all

text \<open>With nobody waiting, giving a slot back only removes it.\<close>

lemma releaseQueueSlot_empty_line:
  assumes "waiting (getEventVirtualQueueKey e) (sys_redis s) = []"
  shows "r_strs (sys_redis (releaseQueueSlot repo (\<lambda>_. Done) c e u s)) = r_strs (sys_redis s)"
    and "slot t e u (sys_redis (releaseQueueSlot repo (\<lambda>_. Done) c e u s)) = None"
proof -
  let ?r = "fst (vqDeleteWhitelistedUserTTL Done (c_redis c) e u (sys_redis s))"
  have "waiting (getEventVirtualQueueKey e) ?r = []" using assms by (simp add: vqDelete_effect)
  then have "fst (vqTryWhitelistEventQueue repo Done (c_redis c) e 1 ?r) = ?r" by (subst vqTryWhitelist_fold) (simp_all add: scan_alive_Nil)
  then have "sys_redis (releaseQueueSlot repo (\<lambda>_. Done) c e u s) = ?r" by (simp add: releaseQueueSlot_def Let_def)
  then show "r_strs (sys_redis (releaseQueueSlot repo (\<lambda>_. Done) c e u s)) = r_strs (sys_redis s)"
    and "slot t e u (sys_redis (releaseQueueSlot repo (\<lambda>_. Done) c e u s)) = None"
    by (simp_all add: vqDelete_effect)
qed

text \<open>What a reserve of \<open>q\<close> seats needs of the tables: the event, the user, a fresh id, and seats left within both limits.\<close>

definition seats_left :: "clocks \<Rightarrow> string \<Rightarrow> string \<Rightarrow> string \<Rightarrow> u32 \<Rightarrow> pg \<Rightarrow> bool" where
  "seats_left c new_id e u q db \<longleftrightarrow> pg_wf db \<and> q \<noteq> 0 \<and> new_id \<notin> set (map res_Id (reservations_tbl db)) \<and> u \<in> set (map ur_id (users_tbl db))
     \<and> (case find (\<lambda>x. er_id x = e) (events_tbl db) of
          None \<Rightarrow> False
        | Some row \<Rightarrow> active_seats (c_pg c) e (reservations_tbl db) + unat q \<le> unat (ev_Capacity (er_item row))
            \<and> user_active_seats (c_pg c) e u (reservations_tbl db) + unat q \<le> unat (ev_MaxReservePerUser (er_item row)))"

lemma svc_ReserveEvent_sells:
  assumes left: "seats_left c new_id e u q (sys_db s)"
    and admitted: "slot (c_redis c) e u (sys_redis s) = Some (v, Some d)"
    and open_event: "\<not> flag_local L (c_wall c) e s" "\<not> flag_shared (c_redis c) e s"
    and coh: "coherent event_cached (event_rows (sys_db s)) (sys_redis s)" and line: "waiting (getEventVirtualQueueKey e) (sys_redis s) = []"
    and req: "req = \<lparr>rer_EventId = e, rer_UserId = u, rer_Quantity = q, rer_IdempotencyKey = None\<rparr>"
  shows "\<exists>s'. svc_ReserveEvent L repo (\<lambda>_. Done) c rnd True None new_id req s = (s', Inr (held_row c new_id e u q))
    \<and> sys_db s' = (sys_db s)\<lparr>reservations_tbl := reservations_tbl (sys_db s) @ [held_row c new_id e u q]\<rparr>
    \<and> (\<forall>t. slot t e u (sys_redis s') = None)
    \<and> (\<forall>i. r_strs (sys_redis s') (userCacheKey i) = r_strs (sys_redis s) (userCacheKey i))"
proof -
  obtain row where row: "find (\<lambda>x. er_id x = e) (events_tbl (sys_db s)) = Some row"
    using left by (auto simp: seats_left_def split: option.splits)
  let ?full = "active_seats (c_pg c) e (reservations_tbl (sys_db s)) + unat q = unat (ev_Capacity (er_item row))"
  have pg: "pg_ReserveEvent (\<lambda>_. Done) (c_pg c) (c_wall c) new_id e u q None (sys_db s) =
      ((sys_db s)\<lparr>reservations_tbl := reservations_tbl (sys_db s) @ [held_row c new_id e u q]\<rparr>, ?full, Inr (held_row c new_id e u q))"
    using pg_ReserveEvent_sells [OF _ row] left row by (simp add: seats_left_def)
  have read: "snd (repo_GetEvent (\<lambda>_. Done) (c_redis c) rnd True None e (sys_db s) (sys_redis s)) = Inr (er_item row)"
    using event_read_through [where flt = "\<lambda>_. Done" and k = e, OF coh] row by (simp add: event_rows_def)
  have unblocked: "\<not> snd (repo_IsBlockEvent L Done c e s)" using open_event by (simp add: IsBlockEvent_value)
  show ?thesis
  proof (cases rule: svc_ReserveEvent_cases [of L "\<lambda>_. Done" c req s repo rnd True None new_id])
    case (admitted r' ev v' d')
    let ?s1 = "(fst (repo_IsBlockEvent L Done c e s))\<lparr>sys_redis := r', sys_db := (sys_db s)\<lparr>reservations_tbl := reservations_tbl (sys_db s) @ [held_row c new_id e u q]\<rparr>\<rparr>"
    let ?s2 = "if ?full then fst (repo_BlockEvent L Done c e ?s1) else ?s1"
    have r': "r' = fst (repo_GetEvent (\<lambda>_. Done) (c_redis c) rnd True None e (sys_db s) (sys_redis s))" using admitted(4) req by simp
    have "svc_ReserveEvent L repo (\<lambda>_. Done) c rnd True None new_id req s = (releaseQueueSlot repo (\<lambda>_. Done) c e u ?s2, Inr (held_row c new_id e u q))"
      using admitted(5) by (simp add: reserve_admitted_def repo_ReserveEvent_def req pg Let_def) (simp add: held_row_def)
    moreover have "sys_db (releaseQueueSlot repo (\<lambda>_. Done) c e u ?s2)
        = (sys_db s)\<lparr>reservations_tbl := reservations_tbl (sys_db s) @ [held_row c new_id e u q]\<rparr>" by simp
    moreover have empty: "waiting (getEventVirtualQueueKey e) (sys_redis ?s2) = []" using line by (simp add: r' repo_GetEvent_queue)
    moreover have "r_strs (sys_redis ?s2) (userCacheKey i) = r_strs (sys_redis s) (userCacheKey i)" for i
      using repo_BlockEvent_strs [OF keys_outside(6), where s = ?s1] repo_GetEvent_strs [OF keys_outside(5)] by (simp add: r')
    moreover note releaseQueueSlot_empty_line [OF empty, where c = c and u = u and repo = repo]
    ultimately show ?thesis by (metis (no_types, lifting))
  qed (use unblocked admitted read req in \<open>auto simp: replay_answer_def\<close>)
qed

section \<open>The three requests\<close>

text \<open>No call of the request fails and its client does not go away.\<close>

definition calls_work :: "circumstances \<Rightarrow> bool" where
  "calls_work k \<longleftrightarrow> k_gone k = None \<and> k_auth k GU_Query = Done \<and> k_queue k = (\<lambda>_. Done) \<and> k_reserve k = (\<lambda>_. Done) \<and> k_confirm k = (\<lambda>_. Done)"

text \<open>The user's account is there, the caches agree with the tables, and the token is the user's.\<close>

definition known_user :: "'l server \<Rightarrow> string \<Rightarrow> string \<Rightarrow> UserItem \<Rightarrow> 'l sys \<Rightarrow> bool" where
  "known_user sv u tok item s \<longleftrightarrow> jwt_laws (sv_jwt sv) \<and> token_for sv u tok
     \<and> coherent user_cached (user_rows (sys_db s)) (sys_redis s) \<and> user_rows (sys_db s) u = Some item"

lemma known_user_id: "known_user sv u tok item s \<Longrightarrow> ud_Id (UserDto_toDto item) = u"
  by (auto simp: known_user_def UserDto_toDto_def dest: user_rows_id)

lemma known_user_cong:
  assumes "known_user sv u tok item s" and "user_rows (sys_db s') = user_rows (sys_db s)"
    and "\<And>i. r_strs (sys_redis s') (userCacheKey i) = r_strs (sys_redis s) (userCacheKey i)"
  shows "known_user sv u tok item s'"
  using assms(1,2) coherent_users_cong [OF assms(3)] by (simp add: known_user_def)

lemma known_user_request:
  assumes "known_user sv u tok item s" and "calls_work k" and "open_handler sv k rt = None"
  obtains r' where "serve sv k rt (with_token tok body) s = user_handler sv k rt (Some (UserDto_toDto item)) (with_token tok body) (s\<lparr>sys_redis := r'\<rparr>)"
    and "known_user sv u tok item (s\<lparr>sys_redis := r'\<rparr>)" and "r_hashes r' = r_hashes (sys_redis s)" and "r_zsets r' = r_zsets (sys_redis s)"
    and "\<And>key. key \<notin> range userCacheKey \<Longrightarrow> r_strs r' key = r_strs (sys_redis s) key"
proof -
  have "jwt_laws (sv_jwt sv)" "token_for sv u tok" "coherent user_cached (user_rows (sys_db s)) (sys_redis s)"
    "user_rows (sys_db s) u = Some item" "k_auth k GU_Query = Done"
    using assms(1,2) by (simp_all add: known_user_def calls_work_def)
  from authenticated_request [OF this assms(3), of body] obtain r' where r':
    "serve sv k rt (with_token tok body) s = user_handler sv k rt (Some (UserDto_toDto item)) (with_token tok body) (s\<lparr>sys_redis := r'\<rparr>)"
    "coherent user_cached (user_rows (sys_db s)) r'" "r_hashes r' = r_hashes (sys_redis s)" "r_zsets r' = r_zsets (sys_redis s)"
    "\<And>key. key \<notin> range userCacheKey \<Longrightarrow> r_strs r' key = r_strs (sys_redis s) key" by blast
  moreover have "known_user sv u tok item (s\<lparr>sys_redis := r'\<rparr>)" using r'(2) assms(1) by (simp add: known_user_def)
  ultimately show thesis by (intro that)
qed

text \<open>The user stands outside: no slot, no place in the line, nobody waiting, and room in the gate.\<close>

definition gate_open :: "VirtualQueueRepository \<Rightarrow> clocks \<Rightarrow> string \<Rightarrow> string \<Rightarrow> cache \<Rightarrow> bool" where
  "gate_open repo c e u r \<longleftrightarrow> slot (c_redis c) e u r = None \<and> \<not> beating (c_redis c) e r u
     \<and> r_zsets r (getEventVirtualQueueKey e) = []
     \<and> rhlen (getEventWhitelisKey e) r < effective_cap (c_redis c) e (unat (vq_maxConcurrentQueue repo)) r
     \<and> Second \<le> vq_HeartbeatTTL repo \<and> Second \<le> vq_WhitelistTTL repo \<and> uuid_text u"

lemma gate_open_cong:
  assumes "gate_open repo c e u r" and "r_hashes r' = r_hashes r" "r_zsets r' = r_zsets r"
    and "\<And>key. key \<notin> range userCacheKey \<Longrightarrow> r_strs r' key = r_strs r key"
  shows "gate_open repo c e u r'"
proof -
  have "r_strs r' (getUserHeartbeatKey e u) = r_strs r (getUserHeartbeatKey e u)"
    "r_strs r' (getEventMaxConcurrentKey e) = r_strs r (getEventMaxConcurrentKey e)" using assms(4) keys_outside(3,4) by blast+
  then show ?thesis using assms(1-3) by (simp add: gate_open_def rexists_def rget_def effective_cap_def rhlen_def)
qed

lemma enqueue_request:
  assumes user: "known_user sv u tok item s" and work: "calls_work k" and gate: "gate_open (sv_queue sv) (k_clocks k) e u (sys_redis s)"
  obtains r' where "serve sv k R_Enqueue (with_token tok (Some (JObj [(''eventId'', JStr e)]))) s
      = (s\<lparr>sys_redis := r'\<rparr>, WriteJSONResponse StatusCreated (Some (PQueueStatus StatusWhitelisted)))"
    and "known_user sv u tok item (s\<lparr>sys_redis := r'\<rparr>)" and "waiting (getEventVirtualQueueKey e) r' = []"
    and "\<And>t. slot t e u r' = (if t < c_redis (k_clocks k) + 1000 * int (Seconds (vq_WhitelistTTL (sv_queue sv)))
          then Some (''1'', Some (c_redis (k_clocks k) + 1000 * int (Seconds (vq_WhitelistTTL (sv_queue sv))))) else None)"
    and "\<And>i. r_strs r' (eventIdCacheKey i) = r_strs (sys_redis s) (eventIdCacheKey i)"
    and "\<And>i. r_strs r' (getEventBlockedKey i) = r_strs (sys_redis s) (getEventBlockedKey i)"
proof -
  have protected: "open_handler sv k R_Enqueue = None" by simp
  obtain r1 where r1: "serve sv k R_Enqueue (with_token tok (Some (JObj [(''eventId'', JStr e)]))) s
      = user_handler sv k R_Enqueue (Some (UserDto_toDto item)) (with_token tok (Some (JObj [(''eventId'', JStr e)]))) (s\<lparr>sys_redis := r1\<rparr>)"
    and known: "known_user sv u tok item (s\<lparr>sys_redis := r1\<rparr>)" and same: "r_hashes r1 = r_hashes (sys_redis s)" "r_zsets r1 = r_zsets (sys_redis s)"
    "\<And>key. key \<notin> range userCacheKey \<Longrightarrow> r_strs r1 key = r_strs (sys_redis s) key"
    using known_user_request [OF user work protected, of "Some (JObj [(''eventId'', JStr e)])"] by metis
  have g: "gate_open (sv_queue sv) (k_clocks k) e u r1" using gate_open_cong [OF gate same] .
  let ?T = "Seconds (vq_WhitelistTTL (sv_queue sv))"
  obtain r2 where r2: "svc_Enqueue (sv_queue sv) (\<lambda>_. Done) (k_clocks k) e u (s\<lparr>sys_redis := r1\<rparr>) = (s\<lparr>sys_redis := r2\<rparr>, Inr (int ?T * Second))"
    "waiting (getEventVirtualQueueKey e) r2 = []"
    "\<And>t. slot t e u r2 = (if t < c_redis (k_clocks k) + 1000 * int ?T then Some (''1'', Some (c_redis (k_clocks k) + 1000 * int ?T)) else None)"
    "\<And>key. key \<noteq> getUserHeartbeatKey e u \<Longrightarrow> r_strs r2 key = r_strs r1 key"
    using Enqueue_admits_when_room [where c = "k_clocks k" and e = e and u = u and s = "s\<lparr>sys_redis := r1\<rparr>" and repo = "sv_queue sv"] g unfolding gate_open_def by auto
  have "0 < ?T" using g Seconds_pos by (simp add: gate_open_def)
  then have "serve sv k R_Enqueue (with_token tok (Some (JObj [(''eventId'', JStr e)]))) s
      = (s\<lparr>sys_redis := r2\<rparr>, WriteJSONResponse StatusCreated (Some (PQueueStatus StatusWhitelisted)))"
    using work r2(1) by (simp add: r1 enqueueHandler_def event_body known_user_id [OF user] calls_work_def del: DecodeRequestBody.simps)
  moreover have "known_user sv u tok item (s\<lparr>sys_redis := r2\<rparr>)" by (rule known_user_cong [OF known]) (simp_all add: r2(4))
  moreover have "r_strs r2 (eventIdCacheKey i) = r_strs (sys_redis s) (eventIdCacheKey i)"
    "r_strs r2 (getEventBlockedKey i) = r_strs (sys_redis s) (getEventBlockedKey i)" for i
    using same(3) [OF keys_outside(1)] same(3) [OF keys_outside(2)] by (simp_all add: r2(4))
  ultimately show thesis using r2(2,3) by (intro that)
qed

text \<open>The event is not flagged as sold out, and its cached copy, if there is one, is its row.\<close>

definition event_on_sale :: "'l server \<Rightarrow> clocks \<Rightarrow> string \<Rightarrow> 'l sys \<Rightarrow> bool" where
  "event_on_sale sv c e s \<longleftrightarrow> \<not> flag_local (sv_lru sv) (c_wall c) e s \<and> \<not> flag_shared (c_redis c) e s
     \<and> coherent event_cached (event_rows (sys_db s)) (sys_redis s)"

lemma event_on_sale_cong:
  assumes "event_on_sale sv c e s" and "\<And>i. r_strs r' (eventIdCacheKey i) = r_strs (sys_redis s) (eventIdCacheKey i)"
    and "\<And>i. r_strs r' (getEventBlockedKey i) = r_strs (sys_redis s) (getEventBlockedKey i)"
  shows "event_on_sale sv c e (s\<lparr>sys_redis := r'\<rparr>)"
  using assms(1) coherent_events_cong [OF assms(2)] by (simp add: event_on_sale_def rexists_def rget_def assms(3))

lemma reserve_request:
  assumes user: "known_user sv u tok item s" and work: "calls_work k" and left: "seats_left (k_clocks k) (k_new_id k) e u q (sys_db s)"
    and admitted: "slot (c_redis (k_clocks k)) e u (sys_redis s) = Some (v, Some d)" and sale: "event_on_sale sv (k_clocks k) e s"
    and line: "waiting (getEventVirtualQueueKey e) (sys_redis s) = []"
  obtains s' where "serve sv k (R_Reserve e) (with_token tok (Some (JObj [(''quantity'', JNum (dec (unat q)))]))) s
      = (s', WriteJSONResponse StatusOK (Some (PReservationItem (held_row (k_clocks k) (k_new_id k) e u q))))"
    and "known_user sv u tok item s'" and "\<And>t. slot t e u (sys_redis s') = None"
    and "sys_db s' = (sys_db s)\<lparr>reservations_tbl := reservations_tbl (sys_db s) @ [held_row (k_clocks k) (k_new_id k) e u q]\<rparr>"
proof -
  let ?body = "Some (JObj [(''quantity'', JNum (dec (unat q)))])"
  let ?req = "\<lparr>rer_EventId = e, rer_UserId = u, rer_Quantity = q, rer_IdempotencyKey = None\<rparr>"
  have protected: "open_handler sv k (R_Reserve e) = None" by simp
  obtain r1 where r1: "serve sv k (R_Reserve e) (with_token tok ?body) s
      = user_handler sv k (R_Reserve e) (Some (UserDto_toDto item)) (with_token tok ?body) (s\<lparr>sys_redis := r1\<rparr>)"
    and known: "known_user sv u tok item (s\<lparr>sys_redis := r1\<rparr>)" and same: "r_hashes r1 = r_hashes (sys_redis s)" "r_zsets r1 = r_zsets (sys_redis s)"
    "\<And>key. key \<notin> range userCacheKey \<Longrightarrow> r_strs r1 key = r_strs (sys_redis s) key"
    using known_user_request [OF user work protected, of ?body] by metis
  have sale1: "event_on_sale sv (k_clocks k) e (s\<lparr>sys_redis := r1\<rparr>)"
    using same(3) keys_outside(1,2) by (intro event_on_sale_cong [OF sale]) blast+
  obtain s' where s': "svc_ReserveEvent (sv_lru sv) (sv_queue sv) (\<lambda>_. Done) (k_clocks k) (k_rnd k) True None (k_new_id k) ?req (s\<lparr>sys_redis := r1\<rparr>)
      = (s', Inr (held_row (k_clocks k) (k_new_id k) e u q))"
    and db: "sys_db s' = (sys_db s)\<lparr>reservations_tbl := reservations_tbl (sys_db s) @ [held_row (k_clocks k) (k_new_id k) e u q]\<rparr>"
    and freed: "\<And>t. slot t e u (sys_redis s') = None" and cached: "\<And>i. r_strs (sys_redis s') (userCacheKey i) = r_strs r1 (userCacheKey i)"
    using svc_ReserveEvent_sells [where s = "s\<lparr>sys_redis := r1\<rparr>" and e = e and u = u and q = q and L = "sv_lru sv" and req = ?req
        and c = "k_clocks k" and new_id = "k_new_id k" and v = v and d = d and repo = "sv_queue sv" and rnd = "k_rnd k"]
      left admitted line same(1,2) sale1 unfolding event_on_sale_def by auto
  have q: "\<not> q < 1" using left by (auto simp: seats_left_def word_less_1)
  have "serve sv k (R_Reserve e) (with_token tok ?body) s = (s', WriteJSONResponse StatusOK (Some (PReservationItem (held_row (k_clocks k) (k_new_id k) e u q))))"
    using work s' q by (simp add: r1 reserveEventHandler_def quantity_body known_user_id [OF user] calls_work_def del: DecodeRequestBody.simps)
  moreover have "known_user sv u tok item s'"
    by (rule known_user_cong [OF known]) (simp_all add: db cached user_rows_def fun_eq_iff)
  ultimately show thesis using db freed by (intro that)
qed

lemma confirm_request:
  assumes user: "known_user sv u tok item s" and work: "calls_work k"
    and row: "reservations_tbl (sys_db s) = rs @ [held_row c new_id e u q]" and fresh: "new_id \<notin> set (map res_Id rs)"
    and in_time: "c_pg (k_clocks k) < c_wall c + reservationTTL"
  obtains s' where "serve sv k (R_Confirm new_id) (with_token tok None) s = (s', WriteJSONResponse StatusCreated None)"
    and "reservations_tbl (sys_db s') = rs @ [set_status StatusConfirmed (c_pg (k_clocks k)) (c_wall (k_clocks k)) (held_row c new_id e u q)]"
    and "r_hashes (sys_redis s') = r_hashes (sys_redis s)"
proof -
  have protected: "open_handler sv k (R_Confirm new_id) = None" by simp
  obtain r1 where r1: "serve sv k (R_Confirm new_id) (with_token tok None) s
      = user_handler sv k (R_Confirm new_id) (Some (UserDto_toDto item)) (with_token tok None) (s\<lparr>sys_redis := r1\<rparr>)"
    and same: "r_hashes r1 = r_hashes (sys_redis s)"
    using known_user_request [OF user work protected, of None] by metis
  let ?c = "k_clocks k"
  let ?db = "(sys_db s)\<lparr>reservations_tbl := rs @ [set_status StatusConfirmed (c_pg ?c) (c_wall ?c) (held_row c new_id e u q)]\<rparr>"
  have "svc_ConfirmReservation (\<lambda>_. Done) ?c u new_id (s\<lparr>sys_redis := r1\<rparr>) = (s\<lparr>sys_redis := r1, sys_db := ?db\<rparr>, Inr ())"
    using pg_Update_confirms [OF fresh in_time, of "sys_db s" e u q "c_wall ?c"] row
    by (simp add: svc_ConfirmReservation_def repo_ConfirmReservation_def)
  then have "serve sv k (R_Confirm new_id) (with_token tok None) s = (s\<lparr>sys_redis := r1, sys_db := ?db\<rparr>, WriteJSONResponse StatusCreated None)"
    using work by (simp add: r1 confirmReservationHandler_def known_user_id [OF user] calls_work_def)
  then show thesis by (rule that) (simp_all add: same)
qed

lemma confirmed_seats:
  "active_seats t e (rs @ [set_status StatusConfirmed now wall (held_row c new_id e u q)]) = active_seats t e rs + unat q"
  by (simp add: active_seats_def seats_where_def set_status_def held_row_def active_at_def)

section \<open>Properties\<close>

text \<open>
  C5: an undisturbed purchase succeeds. A registered user with a token, who is outside an open gate with nobody waiting, for
  an event that is on sale with enough seats left for the event and for the user: enqueuing answers 201 \<open>whitelisted\<close>;
  reserving before the slot runs out answers 200 with a hold of ten minutes; confirming before the hold runs out
  answers 201. In the end the table has exactly one more row, the confirmed one, whose seats count for the event from
  then on, and the slot is free again, whether or not the sale was the one that filled the event.
\<close>

theorem undisturbed_purchase_succeeds:
  assumes user: "known_user sv u tok item s" and work: "calls_work k1" "calls_work k2" "calls_work k3"
    and gate: "gate_open (sv_queue sv) (k_clocks k1) e u (sys_redis s)" and sale: "event_on_sale sv (k_clocks k2) e s"
    and left: "seats_left (k_clocks k2) (k_new_id k2) e u q (sys_db s)"
    and slot_time: "c_redis (k_clocks k2) < c_redis (k_clocks k1) + 1000 * int (Seconds (vq_WhitelistTTL (sv_queue sv)))"
    and hold_time: "c_pg (k_clocks k3) < c_wall (k_clocks k2) + reservationTTL"
  shows "\<exists>s1 s2 s3. serve sv k1 R_Enqueue (with_token tok (Some (JObj [(''eventId'', JStr e)]))) s
        = (s1, WriteJSONResponse StatusCreated (Some (PQueueStatus StatusWhitelisted)))
    \<and> serve sv k2 (R_Reserve e) (with_token tok (Some (JObj [(''quantity'', JNum (dec (unat q)))]))) s1
        = (s2, WriteJSONResponse StatusOK (Some (PReservationItem (held_row (k_clocks k2) (k_new_id k2) e u q))))
    \<and> serve sv k3 (R_Confirm (k_new_id k2)) (with_token tok None) s2 = (s3, WriteJSONResponse StatusCreated None)
    \<and> reservations_tbl (sys_db s3) = reservations_tbl (sys_db s)
        @ [set_status StatusConfirmed (c_pg (k_clocks k3)) (c_wall (k_clocks k3)) (held_row (k_clocks k2) (k_new_id k2) e u q)]
    \<and> (\<forall>t. active_seats t e (reservations_tbl (sys_db s3)) = active_seats t e (reservations_tbl (sys_db s)) + unat q)
    \<and> (\<forall>t. slot t e u (sys_redis s3) = None)"
proof -
  obtain r1 where one: "serve sv k1 R_Enqueue (with_token tok (Some (JObj [(''eventId'', JStr e)]))) s
      = (s\<lparr>sys_redis := r1\<rparr>, WriteJSONResponse StatusCreated (Some (PQueueStatus StatusWhitelisted)))"
    and known1: "known_user sv u tok item (s\<lparr>sys_redis := r1\<rparr>)" and line: "waiting (getEventVirtualQueueKey e) r1 = []"
    and slots: "\<And>t. slot t e u r1 = (if t < c_redis (k_clocks k1) + 1000 * int (Seconds (vq_WhitelistTTL (sv_queue sv)))
          then Some (''1'', Some (c_redis (k_clocks k1) + 1000 * int (Seconds (vq_WhitelistTTL (sv_queue sv))))) else None)"
    and strs: "\<And>i. r_strs r1 (eventIdCacheKey i) = r_strs (sys_redis s) (eventIdCacheKey i)"
      "\<And>i. r_strs r1 (getEventBlockedKey i) = r_strs (sys_redis s) (getEventBlockedKey i)"
    by (rule enqueue_request [OF user work(1) gate]) blast
  let ?s1 = "s\<lparr>sys_redis := r1\<rparr>" and ?hold = "held_row (k_clocks k2) (k_new_id k2) e u q"
  have admitted: "slot (c_redis (k_clocks k2)) e u (sys_redis ?s1) = Some (''1'', Some (c_redis (k_clocks k1) + 1000 * int (Seconds (vq_WhitelistTTL (sv_queue sv)))))"
    using slot_time slots by simp
  have left1: "seats_left (k_clocks k2) (k_new_id k2) e u q (sys_db ?s1)" using left by simp
  have line1: "waiting (getEventVirtualQueueKey e) (sys_redis ?s1) = []" using line by simp
  obtain s2 where two: "serve sv k2 (R_Reserve e) (with_token tok (Some (JObj [(''quantity'', JNum (dec (unat q)))]))) ?s1
      = (s2, WriteJSONResponse StatusOK (Some (PReservationItem ?hold)))"
    and known2: "known_user sv u tok item s2" and freed: "\<And>t. slot t e u (sys_redis s2) = None"
    and db2: "sys_db s2 = (sys_db ?s1)\<lparr>reservations_tbl := reservations_tbl (sys_db ?s1) @ [?hold]\<rparr>"
    by (rule reserve_request [OF known1 work(2) left1 admitted event_on_sale_cong [OF sale strs] line1]) blast
  have rows2: "reservations_tbl (sys_db s2) = reservations_tbl (sys_db s) @ [?hold]" by (simp add: db2)
  have fresh: "k_new_id k2 \<notin> set (map res_Id (reservations_tbl (sys_db s)))" using left by (simp add: seats_left_def)
  obtain s3 where three: "serve sv k3 (R_Confirm (k_new_id k2)) (with_token tok None) s2 = (s3, WriteJSONResponse StatusCreated None)"
    and rows3: "reservations_tbl (sys_db s3) = reservations_tbl (sys_db s) @ [set_status StatusConfirmed (c_pg (k_clocks k3)) (c_wall (k_clocks k3)) ?hold]"
    and hash3: "r_hashes (sys_redis s3) = r_hashes (sys_redis s2)"
    by (rule confirm_request [OF known2 work(3) rows2 fresh hold_time]) blast
  have "slot t e u (sys_redis s3) = None" for t using freed hash3 by simp
  moreover have "active_seats t e (reservations_tbl (sys_db s3)) = active_seats t e (reservations_tbl (sys_db s)) + unat q" for t
    unfolding rows3 by (rule confirmed_seats)
  ultimately show ?thesis using one two three rows3 by (intro exI conjI allI)
qed

definition demo_buyer :: string where
  "demo_buyer = ''0b1f7c52-9a3e-4c1d-8f60-2d5e7a9b4c31''"

definition demo_shop_server :: "(string \<Rightarrow> time option) server" where
  "demo_shop_server = demo_server\<lparr>sv_queue := demo_repo\<lparr>vq_maxConcurrentQueue := 1\<rparr>\<rparr>"

abbreviation demo_shop :: "(string \<Rightarrow> time option) sys" where
  "demo_shop \<equiv> \<lparr>sys_db = demo_db\<lparr>users_tbl := [demo_user demo_buyer ''a@x.io'']\<rparr>, sys_redis = empty_redis, sys_lru = (\<lambda>_. None)\<rparr>"

lemma demo_shop_ready:
  "known_user demo_shop_server demo_buyer (demo_token ''k'' \<lparr>uc_Name = [], uc_Email = [], uc_Subject = demo_buyer\<rparr>) (ur_item (demo_user demo_buyer ''a@x.io'')) demo_shop"
  "calls_work demo_calls" "gate_open (sv_queue demo_shop_server) demo_clock ''e1'' demo_buyer (sys_redis demo_shop)" "event_on_sale demo_shop_server demo_clock ''e1'' demo_shop"
  "seats_left demo_clock ''r9'' ''e1'' demo_buyer 1 (sys_db demo_shop)"
proof -
  have "coherent user_cached rows empty_redis" "coherent event_cached rows' empty_redis" for rows rows'
    by (simp_all add: coherent_def user_cached_def rc_GetUser_def event_cached_def rc_GetEvent_def rget_def empty_redis_def)
  then show "known_user demo_shop_server demo_buyer (demo_token ''k'' \<lparr>uc_Name = [], uc_Email = [], uc_Subject = demo_buyer\<rparr>) (ur_item (demo_user demo_buyer ''a@x.io'')) demo_shop"
    and "event_on_sale demo_shop_server demo_clock ''e1'' demo_shop"
    using demo_jwt_laws
    by (auto simp: known_user_def token_for_def demo_shop_server_def demo_server_def demo_jwt_def user_rows_def demo_defs event_on_sale_def table_lru_def rexists_def rget_def empty_redis_def)
  show "calls_work demo_calls" by (simp add: calls_work_def demo_calls_def)
  show "gate_open (sv_queue demo_shop_server) demo_clock ''e1'' demo_buyer (sys_redis demo_shop)"
    by (simp add: gate_open_def demo_shop_server_def demo_repo_def empty_redis_def rexists_def rget_def effective_cap_def rhlen_def hfind_def uuid_text_def demo_buyer_def)
  show "seats_left demo_clock ''r9'' ''e1'' demo_buyer 1 (sys_db demo_shop)"
    by (simp add: seats_left_def schema_defs demo_defs demo_emails)
qed

theorem undisturbed_purchase_succeeds_witness:
  "\<exists>s1 s2 s3. serve demo_shop_server demo_calls R_Enqueue
        (with_token (demo_token ''k'' \<lparr>uc_Name = [], uc_Email = [], uc_Subject = demo_buyer\<rparr>) (Some (JObj [(''eventId'', JStr ''e1'')]))) demo_shop
        = (s1, WriteJSONResponse StatusCreated (Some (PQueueStatus StatusWhitelisted)))
    \<and> serve demo_shop_server demo_calls (R_Confirm ''r9'')
        (with_token (demo_token ''k'' \<lparr>uc_Name = [], uc_Email = [], uc_Subject = demo_buyer\<rparr>) None) s2 = (s3, WriteJSONResponse StatusCreated None)
    \<and> (\<forall>t. active_seats t ''e1'' (reservations_tbl (sys_db s3)) = 1)"
proof -
  have clocks: "k_clocks demo_calls = demo_clock" "k_new_id demo_calls = ''r9''"
    by (simp_all add: demo_calls_def)
  have "c_redis demo_clock < c_redis demo_clock + 1000 * int (Seconds (vq_WhitelistTTL (sv_queue demo_shop_server)))"
    by (simp add: demo_shop_server_def demo_repo_def Seconds_def)
  moreover have "c_pg demo_clock < c_wall demo_clock + reservationTTL" by (simp add: demo_clock_def reservationTTL_def)
  ultimately obtain s1 s2 s3 where
    "serve demo_shop_server demo_calls R_Enqueue
        (with_token (demo_token ''k'' \<lparr>uc_Name = [], uc_Email = [], uc_Subject = demo_buyer\<rparr>) (Some (JObj [(''eventId'', JStr ''e1'')]))) demo_shop
        = (s1, WriteJSONResponse StatusCreated (Some (PQueueStatus StatusWhitelisted)))"
    and "serve demo_shop_server demo_calls (R_Confirm ''r9'')
        (with_token (demo_token ''k'' \<lparr>uc_Name = [], uc_Email = [], uc_Subject = demo_buyer\<rparr>) None) s2 = (s3, WriteJSONResponse StatusCreated None)"
    and "\<forall>t. active_seats t ''e1'' (reservations_tbl (sys_db s3)) = active_seats t ''e1'' (reservations_tbl (sys_db demo_shop)) + unat (1 :: u32)"
    using undisturbed_purchase_succeeds [where ?k1.0 = demo_calls and ?k2.0 = demo_calls and ?k3.0 = demo_calls, unfolded clocks, OF demo_shop_ready(1,2,2,2,3,4,5)]
    by blast
  moreover have "active_seats t ''e1'' (reservations_tbl (sys_db demo_shop)) = 0" for t by (simp add: demo_defs)
  ultimately show ?thesis by auto
qed

end
