(* ===== verification/Site.thy ===== *)
theory Site
  imports AdminProperties Journey
begin

text \<open>
  The whole site: the API, the demo routes that \<open>NewHandler\<close> adds in demo mode, and the runs that they start, as
  one state machine. A request is one step; what happens between the statements of concurrent transactions is
  the theory \<open>Interleaving\<close>. The demo routes can oversell an event in one way, a simulation that lowers the capacity without
  deleting the reservations (lemma \<open>failed_simulation_oversells\<close>); \<open>prudent\<close> is what rules it out.
\<close>

section \<open>Steps\<close>

text \<open>
  A simulation request is prudent if it leaves the capacity alone, asks for a capacity that the active seats of the
  event fit into, or resets the event and the three calls up to the delete are carried out and answered.
\<close>

definition prudent :: "time \<Rightarrow> 'l sim_env \<Rightarrow> request \<Rightarrow> 'l sys \<Rightarrow> bool" where
  "prudent t en rq s \<longleftrightarrow>
     (case DecodeRequestBody SimulateRequest_fields zero_SimulateRequest (rq_body rq) of
        Inl _ \<Rightarrow> True
      | Inr req \<Rightarrow> sq_Capacity req = 0
          \<or> active_seats t (sq_EventId req) (reservations_tbl (sys_db s)) \<le> unat (sq_Capacity req)
          \<or> sq_Reset req \<and> se_flt en SC_Capacity = Done \<and> se_flt en SC_Invalidate = Done \<and> se_flt en SC_Delete = Done)"

text \<open>
  One request to a demo route, or one turn of a stream, at the time \<open>t\<close> of the database. \<open>careful\<close> restricts the simulation
  requests to prudent ones; without it every request is possible.
\<close>

inductive demo_request :: "bool \<Rightarrow> 'l server \<Rightarrow> time \<Rightarrow> 'l admin \<Rightarrow> 'l admin \<Rightarrow> bool" for careful sv t where
  mint_users: "c_pg c = t \<Longrightarrow> demo_request careful sv t a (fst (mintUsersHandler flt c rnd uuids ids rq a))"
| mint_events: "c_pg c = t \<Longrightarrow> demo_request careful sv t a (fst (mintEventsHandler flt c rnd ids rq a))"
| reset: "demo_request careful sv t a (fst (resetHandler (sv_lru sv) flt rq a))"
| simulate: "c_pg (se_clocks en) = t \<Longrightarrow> (careful \<longrightarrow> prudent t en rq (ad_sys a)) \<Longrightarrow> demo_request careful sv t a (fst (simulateHandler en rq a))"
| snapshot: "demo_request careful sv t a (fst (simulateSnapshotHandler flt c rnd gone progress runId a))"
| stream_turn: "demo_request careful sv t a (a\<lparr>ad_sys := fst (take_snapshot cfg flt c rnd gone r finished (ad_sys a))\<rparr>)"
| cancel: "demo_request careful sv t a (fst (simulateCancelHandler runId a))"

text \<open>
  The site: steps of the API, requests to the demo routes, the goroutines of the runs with the override that a run
  sets at its beginning and clears at its end, and the registry's own changes when a run ends or its time is up.
\<close>

inductive site_step :: "bool \<Rightarrow> 'l server \<Rightarrow> time \<times> 'l admin \<Rightarrow> time \<times> 'l admin \<Rightarrow> bool" for careful sv where
  api: "http_step sv (t, ad_sys a) (t', s') \<Longrightarrow> site_step careful sv (t, a) (t', a\<lparr>ad_sys := s'\<rparr>)"
| demo: "demo_request careful sv t a a' \<Longrightarrow> site_step careful sv (t, a) (t, a')"
| run_begins: "site_step careful sv (t, a) (t, a\<lparr>ad_sys := fst (run_begin cfg x (ad_sys a))\<rparr>)"
| run_goes_on: "sim_step (runner_client sv pg_text cfg) pg_text cfg (\<lambda>_ _. False) m m' \<Longrightarrow> sm_world m = (t, ad_sys a) \<Longrightarrow> sm_world m' = (t', s') \<Longrightarrow>
    site_step careful sv (t, a) (t', a\<lparr>ad_sys := s'\<rparr>)"
| run_ends: "site_step careful sv (t, a) (t, a\<lparr>ad_sys := run_end cfg x c (ad_sys a)\<rparr>)"
| registry: "site_step careful sv (t, a) (t, a\<lparr>ad_reg := reg\<rparr>)"

text \<open>The same as others see it, who do not look into the registry.\<close>

definition site_env :: "bool \<Rightarrow> 'l server \<Rightarrow> 'l world \<Rightarrow> 'l world \<Rightarrow> bool" where
  "site_env careful sv w w' \<longleftrightarrow> (\<exists>reg a'. site_step careful sv (fst w, \<lparr>ad_sys = snd w, ad_reg = reg\<rparr>) (fst w', a') \<and> ad_sys a' = snd w')"

section \<open>The demo routes keep the store sound\<close>

lemma insert_events_store: "insert_events now ids nes db = Inr (db', items) \<Longrightarrow> store_inv (t, db) \<Longrightarrow> store_inv (t, db')"
proof (induction nes arbitrary: ids db items)
  case (Cons ne nes)
  obtain db1 i where i: "insert_event now (hd ids) ne db = Inr (db1, i)"
    using Cons.prems(1) by (cases "insert_event now (hd ids) ne db") auto
  obtain js where "insert_events now (tl ids) nes db1 = Inr (db', js)"
    using Cons.prems(1) i by (cases "insert_events now (tl ids) nes db1") auto
  then show ?case using Cons.IH new_event_inv [OF Cons.prems(2) i] by blast
qed simp

lemma CreateEvents_store:
  assumes "store_inv (t, db)"
  shows "store_inv (t, fst (pg_CreateEvents flt now ids nes db))"
  by (cases rule: pg_CreateEvents_cases [of flt now ids nes db]) (use assms insert_events_store in auto)

lemma mint_store:
  assumes "store_inv (t, sys_db (ad_sys a))"
  shows "store_inv (t, sys_db (ad_sys (fst (mintUsersHandler flt c rnd uuids ids rq a))))"
    and "store_inv (t, sys_db (ad_sys (fst (mintEventsHandler flt' c' rnd' ids' rq' a))))"
proof -
  have "store_inv (t, fst (pg_CreateUsers flt now ids us (sys_db (ad_sys a))))" for flt now ids us
    using CreateUsers_store(1) [OF assms] by (metis prod.collapse)
  then show "store_inv (t, sys_db (ad_sys (fst (mintUsersHandler flt c rnd uuids ids rq a))))"
    using assms by (simp add: mintUsersHandler_def split_beta split: sum.split)
  show "store_inv (t, sys_db (ad_sys (fst (mintEventsHandler flt' c' rnd' ids' rq' a))))"
    using assms CreateEvents_store [OF assms] by (simp add: mintEventsHandler_def split_beta split: sum.split)
qed

lemma reset_store:
  assumes "store_inv (t, sys_db (ad_sys a))"
  shows "store_inv (t, sys_db (ad_sys (fst (resetHandler L flt rq a))))"
proof -
  have "store_inv (t, sys_db (fst (admin_reset L flt scope (ad_sys a))))" for scope
  proof (cases "admin_reset L flt scope (ad_sys a)")
    case (Pair s' out)
    then show ?thesis using assms store_inv_truncate [OF assms, of scope] reset_error [of L flt scope "ad_sys a" s'] reset_done(1) [of L flt scope "ad_sys a" s']
      by (cases out) auto
  qed
  then show ?thesis using assms by (simp add: resetHandler_def Let_def split_beta split: sum.split)
qed

lemma store_inv_capacity_fits:
  assumes "store_inv (t, db)" and "0 < cap" "unat cap < 2 ^ 31" and "active_seats t e (reservations_tbl db) \<le> unat cap"
  shows "store_inv (t, db\<lparr>events_tbl := map (set_capacity now cap e) (events_tbl db)\<rparr>)"
proof -
  have wf: "pg_wf db" and cap: "within_capacity t db" and quota: "within_quota t db" using assms(1) by (simp_all add: store_inv_def)
  have "reservations_ok (db\<lparr>events_tbl := map (set_capacity now cap e) (events_tbl db)\<rparr>)"
    using wf unfolding pg_wf_def reservations_ok_def by (simp add: image_image)
  moreover have "0 < unat cap" using assms(2) by (simp add: word_less_nat_alt)
  then have "events_ok (map (set_capacity now cap e) (events_tbl db))"
    using wf assms(3) by (auto simp: pg_wf_def events_ok_def list_all_iff event_row_ok_def int4_pos_def o_def)
  ultimately show ?thesis using wf cap quota assms(4)
    by (auto simp: store_inv_def pg_wf_def within_capacity_def within_quota_def list_all_iff)
qed

text \<open>What the two statements of a simulation request leave of the tables, whatever fails.\<close>

lemma prepare_capacity_tables:
  obtains "sys_db (fst (prepare_capacity en req s)) = sys_db s"
  | "0 < sq_Capacity req" "unat (sq_Capacity req) < 2 ^ 31"
    "sys_db (fst (prepare_capacity en req s)) =
      (sys_db s)\<lparr>events_tbl := map (set_capacity (c_pg (se_clocks en)) (sq_Capacity req) (sq_EventId req)) (events_tbl (sys_db s))\<rparr>"
proof (cases "sq_Capacity req = 0 \<or> 2 ^ 31 \<le> unat (sq_Capacity req) \<or> (\<exists>err. se_flt en SC_Capacity = NotSent err)")
  case True
  then show thesis using that(1) by (auto simp: prepare_capacity_def update_capacity_def)
next
  case False
  then have "sys_db (fst (prepare_capacity en req s)) =
      (sys_db s)\<lparr>events_tbl := map (set_capacity (c_pg (se_clocks en)) (sq_Capacity req) (sq_EventId req)) (events_tbl (sys_db s))\<rparr>"
    by (cases "se_flt en SC_Capacity") (simp_all add: prepare_capacity_def update_capacity_def split_beta split: sum.split)
  then show thesis using that(2) False by (simp add: word_gt_0)
qed

lemma prepare_reset_tables:
  obtains "sys_db (fst (prepare_reset en req s)) = sys_db s"
  | "sys_db (fst (prepare_reset en req s)) = (sys_db s)\<lparr>reservations_tbl := without_event (sq_EventId req) (reservations_tbl (sys_db s))\<rparr>"
proof (cases "\<not> sq_Reset req \<or> (\<exists>err. se_flt en SC_Delete = NotSent err)")
  case True
  then show thesis using that(1) by (auto simp: prepare_reset_def delete_reservations_def)
next
  case False
  then show thesis using that(2)
    by (cases "se_flt en SC_Delete") (simp_all add: prepare_reset_def delete_reservations_def split_beta split: sum.split)
qed

lemma prepare_reset_store:
  assumes "store_inv (t, sys_db s)"
  shows "store_inv (t, sys_db (fst (prepare_reset en req s)))"
  by (cases rule: prepare_reset_tables [of en req s]) (use assms store_inv_without_event in auto)

lemma simulate_start_store:
  assumes "store_inv (t, sys_db (ad_sys a))"
  shows "store_inv (t, sys_db (ad_sys (fst (simulate_start en req transport a))))"
proof -
  obtain db' res where mint: "mintSimUsers (\<lambda>x. se_flt en (SC_Mint x)) (c_pg (se_clocks en)) (se_uuids en) (se_ids en) (nat (sq_Users req)) (sys_db (ad_sys a)) = (db', res)"
    by fastforce
  have "store_inv (t, db')" using CreateUsers_store(1) [OF assms] mint by (simp add: mintSimUsers_def)
  moreover have "sys_db (ad_sys (fst (simulate_start en req transport a))) = db'"
    unfolding simulate_start_def mint Let_def by (simp split: sum.split prod.split)
  ultimately show ?thesis by simp
qed

text \<open>With a reset whose delete is carried out, the new capacity does not matter.\<close>

lemma prepared_reset_store:
  assumes "store_inv (t, sys_db s)" and "0 < sq_Capacity req" and "sq_Reset req"
    and "se_flt en SC_Capacity = Done" "se_flt en SC_Invalidate = Done" "se_flt en SC_Delete = Done"
  obtains s1 where "prepare_capacity en req s = (s1, Inr ())" "store_inv (t, sys_db (fst (prepare_reset en req s1)))"
  | err where "prepare_capacity en req s = (s, Inl err)"
proof (cases "unat (sq_Capacity req) < 2 ^ 31")
  case True
  let ?rows = "map (set_capacity (c_pg (se_clocks en)) (sq_Capacity req) (sq_EventId req)) (events_tbl (sys_db s))"
  obtain s1 where s1: "prepare_capacity en req s = (s1, Inr ())" "sys_db s1 = (sys_db s)\<lparr>events_tbl := ?rows\<rparr>"
    using True assms(2,4,5) by (auto simp: prepare_capacity_def update_capacity_def rc_InvalidateCache_def word_gt_0 split_beta)
  have "sys_db (fst (prepare_reset en req s1)) = (sys_db s1)\<lparr>reservations_tbl := without_event (sq_EventId req) (reservations_tbl (sys_db s1))\<rparr>"
    using assms(3,6) by (simp add: prepare_reset_def delete_reservations_def split_beta split: sum.split)
  then show thesis using that(1) [OF s1(1)] store_inv_new_capacity [OF assms(1,2) True] by (simp add: s1(2))
next
  case False
  then show thesis using that(2) assms(2) by (simp add: prepare_capacity_def update_capacity_def word_gt_0)
qed

lemma simulate_store:
  assumes inv: "store_inv (t, sys_db (ad_sys a))" and "prudent t en rq (ad_sys a)"
  shows "store_inv (t, sys_db (ad_sys (fst (simulateHandler en rq a))))"
proof (cases "DecodeRequestBody SimulateRequest_fields zero_SimulateRequest (rq_body rq)")
  case (Inl err)
  then show ?thesis using inv by (simp add: simulateHandler_def)
next
  case (Inr req)
  let ?s1 = "fst (prepare_capacity en req (ad_sys a))" and ?r1 = "snd (prepare_capacity en req (ad_sys a))"
  let ?s2 = "fst (prepare_reset en req ?s1)"
  have "store_inv (t, sys_db ?s1) \<and> store_inv (t, sys_db ?s2) \<or> ?r1 = Inr () \<and> store_inv (t, sys_db ?s2)"
  proof (cases "sq_Capacity req = 0 \<or> active_seats t (sq_EventId req) (reservations_tbl (sys_db (ad_sys a))) \<le> unat (sq_Capacity req)")
    case True
    have "store_inv (t, sys_db ?s1)"
      by (cases rule: prepare_capacity_tables [of en req "ad_sys a"]) (use True inv store_inv_capacity_fits [OF inv] in auto)
    then show ?thesis using prepare_reset_store by blast
  next
    case False
    then have "0 < sq_Capacity req" "sq_Reset req" "se_flt en SC_Capacity = Done" "se_flt en SC_Invalidate = Done" "se_flt en SC_Delete = Done"
      using assms(2) by (auto simp: prudent_def Inr word_gt_0)
    then show ?thesis
      by (rule prepared_reset_store [OF inv]) (use inv prepare_reset_store [OF inv] in auto)
  qed
  then show ?thesis using inv
    by (auto simp: simulateHandler_def Inr Let_def split_beta intro!: simulate_start_store split: sum.splits)
qed

lemma take_snapshot_db [simp]: "sys_db (fst (take_snapshot cfg flt c rnd gone r fin s)) = sys_db s"
  by (simp add: take_snapshot_def Let_def split_beta)

lemma demo_request_store: "demo_request True sv t a a' \<Longrightarrow> store_inv (t, sys_db (ad_sys a)) \<Longrightarrow> store_inv (t, sys_db (ad_sys a'))"
proof (induction rule: demo_request.induct)
  case (snapshot a flt c rnd gone progress runId)
  then show ?case by (simp add: simulateSnapshotHandler_def split_beta split: sum.split)
next
  case (cancel a runId)
  then show ?case by (simp add: simulateCancelHandler_def split: sum.split prod.split)
qed (simp_all add: mint_store reset_store simulate_store)

lemma run_bracket_store [simp]: "sys_db (fst (run_begin cfg x s)) = sys_db s" "sys_db (run_end cfg x c s) = sys_db s"
  by (simp_all add: run_begin_def run_end_def split: prod.split)

lemma site_step_store: "site_step True sv z z' \<Longrightarrow> store_inv (fst z, sys_db (ad_sys (snd z))) \<Longrightarrow> store_inv (fst z', sys_db (ad_sys (snd z')))"
proof (induction rule: site_step.induct)
  case (api t a t' s')
  then show ?case using http_step_inv [OF api(1)] by simp
next
  case demo
  then show ?case using demo_request_store by simp
next
  case (run_goes_on pg_text cfg m m' t a t' s')
  then show ?case using runner_client_keeps [OF r_into_rtranclp [where r = "sim_step _ _ _ _", OF run_goes_on(1)]] by simp
qed simp_all

interpretation site: inductive_invariant "\<lambda>(t, a). store_inv (t, sys_db (ad_sys a))" "site_step True sv" "\<lambda>(t, a). store_inv (t, sys_db (ad_sys a))" for sv
  by unfold_locales (auto dest: site_step_store)

lemma site_env_store: "site_env True sv w w' \<Longrightarrow> world_inv w \<Longrightarrow> world_inv w'"
  by (auto simp: site_env_def dest!: site_step_store)

lemma site_envs_store: "(site_env True sv)\<^sup>*\<^sup>* w w' \<Longrightarrow> world_inv w \<Longrightarrow> world_inv w'"
  by (induction rule: rtranclp_induct) (auto intro: site_env_store)

lemma http_step_site: "http_step sv w w' \<Longrightarrow> site_env careful sv w w'"
  using site_step.api [of sv "fst w" "\<lparr>ad_sys = snd w, ad_reg = NewRegistry\<rparr>" "fst w'" "snd w'"] unfolding site_env_def by force

section \<open>A purchase and a run for examples\<close>

abbreviation demo_pass :: string where
  "demo_pass \<equiv> demo_token ''k'' \<lparr>uc_Name = [], uc_Email = [], uc_Subject = demo_buyer\<rparr>"

lemma demo_shop_inv: "store_inv (5, sys_db demo_shop)"
  by (simp add: store_inv_def schema_defs demo_defs demo_emails within_capacity_def within_quota_def)

text \<open>The buyer is admitted and holds a seat after two requests.\<close>

lemma demo_requests:
  obtains r1 s2 where "serve demo_shop_server demo_calls R_Enqueue (with_token demo_pass (Some (JObj [(''eventId'', JStr ''e1'')]))) demo_shop
      = (demo_shop\<lparr>sys_redis := r1\<rparr>, WriteJSONResponse StatusCreated (Some (PQueueStatus StatusWhitelisted)))"
    and "serve demo_shop_server demo_calls (R_Reserve ''e1'') (with_token demo_pass (Some (JObj [(''quantity'', JNum (dec (unat (1 :: u32))))]))) (demo_shop\<lparr>sys_redis := r1\<rparr>)
      = (s2, WriteJSONResponse StatusOK (Some (PReservationItem (held_row demo_clock ''r9'' ''e1'' demo_buyer 1))))"
    and "known_user demo_shop_server demo_buyer demo_pass (ur_item (demo_user demo_buyer ''a@x.io'')) s2"
    and "reservations_tbl (sys_db s2) = [held_row demo_clock ''r9'' ''e1'' demo_buyer 1]"
    and "events_tbl (sys_db s2) = events_tbl demo_db"
proof -
  have clocks: "k_clocks demo_calls = demo_clock" "k_new_id demo_calls = ''r9''" by (simp_all add: demo_calls_def)
  let ?d = "c_redis demo_clock + 1000 * int (Seconds (vq_WhitelistTTL (sv_queue demo_shop_server)))"
  obtain r1 where one: "serve demo_shop_server demo_calls R_Enqueue (with_token demo_pass (Some (JObj [(''eventId'', JStr ''e1'')]))) demo_shop
      = (demo_shop\<lparr>sys_redis := r1\<rparr>, WriteJSONResponse StatusCreated (Some (PQueueStatus StatusWhitelisted)))"
    and known: "known_user demo_shop_server demo_buyer demo_pass (ur_item (demo_user demo_buyer ''a@x.io'')) (demo_shop\<lparr>sys_redis := r1\<rparr>)"
    and line: "waiting (getEventVirtualQueueKey ''e1'') r1 = []" and slots: "\<And>t. slot t ''e1'' demo_buyer r1 = (if t < ?d then Some (''1'', Some ?d) else None)"
    and strs: "\<And>i. r_strs r1 (eventIdCacheKey i) = r_strs (sys_redis demo_shop) (eventIdCacheKey i)"
      "\<And>i. r_strs r1 (getEventBlockedKey i) = r_strs (sys_redis demo_shop) (getEventBlockedKey i)"
    by (rule enqueue_request [where k = demo_calls, unfolded clocks, OF demo_shop_ready(1,2,3)]) blast
  have admitted: "slot (c_redis demo_clock) ''e1'' demo_buyer (sys_redis (demo_shop\<lparr>sys_redis := r1\<rparr>)) = Some (''1'', Some ?d)"
    by (simp add: slots demo_shop_server_def demo_repo_def Seconds_def)
  have left: "seats_left demo_clock ''r9'' ''e1'' demo_buyer 1 (sys_db (demo_shop\<lparr>sys_redis := r1\<rparr>))" using demo_shop_ready(5) by simp
  have line': "waiting (getEventVirtualQueueKey ''e1'') (sys_redis (demo_shop\<lparr>sys_redis := r1\<rparr>)) = []" using line by simp
  obtain s2 where two: "serve demo_shop_server demo_calls (R_Reserve ''e1'') (with_token demo_pass (Some (JObj [(''quantity'', JNum (dec (unat (1 :: u32))))]))) (demo_shop\<lparr>sys_redis := r1\<rparr>)
      = (s2, WriteJSONResponse StatusOK (Some (PReservationItem (held_row demo_clock ''r9'' ''e1'' demo_buyer 1))))"
    and known2: "known_user demo_shop_server demo_buyer demo_pass (ur_item (demo_user demo_buyer ''a@x.io'')) s2"
    and db: "sys_db s2 = (sys_db (demo_shop\<lparr>sys_redis := r1\<rparr>))\<lparr>reservations_tbl := reservations_tbl (sys_db (demo_shop\<lparr>sys_redis := r1\<rparr>)) @ [held_row demo_clock ''r9'' ''e1'' demo_buyer 1]\<rparr>"
    by (rule reserve_request [where k = demo_calls, unfolded clocks, OF known demo_shop_ready(2) left admitted event_on_sale_cong [OF demo_shop_ready(4) strs] line'])
  have "reservations_tbl (sys_db s2) = [held_row demo_clock ''r9'' ''e1'' demo_buyer 1]" "events_tbl (sys_db s2) = events_tbl demo_db"
    by (simp_all add: db demo_db_def)
  then show thesis by (rule that [OF one two known2])
qed

text \<open>The configuration of a run that sends the buyer through HTTP.\<close>

definition demo_http_run :: SimConfig where
  "demo_http_run = demo_sim\<lparr>sc_UserIds := [demo_buyer], sc_Transport := TransportHTTP, sc_Tokens := (\<lambda>_. Some demo_pass)\<rparr>"

lemma demo_http_run_client: "runner_client demo_shop_server id demo_http_run = httpClient demo_shop_server id (\<lambda>_. Some demo_pass) ''e1''"
  by (simp add: runner_client_def demo_http_run_def demo_sim_def)

lemma demo_run_sells:
  obtains m s2 where "(sim_step (runner_client demo_shop_server id demo_http_run) id demo_http_run env)\<^sup>*\<^sup>* (sim_start (5, demo_shop)) m"
    and "sm_world m = (5, s2)" and "reserved (sm_run m) = 1" and "reservations_tbl (sys_db s2) = [held_row demo_clock ''r9'' ''e1'' demo_buyer 1]"
proof -
  obtain r1 s2 where one: "serve demo_shop_server demo_calls R_Enqueue (with_token demo_pass (Some (JObj [(''eventId'', JStr ''e1'')]))) demo_shop
      = (demo_shop\<lparr>sys_redis := r1\<rparr>, WriteJSONResponse StatusCreated (Some (PQueueStatus StatusWhitelisted)))"
    and two: "serve demo_shop_server demo_calls (R_Reserve ''e1'') (with_token demo_pass (Some (JObj [(''quantity'', JNum (dec (unat (1 :: u32))))]))) (demo_shop\<lparr>sys_redis := r1\<rparr>)
      = (s2, WriteJSONResponse StatusOK (Some (PReservationItem (held_row demo_clock ''r9'' ''e1'' demo_buyer 1))))"
    and rows: "reservations_tbl (sys_db s2) = [held_row demo_clock ''r9'' ''e1'' demo_buyer 1]"
    by (rule demo_requests) blast
  let ?cl = "httpClient demo_shop_server id (\<lambda>_. Some demo_pass) ''e1''" and ?cfg = demo_http_run
  let ?step = "sim_step ?cl id ?cfg env"
  have at: "at_time 5 demo_calls = demo_calls" by (simp add: at_time_def demo_calls_def demo_clock_def)
  have users: "users_of ?cfg = 1" "sc_UserIds ?cfg ! 0 = demo_buyer" "sc_Quantity ?cfg = 1" "sc_Workers ?cfg = 1"
    by (simp_all add: demo_http_run_def demo_sim_def)
  have enq: "cl_Enqueue ?cl demo_calls Done demo_buyer (5, demo_shop) = ((5, demo_shop\<lparr>sys_redis := r1\<rparr>), Inr Second)"
    using one by (simp add: httpClient_def in_world_def at http_Enqueue_def http_do_def WriteJSONResponse_def StatusWhitelisted_def)
  have res: "cl_Reserve ?cl demo_calls Done demo_buyer 1 (5, demo_shop\<lparr>sys_redis := r1\<rparr>) = ((5, s2), Inr ())"
    using two by (simp add: httpClient_def in_world_def at http_Reserve_def http_do_def WriteJSONResponse_def translateReserveError_def)
  let ?r1 = "fresh_runner\<lparr>started := 1\<rparr>" and ?r2 = "admit 0 (fresh_runner\<lparr>started := 1, enqueued := 1\<rparr>)"
  let ?m0 = "sim_start (5, demo_shop)"
  let ?m1 = "put 0 (Joining, ?r1, (5, demo_shop)) ?m0"
  let ?m2 = "put 0 (Admitted, ?r2, (5, demo_shop\<lparr>sys_redis := r1\<rparr>)) ?m1"
  let ?m3 = "put 0 (Reserving, ?r2, (5, demo_shop\<lparr>sys_redis := r1\<rparr>)) ?m2"
  let ?m4 = "put 0 (Finished, recordReserve 0 (?r2\<lparr>reserved := 1\<rparr>), (5, s2)) ?m3"
  have "?step ?m0 ?m1" using sim_step.start [of 0 ?cfg ?m0] users by (simp add: sim_start_def fresh_runner_def)
  moreover have "?step ?m1 ?m2" using sim_step.join [of 0 ?cfg ?m1 ?cl id env demo_calls Done 0] users enq
    by (simp add: put_def join_step_def Let_def fresh_runner_def)
  moreover have "?step ?m2 ?m3" using sim_step.acquire [of 0 ?cfg ?m2 ?cl id env] users
    by (simp add: put_def sem_free_def in_phase_def)
  moreover have "?step ?m3 ?m4" using sim_step.reserve [of 0 ?cfg ?m3 ?cl id env demo_calls Done 0] users res
    by (simp add: put_def reserve_step_def admit_def recordWait_def fresh_runner_def)
  ultimately have "?step\<^sup>*\<^sup>* ?m0 ?m4" by (meson converse_rtranclp_into_rtranclp rtranclp.rtrancl_refl)
  then show thesis using rows by (intro that [of ?m4 s2]) (simp_all add: demo_http_run_client put_def recordReserve_def)
qed

section \<open>Properties\<close>

text \<open>
  C2: the site does not oversell. Over a sound database, whatever requests reach the API and, in demo mode, the demo
  routes (minting users and events, reset, simulate, snapshot, cancel), with any tokens, bodies, caches and failing calls, together
  with the runs that were started, the sweep and the clock, one request or call after the other: the schema stays consistent, no event has more active
  seats than capacity and no user more than the quota. The only restriction is on the simulation requests that set a
  new capacity: it has to hold the active seats of the event, or the request resets the event and its
  calls up to the delete of the old reservations are carried out.
\<close>

theorem site_never_oversells:
  assumes "pg_wf (sys_db (ad_sys a))" and "within_capacity t (sys_db (ad_sys a))" and "within_quota t (sys_db (ad_sys a))"
    and "(site_step True sv)\<^sup>*\<^sup>* (t, a) (t', a')"
  shows "pg_wf (sys_db (ad_sys a')) \<and> within_capacity t' (sys_db (ad_sys a')) \<and> within_quota t' (sys_db (ad_sys a'))"
  using site.reach_inv [OF _ assms(4)] assms(1-3) by (simp add: store_inv_def)

text \<open>A purchase of three requests, and after it a simulation request that lowers the capacity with a reset.\<close>

theorem site_never_oversells_witness:
  "\<exists>a1 a2. (site_step True demo_shop_server)\<^sup>*\<^sup>* (5, \<lparr>ad_sys = demo_shop, ad_reg = NewRegistry\<rparr>) (5, a1)
     \<and> map res_Status (reservations_tbl (sys_db (ad_sys a1))) = [StatusConfirmed] \<and> within_capacity 5 (sys_db (ad_sys a1))
     \<and> a2 = fst (simulateHandler (demo_sim_env (\<lambda>_. Done)) (demo_sim_request (JNum ''1'')) a1) \<and> within_capacity 5 (sys_db (ad_sys a2))"
proof -
  let ?a = "\<lambda>s. \<lparr>ad_sys = s, ad_reg = NewRegistry\<rparr>" and ?step = "site_step True demo_shop_server"
  have request: "?step (5, ?a s) (5, ?a s')" if "serve demo_shop_server demo_calls rt rq s = (s', out)" for rt rq s s' out
    using site_step.api [of demo_shop_server 5 "?a s" 5 "fst (serve demo_shop_server demo_calls rt rq s)" True]
      http_step.request [of demo_calls 5 demo_shop_server s rt rq] that by (simp add: demo_calls_def demo_clock_def)
  obtain r1 s2 where r1: "serve demo_shop_server demo_calls R_Enqueue (with_token demo_pass (Some (JObj [(''eventId'', JStr ''e1'')]))) demo_shop
      = (demo_shop\<lparr>sys_redis := r1\<rparr>, WriteJSONResponse StatusCreated (Some (PQueueStatus StatusWhitelisted)))"
    and s2: "serve demo_shop_server demo_calls (R_Reserve ''e1'') (with_token demo_pass (Some (JObj [(''quantity'', JNum (dec (unat (1 :: u32))))]))) (demo_shop\<lparr>sys_redis := r1\<rparr>)
      = (s2, WriteJSONResponse StatusOK (Some (PReservationItem (held_row demo_clock ''r9'' ''e1'' demo_buyer 1))))"
    and known: "known_user demo_shop_server demo_buyer demo_pass (ur_item (demo_user demo_buyer ''a@x.io'')) s2"
    and rows: "reservations_tbl (sys_db s2) = [] @ [held_row demo_clock ''r9'' ''e1'' demo_buyer 1]"
    by (rule demo_requests) force
  have in_time: "c_pg (k_clocks demo_calls) < c_wall demo_clock + reservationTTL" by (simp add: demo_calls_def demo_clock_def reservationTTL_def)
  have fresh: "''r9'' \<notin> set (map res_Id [])" by simp
  obtain s3 where s3: "serve demo_shop_server demo_calls (R_Confirm ''r9'') (with_token demo_pass None) s2 = (s3, WriteJSONResponse StatusCreated None)"
    and rows3: "reservations_tbl (sys_db s3) = [] @ [set_status StatusConfirmed (c_pg (k_clocks demo_calls)) (c_wall (k_clocks demo_calls)) (held_row demo_clock ''r9'' ''e1'' demo_buyer 1)]"
    by (rule confirm_request [OF known demo_shop_ready(2) rows fresh in_time])
  have run: "?step\<^sup>*\<^sup>* (5, ?a demo_shop) (5, ?a s3)"
    using request [OF r1] request [OF s2] request [OF s3] by (meson rtranclp.rtrancl_into_rtrancl rtranclp.rtrancl_refl)
  let ?a2 = "fst (simulateHandler (demo_sim_env (\<lambda>_. Done)) (demo_sim_request (JNum ''1'')) (?a s3))"
  have "prudent 5 (demo_sim_env (\<lambda>_. Done)) (demo_sim_request (JNum ''1'')) (ad_sys (?a s3))"
    by (simp add: prudent_def demo_sim_decode demo_sim_req_fields)
  then have "?step (5, ?a s3) (5, ?a2)" by (intro site_step.demo demo_request.simulate) (simp_all add: demo_clock_def)
  then have run2: "?step\<^sup>*\<^sup>* (5, ?a demo_shop) (5, ?a2)" using run by simp
  have sound: "pg_wf (sys_db (ad_sys (?a demo_shop)))" "within_capacity 5 (sys_db (ad_sys (?a demo_shop)))" "within_quota 5 (sys_db (ad_sys (?a demo_shop)))"
    using demo_shop_inv by (simp_all add: store_inv_def)
  have "within_capacity 5 (sys_db s3)" "within_capacity 5 (sys_db (ad_sys ?a2))"
    using site_never_oversells [OF sound run] site_never_oversells [OF sound run2] by simp_all
  moreover have "map res_Status (reservations_tbl (sys_db s3)) = [StatusConfirmed]" by (simp add: rows3 set_status_def)
  ultimately show ?thesis using run by (intro exI [of _ "?a s3"] exI [of _ ?a2]) simp
qed

text \<open>
  C30: a simulation does not oversell. Whichever transport the configuration selects, and however the users' goroutines
  interleave with each other and with the rest of the site (other requests to the API and the demo routes, other
  runs, the sweep, the clock), call by call: every event stays within capacity and every user within the quota, as long as the
  simulation requests among the others satisfy \<open>prudent\<close>. A snapshot taken at any such moment
  does not report the event as oversold, provided that the cached copy of the event agrees with its row.
\<close>

theorem simulation_never_oversells:
  assumes "pg_wf (sys_db (snd w))" and "within_capacity (fst w) (sys_db (snd w))" and "within_quota (fst w) (sys_db (snd w))"
    and "(sim_step (runner_client sv pg_text cfg) pg_text cfg (site_env True sv))\<^sup>*\<^sup>* (sim_start w) s" and "sm_world s = (t, s')"
  shows "within_capacity t (sys_db s') \<and> within_quota t (sys_db s')
    \<and> (coherent event_cached (event_rows (sys_db s')) (sys_redis s') \<longrightarrow> c_pg c = t \<longrightarrow>
         \<not> sn_Oversold (snd (take_snapshot cfg flt c rnd gone (sm_run s) fin s')))"
proof -
  have "world_inv (sm_world s)"
    by (rule runner_client_keeps [OF assms(4) site_env_store]) (use assms(1-3) in \<open>simp_all add: sim_start_def store_inv_def\<close>)
  then show ?thesis using snapshot_not_oversold [of c s'] by (auto simp: assms(5) store_inv_def)
qed

text \<open>A run whose user joins, is admitted and reserves over HTTP; then the cache is lost, and the snapshot reads the row.\<close>

theorem simulation_never_oversells_witness:
  "\<exists>m s'. (sim_step (runner_client demo_shop_server id demo_http_run) id demo_http_run (site_env True demo_shop_server))\<^sup>*\<^sup>* (sim_start (5, demo_shop)) m
     \<and> sm_world m = (5, s') \<and> reserved (sm_run m) = 1 \<and> active_seats 5 ''e1'' (reservations_tbl (sys_db s')) = 1
     \<and> within_capacity 5 (sys_db s') \<and> \<not> sn_Oversold (snd (take_snapshot demo_http_run (\<lambda>_. Done) demo_clock 0 None (sm_run m) True s'))"
proof -
  obtain m s2 where run: "(sim_step (runner_client demo_shop_server id demo_http_run) id demo_http_run (site_env True demo_shop_server))\<^sup>*\<^sup>* (sim_start (5, demo_shop)) m"
    and m: "sm_world m = (5, s2)" "reserved (sm_run m) = 1" and rows: "reservations_tbl (sys_db s2) = [held_row demo_clock ''r9'' ''e1'' demo_buyer 1]"
    by (rule demo_run_sells)
  let ?s = "s2\<lparr>sys_redis := empty_redis, sys_lru := sys_lru s2\<rparr>"
  let ?m = "m\<lparr>sm_world := (5, ?s)\<rparr>"
  have "site_env True demo_shop_server (sm_world m) (5, ?s)" unfolding m(1) by (rule http_step_site) (rule http_step.caches)
  then have run': "(sim_step (runner_client demo_shop_server id demo_http_run) id demo_http_run (site_env True demo_shop_server))\<^sup>*\<^sup>* (sim_start (5, demo_shop)) ?m"
    using sim_step.other rtranclp.rtrancl_into_rtrancl [OF run] by metis
  have "coherent event_cached (event_rows (sys_db ?s)) (sys_redis ?s)"
    by (simp add: coherent_def event_cached_def rc_GetEvent_def rget_def empty_redis_def)
  moreover have "pg_wf (sys_db (snd (5 :: time, demo_shop)))" "within_capacity (fst (5 :: time, demo_shop)) (sys_db (snd (5 :: time, demo_shop)))"
    "within_quota (fst (5 :: time, demo_shop)) (sys_db (snd (5 :: time, demo_shop)))"
    using demo_shop_inv by (simp_all add: store_inv_def)
  ultimately have "within_capacity 5 (sys_db ?s) \<and> \<not> sn_Oversold (snd (take_snapshot demo_http_run (\<lambda>_. Done) demo_clock 0 None (sm_run ?m) True ?s))"
    using simulation_never_oversells [where s = ?m and t = 5 and s' = ?s and c = demo_clock, OF _ _ _ run'] by (simp add: demo_clock_def)
  moreover have "active_seats 5 ''e1'' (reservations_tbl (sys_db ?s)) = 1"
    by (simp add: rows active_seats_def seats_where_def held_row_def active_at_def demo_clock_def reservationTTL_def)
  ultimately show ?thesis using run' m(2) by (intro exI [of _ ?m] exI [of _ ?s]) simp
qed

end
