(* ===== verification/Lifecycle.thy ===== *)
theory Lifecycle
  imports Routing Site
begin

text \<open>
  The life of the server process: \<open>main.go\<close> (start, serve, shut down), \<open>repository/main.go\<close> (opening and
  closing the connections) and the two background tickers of the repositories, the queue promoter and
  the expiry sweep, with the channel and the \<open>sync.Once\<close> that stop them. The drivers are arguments: what
  \<open>pgxpool.ParseConfig\<close>, \<open>pgxpool.NewWithConfig\<close> and the two pings answer.
\<close>

section \<open>Tickers\<close>

text \<open>
  The goroutine of a ticker waits in its \<open>select\<close>, carries out a tick, or has returned; when it returns
  it has closed its stop channel. \<open>tk_C\<close> says whether a tick lies in the channel \<open>ticker.C\<close>, which holds
  at most one, and \<open>tk_once\<close> whether the function given to \<open>sync.Once\<close> has run. The stop channel has no
  buffer: a send is taken only by a goroutine in its \<open>select\<close>.
\<close>

datatype goroutine = Selecting | Ticking | Returned

record ticker =
  tk_interval :: duration
  tk_C :: bool
  tk_loop :: goroutine
  tk_once :: bool

text \<open>\<open>time.NewTicker\<close> panics, \<open>None\<close>, for an interval that is not positive.\<close>

definition NewTicker :: "duration \<Rightarrow> ticker option" where
  "NewTicker d = (if d \<le> 0 then None else Some \<lparr>tk_interval = d, tk_C = False, tk_loop = Selecting, tk_once = False\<rparr>)"

definition startPromoterTicker :: "VirtualQueueRepository \<Rightarrow> ticker option" where
  "startPromoterTicker repo = NewTicker (vq_promoteInterval repo)"

definition startRefreshEventStatusTicker :: "ticker option" where
  "startRefreshEventStatusTicker = NewTicker (1 * Minute)"

text \<open>The tick that the runtime puts into the channel is dropped when one is there already.\<close>

definition tick_fires :: "ticker \<Rightarrow> ticker" where
  "tick_fires tk = tk\<lparr>tk_C := True\<rparr>"

definition tick_taken :: "ticker \<Rightarrow> ticker" where
  "tick_taken tk = tk\<lparr>tk_C := False, tk_loop := Ticking\<rparr>"

definition tick_over :: "ticker \<Rightarrow> ticker" where
  "tick_over tk = tk\<lparr>tk_loop := Selecting\<rparr>"

text \<open>
  \<open>Close\<close> of either repository: nothing the second time; the first time it hands the stop message to a
  goroutine in its \<open>select\<close>, waits for one that is in a tick, and would panic on a closed channel.
\<close>

datatype close_result = Waits | Closes ticker | Panics

definition ticker_Close :: "ticker \<Rightarrow> close_result" where
  "ticker_Close tk =
     (if tk_once tk then Closes tk
      else case tk_loop tk of
             Selecting \<Rightarrow> Closes (tk\<lparr>tk_loop := Returned, tk_once := True\<rparr>)
           | Ticking \<Rightarrow> Waits
           | Returned \<Rightarrow> Panics)"

section \<open>Connections\<close>

record PoolConfig =
  pc_url :: string
  pc_MaxConns :: int
  pc_MinConns :: int
  pc_MaxConnLifetime :: duration
  pc_MaxConnIdleTime :: duration
  pc_HealthCheckPeriod :: duration

record drivers =
  dr_ParseConfig :: "string \<Rightarrow> go_error option"
  dr_NewWithConfig :: "PoolConfig \<Rightarrow> go_error option"
  dr_PgPing :: "go_error option"
  dr_RedisPing :: "string \<Rightarrow> go_error option"

text \<open>The pools that are open when a call returns, and what it returns.\<close>

record connections =
  cn_pg :: bool
  cn_redis :: bool

definition newPostgresConfig :: "drivers \<Rightarrow> Config \<Rightarrow> PoolConfig result" where
  "newPostgresConfig dr cfg =
     (case dr_ParseConfig dr (cfg_PostgreSQLUrl cfg) of
        Some err \<Rightarrow> Inl err
      | None \<Rightarrow> Inr \<lparr>pc_url = cfg_PostgreSQLUrl cfg, pc_MaxConns = 20, pc_MinConns = 2, pc_MaxConnLifetime = 60 * Minute,
                     pc_MaxConnIdleTime = 30 * Minute, pc_HealthCheckPeriod = Minute\<rparr>)"

definition newPostgresConnection :: "drivers \<Rightarrow> Config \<Rightarrow> bool \<times> unit result" where
  "newPostgresConnection dr cfg =
     (case newPostgresConfig dr cfg of
        Inl err \<Rightarrow> (False, Inl err)
      | Inr poolCfg \<Rightarrow>
          (case dr_NewWithConfig dr poolCfg of
             Some err \<Rightarrow> (False, Inl err)
           | None \<Rightarrow> (True, case dr_PgPing dr of Some err \<Rightarrow> Inl err | None \<Rightarrow> Inr ())))"

text \<open>\<open>newRedisConfig\<close> only passes the address on; the client is there before its first ping.\<close>

definition newRedisConnection :: "drivers \<Rightarrow> Config \<Rightarrow> bool \<times> unit result" where
  "newRedisConnection dr cfg = (True, case dr_RedisPing dr (cfg_RedisUrl cfg) of Some err \<Rightarrow> Inl err | None \<Rightarrow> Inr ())"

record Repositories =
  rp_queue :: VirtualQueueRepository
  rp_promoter :: ticker
  rp_sweeper :: ticker
  rp_DbPool :: bool
  rp_Rdb :: bool

text \<open>
  \<open>NewRepositories\<close>: the sweep's ticker is started by \<open>NewReservationRepository\<close>, whose LRU constructor
  does not fail, the promoter's by \<open>NewVirtualQueueRepository\<close>. \<open>None\<close> is a panic.
\<close>

definition NewRepositories :: "drivers \<Rightarrow> Config \<Rightarrow> connections \<times> Repositories result option" where
  "NewRepositories dr cfg =
     (case newPostgresConnection dr cfg of
        (pg, Inl err) \<Rightarrow> (\<lparr>cn_pg = pg, cn_redis = False\<rparr>, Some (Inl err))
      | (pg, Inr _) \<Rightarrow>
          (case newRedisConnection dr cfg of
             (rdb, Inl err) \<Rightarrow> (\<lparr>cn_pg = pg, cn_redis = rdb\<rparr>, Some (Inl err))
           | (rdb, Inr _) \<Rightarrow>
               (\<lparr>cn_pg = pg, cn_redis = rdb\<rparr>,
                case startRefreshEventStatusTicker of
                  None \<Rightarrow> None
                | Some sweeper \<Rightarrow>
                    (case startPromoterTicker (NewVirtualQueueRepository cfg) of
                       None \<Rightarrow> None
                     | Some promoter \<Rightarrow>
                         Some (Inr \<lparr>rp_queue = NewVirtualQueueRepository cfg, rp_promoter = promoter, rp_sweeper = sweeper,
                                    rp_DbPool = pg, rp_Rdb = rdb\<rparr>)))))"

section \<open>The process\<close>

text \<open>
  Where \<open>run\<close> stands: in its \<open>select\<close>, in \<open>srv.Shutdown\<close>, in the deferred \<open>repositories.Close()\<close> at one of
  its four steps, or returned. \<open>Crashed\<close> is a panic of the main goroutine.
\<close>

datatype main_phase =
    Serving | ShuttingDown | ClosingPromoter | ClosingSweeper | ClosingPostgres | ClosingRedis | Exited | Crashed

text \<open>
  \<open>Repositories.Close\<close>, one statement at a time: where main stands after it, or \<open>None\<close> while it waits. An
  error of \<open>Rdb.Close\<close> is only logged.
\<close>

fun repositories_Close :: "main_phase \<Rightarrow> Repositories \<Rightarrow> (main_phase \<times> Repositories) option" where
  "repositories_Close ClosingPromoter r =
     (case ticker_Close (rp_promoter r) of
        Waits \<Rightarrow> None
      | Closes tk \<Rightarrow> Some (ClosingSweeper, r\<lparr>rp_promoter := tk\<rparr>)
      | Panics \<Rightarrow> Some (Crashed, r))"
| "repositories_Close ClosingSweeper r =
     (case ticker_Close (rp_sweeper r) of
        Waits \<Rightarrow> None
      | Closes tk \<Rightarrow> Some (ClosingPostgres, r\<lparr>rp_sweeper := tk\<rparr>)
      | Panics \<Rightarrow> Some (Crashed, r))"
| "repositories_Close ClosingPostgres r = Some (ClosingRedis, r\<lparr>rp_DbPool := False\<rparr>)"
| "repositories_Close ClosingRedis r = Some (Exited, r\<lparr>rp_Rdb := False\<rparr>)"
| "repositories_Close _ r = None"

text \<open>
  \<open>pr_serverErr\<close> is the buffered channel of the listener's goroutine, \<open>pr_requests\<close> counts the requests in
  their handlers, \<open>pr_result\<close> is what \<open>run\<close> returns once it is past its \<open>select\<close> and \<open>Shutdown\<close>.
\<close>

record 'l process =
  pr_main :: main_phase
  pr_repos :: Repositories
  pr_listening :: bool
  pr_serverErr :: "go_error option"
  pr_signal :: bool
  pr_requests :: nat
  pr_result :: "go_error option"
  pr_now :: time
  pr_sys :: "'l sys"

definition run_start ::
  "golib \<Rightarrow> (go_error \<times> bool) option \<Rightarrow> environment \<Rightarrow> drivers \<Rightarrow> time \<Rightarrow> 'l sys \<Rightarrow> 'l process result option" where
  "run_start lib dotenv env dr now s =
     (case Load lib dotenv env of
        Inl err \<Rightarrow> Some (Inl err)
      | Inr cfg \<Rightarrow>
          (case snd (NewRepositories dr cfg) of
             None \<Rightarrow> None
           | Some (Inl err) \<Rightarrow> Some (Inl err)
           | Some (Inr repositories) \<Rightarrow>
               Some (Inr \<lparr>pr_main = Serving, pr_repos = repositories, pr_listening = True, pr_serverErr = None, pr_signal = False,
                          pr_requests = 0, pr_result = None, pr_now = now, pr_sys = s\<rparr>)))"

text \<open>\<open>main\<close>: the exit status for what \<open>run\<close> returned.\<close>

definition exit_code :: "go_error option \<Rightarrow> int" where
  "exit_code result = (case result of None \<Rightarrow> 0 | Some _ \<Rightarrow> 1)"

abbreviation promoter :: "'l process \<Rightarrow> ticker" where "promoter s \<equiv> rp_promoter (pr_repos s)"
abbreviation sweeper :: "'l process \<Rightarrow> ticker" where "sweeper s \<equiv> rp_sweeper (pr_repos s)"

definition set_promoter :: "ticker \<Rightarrow> 'l process \<Rightarrow> 'l process" where
  "set_promoter tk s = s\<lparr>pr_repos := (pr_repos s)\<lparr>rp_promoter := tk\<rparr>\<rparr>"

definition set_sweeper :: "ticker \<Rightarrow> 'l process \<Rightarrow> 'l process" where
  "set_sweeper tk s = s\<lparr>pr_repos := (pr_repos s)\<lparr>rp_sweeper := tk\<rparr>\<rparr>"

text \<open>
  One step of the process or of the world around it: other instances of the server, the simulations that are running and the
  passing of time (\<open>elsewhere\<close>), the listener's goroutine and the handlers, those of the API and those of the demo routes, the
  main goroutine, the two tickers. The registry of the simulations is left open, so a demo request meets any; \<open>careful\<close> restricts the simulation requests as in
  \<open>Site\<close>. A
  tick and a request take effect when they end, with any outcome of their calls. \<open>Shutdown\<close> ends with an
  error when its thirty seconds are over, which here may be at any moment.
\<close>

inductive process_step :: "bool \<Rightarrow> 'l server \<Rightarrow> 'l process \<Rightarrow> 'l process \<Rightarrow> bool" for careful sv where
  elsewhere: "site_env careful sv (pr_now s, pr_sys s) (t, w) \<Longrightarrow> process_step careful sv s (s\<lparr>pr_now := t, pr_sys := w\<rparr>)"
| accept: "pr_listening s \<Longrightarrow> process_step careful sv s (s\<lparr>pr_requests := pr_requests s + 1\<rparr>)"
| respond: "pr_main s \<noteq> Exited \<Longrightarrow> pr_requests s = Suc n \<Longrightarrow> c_pg (k_clocks k) = pr_now s \<Longrightarrow>
    process_step careful sv s (s\<lparr>pr_requests := n, pr_sys := fst (serve sv k rt rq (pr_sys s))\<rparr>)"
| respond_demo: "pr_main s \<noteq> Exited \<Longrightarrow> pr_requests s = Suc n \<Longrightarrow> demo_request careful sv (pr_now s) \<lparr>ad_sys = pr_sys s, ad_reg = reg\<rparr> a \<Longrightarrow>
    process_step careful sv s (s\<lparr>pr_requests := n, pr_sys := ad_sys a\<rparr>)"
| listen_fails: "pr_listening s \<Longrightarrow> process_step careful sv s (s\<lparr>pr_listening := False, pr_serverErr := Some err\<rparr>)"
| signal: "process_step careful sv s (s\<lparr>pr_signal := True\<rparr>)"
| main_serverErr: "pr_main s = Serving \<Longrightarrow> pr_serverErr s = Some err \<Longrightarrow>
    process_step careful sv s (s\<lparr>pr_main := ClosingPromoter, pr_result := Some err\<rparr>)"
| main_stop: "pr_main s = Serving \<Longrightarrow> pr_signal s \<Longrightarrow> process_step careful sv s (s\<lparr>pr_main := ShuttingDown, pr_listening := False\<rparr>)"
| shutdown_done: "pr_main s = ShuttingDown \<Longrightarrow> pr_requests s = 0 \<Longrightarrow> process_step careful sv s (s\<lparr>pr_main := ClosingPromoter, pr_result := None\<rparr>)"
| shutdown_late: "pr_main s = ShuttingDown \<Longrightarrow> process_step careful sv s (s\<lparr>pr_main := ClosingPromoter, pr_result := Some DeadlineExceeded\<rparr>)"
| close: "repositories_Close (pr_main s) (pr_repos s) = Some (m, repositories) \<Longrightarrow>
    process_step careful sv s (s\<lparr>pr_main := m, pr_repos := repositories\<rparr>)"
| promoter_fires: "tk_loop (promoter s) \<noteq> Returned \<Longrightarrow> process_step careful sv s (set_promoter (tick_fires (promoter s)) s)"
| promoter_starts: "tk_loop (promoter s) = Selecting \<Longrightarrow> tk_C (promoter s) \<Longrightarrow> process_step careful sv s (set_promoter (tick_taken (promoter s)) s)"
| promoter_ends: "tk_loop (promoter s) = Ticking \<Longrightarrow>
    r' = fst (PromoteActiveEvents (rp_queue (pr_repos s)) pflt rnow (sys_redis (pr_sys s))) \<Longrightarrow>
    process_step careful sv s ((set_promoter (tick_over (promoter s)) s)\<lparr>pr_sys := (pr_sys s)\<lparr>sys_redis := r'\<rparr>\<rparr>)"
| sweeper_fires: "tk_loop (sweeper s) \<noteq> Returned \<Longrightarrow> process_step careful sv s (set_sweeper (tick_fires (sweeper s)) s)"
| sweeper_starts: "tk_loop (sweeper s) = Selecting \<Longrightarrow> tk_C (sweeper s) \<Longrightarrow> process_step careful sv s (set_sweeper (tick_taken (sweeper s)) s)"
| sweeper_ends: "tk_loop (sweeper s) = Ticking \<Longrightarrow> c_pg c' = pr_now s \<Longrightarrow>
    w = fst (repo_RefreshEventStatus (sv_lru sv) sflt c c' c'' (Some dl) token (pr_sys s)) \<Longrightarrow>
    process_step careful sv s ((set_sweeper (tick_over (sweeper s)) s)\<lparr>pr_sys := w\<rparr>)"

section \<open>The order of the shutdown\<close>

text \<open>How far the main goroutine has come.\<close>

fun stage :: "main_phase \<Rightarrow> nat" where
  "stage Serving = 0" | "stage ShuttingDown = 1" | "stage ClosingPromoter = 2" | "stage ClosingSweeper = 3"
| "stage ClosingPostgres = 4" | "stage ClosingRedis = 5" | "stage Exited = 6" | "stage Crashed = 7"

text \<open>A ticker runs until main has closed it, and its goroutine returns by nothing else.\<close>

definition ticker_inv :: "bool \<Rightarrow> ticker \<Rightarrow> bool" where
  "ticker_inv closed tk \<longleftrightarrow> (tk_loop tk = Returned \<longleftrightarrow> closed) \<and> (tk_once tk \<longleftrightarrow> closed)"

definition order_inv :: "'l process \<Rightarrow> bool" where
  "order_inv s \<longleftrightarrow>
     stage (pr_main s) \<le> 6
   \<and> ticker_inv (3 \<le> stage (pr_main s)) (promoter s) \<and> ticker_inv (4 \<le> stage (pr_main s)) (sweeper s)
   \<and> (rp_DbPool (pr_repos s) \<longleftrightarrow> stage (pr_main s) < 5) \<and> (rp_Rdb (pr_repos s) \<longleftrightarrow> stage (pr_main s) < 6)"

text \<open>Requests are accepted only while main waits, and a clean result means that none was left.\<close>

definition drain_inv :: "'l process \<Rightarrow> bool" where
  "drain_inv s \<longleftrightarrow> (pr_listening s \<longrightarrow> pr_main s = Serving \<and> pr_serverErr s = None)
     \<and> (2 \<le> stage (pr_main s) \<and> pr_result s = None \<longrightarrow> pr_requests s = 0)"

definition process_inv :: "bool \<Rightarrow> 'l process \<Rightarrow> bool" where
  "process_inv careful s \<longleftrightarrow> order_inv s \<and> drain_inv s \<and> (careful \<longrightarrow> store_inv (pr_now s, sys_db (pr_sys s)))"

lemma ticker_inv_steps:
  "ticker_inv closed (tick_fires tk) = ticker_inv closed tk"
  "tk_loop tk = Selecting \<Longrightarrow> ticker_inv closed (tick_taken tk) = ticker_inv closed tk"
  "tk_loop tk = Ticking \<Longrightarrow> ticker_inv closed (tick_over tk) = ticker_inv closed tk"
  by (simp_all add: ticker_inv_def tick_fires_def tick_taken_def tick_over_def)

lemma ticker_Close_open:
  assumes "ticker_inv False tk"
  shows "ticker_Close tk \<noteq> Panics" and "ticker_Close tk = Closes tk' \<Longrightarrow> ticker_inv True tk'"
    and "tk_loop tk = Selecting \<Longrightarrow> \<exists>tk'. ticker_Close tk = Closes tk'"
  using assms by (cases "tk_loop tk"; auto simp: ticker_Close_def ticker_inv_def)+

lemma set_ticker_simps [simp]:
  "pr_main (set_promoter tk s) = pr_main s" "pr_main (set_sweeper tk s) = pr_main s"
  "pr_now (set_promoter tk s) = pr_now s" "pr_now (set_sweeper tk s) = pr_now s"
  "pr_sys (set_promoter tk s) = pr_sys s" "pr_sys (set_sweeper tk s) = pr_sys s"
  "pr_requests (set_promoter tk s) = pr_requests s" "pr_requests (set_sweeper tk s) = pr_requests s"
  "pr_result (set_promoter tk s) = pr_result s" "pr_result (set_sweeper tk s) = pr_result s"
  "pr_listening (set_promoter tk s) = pr_listening s" "pr_listening (set_sweeper tk s) = pr_listening s"
  "pr_serverErr (set_promoter tk s) = pr_serverErr s" "pr_serverErr (set_sweeper tk s) = pr_serverErr s"
  "pr_signal (set_promoter tk s) = pr_signal s" "pr_signal (set_sweeper tk s) = pr_signal s"
  "promoter (set_promoter tk s) = tk" "sweeper (set_promoter tk s) = sweeper s"
  "sweeper (set_sweeper tk s) = tk" "promoter (set_sweeper tk s) = promoter s"
  "rp_DbPool (pr_repos (set_promoter tk s)) = rp_DbPool (pr_repos s)" "rp_DbPool (pr_repos (set_sweeper tk s)) = rp_DbPool (pr_repos s)"
  "rp_Rdb (pr_repos (set_promoter tk s)) = rp_Rdb (pr_repos s)" "rp_Rdb (pr_repos (set_sweeper tk s)) = rp_Rdb (pr_repos s)"
  by (simp_all add: set_promoter_def set_sweeper_def)

lemma order_inv_close:
  assumes "repositories_Close (pr_main s) (pr_repos s) = Some (m, r)" and "order_inv s"
  shows "order_inv (s\<lparr>pr_main := m, pr_repos := r\<rparr>)"
proof (cases "pr_main s")
  case ClosingPromoter
  then have p: "ticker_inv False (promoter s)" using assms(2) by (simp add: order_inv_def)
  then obtain tk where tk: "ticker_Close (promoter s) = Closes tk" "m = ClosingSweeper" "r = (pr_repos s)\<lparr>rp_promoter := tk\<rparr>"
    using assms(1) ticker_Close_open(1) ClosingPromoter by (auto split: close_result.splits)
  then show ?thesis using assms(2) ClosingPromoter ticker_Close_open(2) [OF p tk(1)] by (simp add: order_inv_def)
next
  case ClosingSweeper
  then have p: "ticker_inv False (sweeper s)" using assms(2) by (simp add: order_inv_def)
  then obtain tk where tk: "ticker_Close (sweeper s) = Closes tk" "m = ClosingPostgres" "r = (pr_repos s)\<lparr>rp_sweeper := tk\<rparr>"
    using assms(1) ticker_Close_open(1) ClosingSweeper by (auto split: close_result.splits)
  then show ?thesis using assms(2) ClosingSweeper ticker_Close_open(2) [OF p tk(1)] by (simp add: order_inv_def)
qed (use assms in \<open>auto simp: order_inv_def\<close>)

lemma order_inv_step: "process_step careful sv s s' \<Longrightarrow> order_inv s \<Longrightarrow> order_inv s'"
proof (induction rule: process_step.induct)
  case (close s m r)
  then show ?case using order_inv_close by blast
qed (simp_all add: order_inv_def ticker_inv_steps)

lemma close_stage: "repositories_Close m r = Some (m', r') \<Longrightarrow> 2 \<le> stage m"
  by (cases m) auto

lemma drain_inv_step: "process_step careful sv s s' \<Longrightarrow> drain_inv s \<Longrightarrow> drain_inv s'"
proof (induction rule: process_step.induct)
  case (close s m r)
  then have "2 \<le> stage (pr_main s)" using close_stage by blast
  then show ?case using close by (auto simp: drain_inv_def)
qed (auto simp: drain_inv_def)

text \<open>
  Whatever the process does to the database and the caches is a step of the site: its requests and
  its sweep, and for the promoter a change of Redis alone.
\<close>

lemma process_step_site: "process_step careful sv s s' \<Longrightarrow> (site_env careful sv)\<^sup>=\<^sup>= (pr_now s, pr_sys s) (pr_now s', pr_sys s')"
proof (induction rule: process_step.induct)
  case (respond s n k rt rq)
  then show ?case using http_step_site [OF http_step.request [where s = "pr_sys s", OF respond(3)]] by simp
next
  case (respond_demo s n reg a)
  then show ?case by (auto simp: site_env_def intro: site_step.demo)
next
  case (promoter_ends s r' pflt rnow)
  then show ?case using http_step_site [OF http_step.caches [where t = "pr_now s" and s = "pr_sys s" and r = r' and l = "sys_lru (pr_sys s)"]] by simp
next
  case (sweeper_ends s c' w sflt c c'' dl token)
  then show ?case using http_step_site [OF http_step.refresh [where t = "pr_now s" and s = "pr_sys s" and c' = c']] by simp
qed simp_all

lemma process_inv_step: "process_step careful sv s s' \<Longrightarrow> process_inv careful s \<Longrightarrow> process_inv careful s'"
  using order_inv_step drain_inv_step process_step_site [of careful sv s s'] site_env_store
  unfolding process_inv_def by fastforce

section \<open>Starting\<close>

lemma NewTicker_positive: "0 < d \<Longrightarrow> \<exists>tk. NewTicker d = Some tk \<and> ticker_inv False tk"
  by (simp add: NewTicker_def ticker_inv_def)

lemma NewRepositories_started:
  assumes "snd (NewRepositories dr cfg) = Some (Inr repos)"
  shows "ticker_inv False (rp_promoter repos)" and "ticker_inv False (rp_sweeper repos)" and "rp_DbPool repos" and "rp_Rdb repos"
  using assms
  by (auto simp: NewRepositories_def newPostgresConnection_def newRedisConnection_def startRefreshEventStatusTicker_def
      startPromoterTicker_def NewTicker_def ticker_inv_def split: sum.splits option.splits if_splits)

text \<open>A configuration that loads has a positive promotion interval, so no ticker panics.\<close>

lemma startup_never_panics: "run_start lib dotenv env dr now s \<noteq> None"
proof (cases "Load lib dotenv env")
  case (Inr cfg)
  then have "0 < vq_promoteInterval (NewVirtualQueueRepository cfg)" by (auto simp: Load_Inr NewVirtualQueueRepository_def)
  then have "snd (NewRepositories dr cfg) \<noteq> None"
    by (auto simp: NewRepositories_def startRefreshEventStatusTicker_def startPromoterTicker_def NewTicker_def split: prod.split sum.split)
  then show ?thesis using Inr by (auto simp: run_start_def split: sum.split)
qed (simp add: run_start_def)

text \<open>When Redis does not answer, the Postgres pool that was opened before stays open.\<close>

lemma NewRepositories_leaks_pool:
  assumes "newPostgresConnection dr cfg = (True, Inr ())" and "dr_RedisPing dr (cfg_RedisUrl cfg) = Some err"
  shows "NewRepositories dr cfg = (\<lparr>cn_pg = True, cn_redis = True\<rparr>, Some (Inl err))"
  using assms by (simp add: NewRepositories_def newRedisConnection_def)

lemma run_start_inv:
  assumes "run_start lib dotenv env dr now w = Some (Inr s)" and "store_inv (now, sys_db w)"
  shows "process_inv careful s"
proof -
  obtain cfg repos where "snd (NewRepositories dr cfg) = Some (Inr repos)"
    and s: "s = \<lparr>pr_main = Serving, pr_repos = repos, pr_listening = True, pr_serverErr = None, pr_signal = False,
      pr_requests = 0, pr_result = None, pr_now = now, pr_sys = w\<rparr>"
    using assms(1) by (auto simp: run_start_def split: sum.splits option.splits)
  note repos = NewRepositories_started [OF this(1)]
  have "order_inv s" using repos by (simp add: s order_inv_def)
  moreover have "drain_inv s" by (simp add: s drain_inv_def)
  ultimately show ?thesis using assms(2) by (simp add: process_inv_def s)
qed

text \<open>The states in which a process can start over a sound database.\<close>

definition started :: "'l process \<Rightarrow> bool" where
  "started s \<longleftrightarrow> (\<exists>lib dotenv env dr now w. run_start lib dotenv env dr now w = Some (Inr s) \<and> store_inv (now, sys_db w))"

interpretation lifecycle: inductive_invariant started "process_step careful sv" "process_inv careful" for careful sv
  by unfold_locales (auto simp: started_def intro: run_start_inv process_inv_step)

section \<open>The shutdown can finish\<close>

abbreviation leads_to :: "bool \<Rightarrow> 'l server \<Rightarrow> 'l process \<Rightarrow> main_phase \<Rightarrow> go_error option \<Rightarrow> bool" where
  "leads_to careful sv s m res \<equiv> \<exists>s'. (process_step careful sv)\<^sup>*\<^sup>* s s' \<and> pr_main s' = m \<and> pr_result s' = res"

text \<open>A tick that is under way ends, and then the goroutine is in its \<open>select\<close>.\<close>

lemma promoter_idle:
  assumes "tk_loop (promoter s) \<noteq> Returned"
  shows "\<exists>s1. (process_step careful sv)\<^sup>*\<^sup>* s s1 \<and> tk_loop (promoter s1) = Selecting \<and> pr_main s1 = pr_main s \<and> pr_result s1 = pr_result s"
proof (cases "tk_loop (promoter s)")
  case Ticking
  let ?s = "(set_promoter (tick_over (promoter s)) s)\<lparr>pr_sys := (pr_sys s)
    \<lparr>sys_redis := fst (PromoteActiveEvents (rp_queue (pr_repos s)) (\<lambda>_. Done) 0 (sys_redis (pr_sys s)))\<rparr>\<rparr>"
  have "process_step careful sv s ?s" using Ticking by (rule process_step.promoter_ends) simp
  then show ?thesis by (intro exI [of _ ?s]) (auto simp: tick_over_def)
qed (use assms in auto)

lemma sweeper_idle:
  assumes "tk_loop (sweeper s) \<noteq> Returned"
  shows "\<exists>s1. (process_step careful sv)\<^sup>*\<^sup>* s s1 \<and> tk_loop (sweeper s1) = Selecting \<and> pr_main s1 = pr_main s \<and> pr_result s1 = pr_result s"
proof (cases "tk_loop (sweeper s)")
  case Ticking
  let ?c = "\<lparr>c_wall = pr_now s, c_redis = 0, c_pg = pr_now s\<rparr>"
  let ?s = "(set_sweeper (tick_over (sweeper s)) s)\<lparr>pr_sys := fst (repo_RefreshEventStatus (sv_lru sv) (\<lambda>_. Done) ?c ?c ?c (Some 0) [] (pr_sys s))\<rparr>"
  have "process_step careful sv s ?s" using Ticking by (rule process_step.sweeper_ends) simp_all
  then show ?thesis by (intro exI [of _ ?s]) (auto simp: tick_over_def)
qed (use assms in auto)

lemma leads_to_trans:
  assumes "(process_step careful sv)\<^sup>*\<^sup>* s s1" and "pr_result s1 = pr_result s" and "leads_to careful sv s1 m (pr_result s1)"
  shows "leads_to careful sv s m (pr_result s)"
  using assms by (metis rtranclp_trans)

lemma leads_to_step:
  assumes "process_step careful sv s s1" and "leads_to careful sv s1 m res"
  shows "leads_to careful sv s m res"
  using assms(2) converse_rtranclp_into_rtranclp [of "process_step careful sv", OF assms(1)] by blast

lemma close_leads_to:
  assumes "repositories_Close (pr_main s) (pr_repos s) = Some (m, r)"
    and "leads_to careful sv (s\<lparr>pr_main := m, pr_repos := r\<rparr>) Exited (pr_result s)"
  shows "leads_to careful sv s Exited (pr_result s)"
  using process_step.close [OF assms(1)] assms(2) by (rule leads_to_step)

lemma closing_redis: "pr_main s = ClosingRedis \<Longrightarrow> leads_to careful sv s Exited (pr_result s)"
  by (rule close_leads_to) (auto intro: exI [of _ "s\<lparr>pr_main := Exited, pr_repos := (pr_repos s)\<lparr>rp_Rdb := False\<rparr>\<rparr>"])

lemma closing_postgres:
  assumes "pr_main s = ClosingPostgres"
  shows "leads_to careful sv s Exited (pr_result s)"
  using closing_redis [of "s\<lparr>pr_main := ClosingRedis, pr_repos := (pr_repos s)\<lparr>rp_DbPool := False\<rparr>\<rparr>" careful sv]
  by (intro close_leads_to) (simp_all add: assms)

lemma closing_sweeper:
  assumes "order_inv s" and "pr_main s = ClosingSweeper"
  shows "leads_to careful sv s Exited (pr_result s)"
proof -
  have "tk_loop (sweeper s) \<noteq> Returned" using assms by (simp add: order_inv_def ticker_inv_def)
  from sweeper_idle [OF this] obtain s1 where s1: "(process_step careful sv)\<^sup>*\<^sup>* s s1" "tk_loop (sweeper s1) = Selecting"
    "pr_main s1 = ClosingSweeper" "pr_result s1 = pr_result s" using assms(2) by fastforce
  have "order_inv s1" using s1(1) assms(1) by (induction rule: rtranclp_induct) (auto intro: order_inv_step)
  then have "ticker_inv False (sweeper s1)" using s1(3) by (simp add: order_inv_def)
  then obtain tk where tk: "ticker_Close (sweeper s1) = Closes tk" using ticker_Close_open(3) s1(2) by blast
  have "leads_to careful sv s1 Exited (pr_result s1)"
    using closing_postgres [of "s1\<lparr>pr_main := ClosingPostgres, pr_repos := (pr_repos s1)\<lparr>rp_sweeper := tk\<rparr>\<rparr>" careful sv]
    by (intro close_leads_to) (simp_all add: s1(3) tk)
  then show ?thesis using leads_to_trans s1(1,4) by blast
qed

lemma closing_promoter:
  assumes "order_inv s" and "pr_main s = ClosingPromoter"
  shows "leads_to careful sv s Exited (pr_result s)"
proof -
  have "tk_loop (promoter s) \<noteq> Returned" using assms by (simp add: order_inv_def ticker_inv_def)
  from promoter_idle [OF this] obtain s1 where s1: "(process_step careful sv)\<^sup>*\<^sup>* s s1" "tk_loop (promoter s1) = Selecting"
    "pr_main s1 = ClosingPromoter" "pr_result s1 = pr_result s" using assms(2) by fastforce
  have inv: "order_inv s1" using s1(1) assms(1) by (induction rule: rtranclp_induct) (auto intro: order_inv_step)
  then have "ticker_inv False (promoter s1)" using s1(3) by (simp add: order_inv_def)
  then obtain tk where tk: "ticker_Close (promoter s1) = Closes tk" using ticker_Close_open(3) s1(2) by blast
  have close: "repositories_Close (pr_main s1) (pr_repos s1) = Some (ClosingSweeper, (pr_repos s1)\<lparr>rp_promoter := tk\<rparr>)"
    by (simp add: s1(3) tk)
  have "leads_to careful sv s1 Exited (pr_result s1)"
    using closing_sweeper [OF order_inv_close [OF close inv], of careful sv] by (intro close_leads_to [OF close]) simp
  then show ?thesis using leads_to_trans s1(1,4) by blast
qed

text \<open>The requests that are left answer one after the other.\<close>

lemma shutting_down:
  assumes "order_inv s" and "pr_main s = ShuttingDown"
  shows "leads_to careful sv s Exited None"
  using assms
proof (induction "pr_requests s" arbitrary: s)
  case 0
  then have step: "process_step careful sv s (s\<lparr>pr_main := ClosingPromoter, pr_result := None\<rparr>)" by (intro process_step.shutdown_done) simp_all
  have "leads_to careful sv (s\<lparr>pr_main := ClosingPromoter, pr_result := None\<rparr>) Exited None"
    using closing_promoter [OF order_inv_step [OF step 0(2)], of careful sv] by simp
  then show ?case by (rule leads_to_step [OF step])
next
  case (Suc n)
  let ?k = "demo_calls\<lparr>k_clocks := demo_clock\<lparr>c_pg := pr_now s\<rparr>\<rparr>"
  let ?s = "s\<lparr>pr_requests := n, pr_sys := fst (serve sv ?k R_Health \<lparr>rq_authorization = [], rq_limit = [], rq_body = None\<rparr> (pr_sys s))\<rparr>"
  have step: "process_step careful sv s ?s" using Suc.hyps(2) Suc.prems(2) by (intro process_step.respond) simp_all
  have "leads_to careful sv ?s Exited None" using Suc.hyps(1) [of ?s] order_inv_step [OF step Suc.prems(1)] Suc.prems(2) by simp
  then show ?case by (rule leads_to_step [OF step])
qed

lemma serving_stops:
  assumes "order_inv s" and "pr_main s = Serving" "pr_signal s"
  shows "leads_to careful sv s Exited None"
proof -
  have step: "process_step careful sv s (s\<lparr>pr_main := ShuttingDown, pr_listening := False\<rparr>)" using assms(2,3) by (rule process_step.main_stop)
  have "leads_to careful sv (s\<lparr>pr_main := ShuttingDown, pr_listening := False\<rparr>) Exited None"
    using shutting_down [OF order_inv_step [OF step assms(1)], of careful sv] by simp
  then show ?thesis by (rule leads_to_step [OF step])
qed

lemma shutdown_leads_to_exit:
  assumes "order_inv s" and "pr_signal s \<or> pr_main s \<noteq> Serving"
  shows "leads_to careful sv s Exited (if stage (pr_main s) < 2 then None else pr_result s)"
  using assms
  by (cases "pr_main s")
    (simp_all add: serving_stops shutting_down closing_promoter closing_sweeper closing_postgres closing_redis order_inv_def, blast)

lemma reached_inv:
  assumes "run_start lib dotenv env dr now w = Some (Inr s0)"
    and "pg_wf (sys_db w)" "within_capacity now (sys_db w)" "within_quota now (sys_db w)"
    and "(process_step careful sv)\<^sup>*\<^sup>* s0 s"
  shows "process_inv careful s"
proof -
  have "store_inv (now, sys_db w)" using assms(2-4) by (simp add: store_inv_def)
  then have "started s0" using assms(1) unfolding started_def by blast
  then show ?thesis using lifecycle.reach_inv assms(5) by blast
qed

section \<open>A process for examples\<close>

definition demo_drivers :: drivers where
  "demo_drivers = \<lparr>dr_ParseConfig = (\<lambda>_. None), dr_NewWithConfig = (\<lambda>_. None), dr_PgPing = None, dr_RedisPing = (\<lambda>_. None)\<rparr>"

abbreviation demo_world :: "(string \<Rightarrow> time option) sys" where
  "demo_world \<equiv> demo_sys [] empty_redis (\<lambda>_. None)"

lemma demo_run_started:
  "\<exists>s. run_start demo_lib None demo_env demo_drivers 5 demo_world = Some (Inr s) \<and> pr_main s = Serving \<and> pr_sys s = demo_world"
proof -
  have l: "Load demo_lib None demo_env = Inr (read_config demo_lib demo_env)" using demo_Load by blast
  then have "0 < cfg_PromoteInterval (read_config demo_lib demo_env)" by (auto simp: Load_Inr)
  then show ?thesis
    by (simp add: run_start_def l NewRepositories_def newPostgresConnection_def newPostgresConfig_def newRedisConnection_def
        demo_drivers_def startRefreshEventStatusTicker_def startPromoterTicker_def NewTicker_def NewVirtualQueueRepository_def)
qed

lemma demo_world_sound: "pg_wf (sys_db demo_world)" "within_capacity 5 (sys_db demo_world)" "within_quota 5 (sys_db demo_world)"
proof -
  have "sys_db demo_world = demo_db" by (simp add: demo_sys_def demo_db_def)
  moreover have "within_capacity 5 demo_db" "within_quota 5 demo_db"
    by (simp_all add: within_capacity_def within_quota_def demo_defs active_seats_def user_active_seats_def seats_where_def)
  ultimately show "pg_wf (sys_db demo_world)" "within_capacity 5 (sys_db demo_world)" "within_quota 5 (sys_db demo_world)"
    using demo_db_wf by simp_all
qed

section \<open>Properties\<close>

text \<open>
  C27: the process stops in order. From any start over a sound database, whatever requests to the API and the demo routes, signals, listener
  failures and ticks follow, each request and tick taking effect as a whole: the main goroutine never panics on a closed stop channel; a tick of the promoter or of
  the sweep runs only while both pools are open; the Postgres pool is closed only after both goroutines
  have returned, and the Redis client only after the pool; if \<open>run\<close> returns without an error no request was
  still in its handler when the pool was closed; and, if the simulation requests satisfy \<open>prudent\<close>, no event is oversold on the way.
\<close>

theorem shutdown_is_orderly:
  assumes "run_start lib dotenv env dr now w = Some (Inr s0)"
    and "pg_wf (sys_db w)" "within_capacity now (sys_db w)" "within_quota now (sys_db w)"
    and "(process_step careful sv)\<^sup>*\<^sup>* s0 s"
  shows "pr_main s \<noteq> Crashed
    \<and> (tk_loop (promoter s) = Ticking \<or> tk_loop (sweeper s) = Ticking \<longrightarrow> rp_DbPool (pr_repos s) \<and> rp_Rdb (pr_repos s))
    \<and> (\<not> rp_DbPool (pr_repos s) \<longrightarrow> tk_loop (promoter s) = Returned \<and> tk_loop (sweeper s) = Returned \<and> \<not> pr_listening s)
    \<and> (\<not> rp_Rdb (pr_repos s) \<longrightarrow> \<not> rp_DbPool (pr_repos s) \<and> pr_main s = Exited)
    \<and> (\<not> rp_DbPool (pr_repos s) \<and> pr_result s = None \<longrightarrow> pr_requests s = 0)
    \<and> (careful \<longrightarrow> within_capacity (pr_now s) (sys_db (pr_sys s)) \<and> within_quota (pr_now s) (sys_db (pr_sys s)))"
proof -
  have inv: "order_inv s" "drain_inv s" "careful \<Longrightarrow> store_inv (pr_now s, sys_db (pr_sys s))"
    using reached_inv [OF assms] by (simp_all add: process_inv_def)
  then show ?thesis
    by (cases "pr_main s") (auto simp: order_inv_def drain_inv_def ticker_inv_def store_inv_def)
qed

theorem shutdown_is_orderly_witness:
  "\<exists>s0. run_start demo_lib None demo_env demo_drivers 5 demo_world = Some (Inr s0) \<and> tk_loop (promoter s0) \<noteq> Ticking
     \<and> within_capacity 5 (sys_db (pr_sys s0)) \<and> pr_main (s0\<lparr>pr_signal := True\<rparr>) \<noteq> Crashed"
proof -
  obtain s0 where s0: "run_start demo_lib None demo_env demo_drivers 5 demo_world = Some (Inr s0)" "pr_sys s0 = demo_world"
    using demo_run_started by blast
  have "(process_step True demo_server)\<^sup>*\<^sup>* s0 (s0\<lparr>pr_signal := True\<rparr>)" by (rule r_into_rtranclp) (rule process_step.signal)
  from shutdown_is_orderly [OF s0(1) demo_world_sound this] have "pr_main (s0\<lparr>pr_signal := True\<rparr>) \<noteq> Crashed" by blast
  moreover have "tk_loop (promoter s0) \<noteq> Ticking"
    using s0(1) by (auto simp: run_start_def NewRepositories_def startPromoterTicker_def NewTicker_def split: sum.splits option.splits prod.splits if_splits)
  ultimately show ?thesis using s0 demo_world_sound(2) by (intro exI [of _ s0]) simp
qed

text \<open>
  C28: the shutdown can always finish. In every state of such a run in which the signal has come or the shutdown
  has begun, with any number of requests in their handlers and with a tick of either ticker under way, there
  are steps that end with both goroutines returned and both pools closed; a process that is told to stop while
  serving or that is still draining can exit with status 0, and one that is already closing exits with the
  status of the error it met, if any.
\<close>

theorem shutdown_can_finish:
  assumes "run_start lib dotenv env dr now w = Some (Inr s0)"
    and "pg_wf (sys_db w)" "within_capacity now (sys_db w)" "within_quota now (sys_db w)"
    and "(process_step careful sv)\<^sup>*\<^sup>* s0 s" and "pr_signal s \<or> pr_main s \<noteq> Serving"
  shows "\<exists>s'. (process_step careful sv)\<^sup>*\<^sup>* s s' \<and> pr_main s' = Exited \<and> \<not> rp_DbPool (pr_repos s') \<and> \<not> rp_Rdb (pr_repos s')
    \<and> tk_loop (promoter s') = Returned \<and> tk_loop (sweeper s') = Returned
    \<and> exit_code (pr_result s') = (if pr_main s \<in> {Serving, ShuttingDown} then 0 else exit_code (pr_result s))"
proof -
  have "order_inv s" using reached_inv [OF assms(1-5)] by (simp add: process_inv_def)
  then obtain s' where s': "(process_step careful sv)\<^sup>*\<^sup>* s s'" "pr_main s' = Exited" "pr_result s' = (if stage (pr_main s) < 2 then None else pr_result s)"
    using shutdown_leads_to_exit assms(6) by blast
  have "(process_step careful sv)\<^sup>*\<^sup>* s0 s'" using assms(5) s'(1) by (rule rtranclp_trans)
  then have "order_inv s'" using reached_inv [OF assms(1-4)] by (simp add: process_inv_def)
  then have "\<not> rp_DbPool (pr_repos s')" "\<not> rp_Rdb (pr_repos s')" "tk_loop (promoter s') = Returned" "tk_loop (sweeper s') = Returned"
    using s'(2) by (simp_all add: order_inv_def ticker_inv_def)
  moreover have "exit_code (pr_result s') = (if pr_main s \<in> {Serving, ShuttingDown} then 0 else exit_code (pr_result s))"
    using s'(3) by (cases "pr_main s") (simp_all add: exit_code_def)
  ultimately show ?thesis using s'(1,2) by blast
qed

theorem shutdown_can_finish_witness:
  "\<exists>s0 s'. run_start demo_lib None demo_env demo_drivers 5 demo_world = Some (Inr s0)
     \<and> (process_step True demo_server)\<^sup>*\<^sup>* (s0\<lparr>pr_signal := True\<rparr>) s' \<and> pr_main s' = Exited \<and> exit_code (pr_result s') = 0"
proof -
  obtain s0 where s0: "run_start demo_lib None demo_env demo_drivers 5 demo_world = Some (Inr s0)" "pr_main s0 = Serving"
    using demo_run_started by blast
  have "(process_step True demo_server)\<^sup>*\<^sup>* s0 (s0\<lparr>pr_signal := True\<rparr>)" by (rule r_into_rtranclp) (rule process_step.signal)
  from shutdown_can_finish [OF s0(1) demo_world_sound this] s0(2) obtain s' where
    "(process_step True demo_server)\<^sup>*\<^sup>* (s0\<lparr>pr_signal := True\<rparr>) s'" "pr_main s' = Exited" "exit_code (pr_result s') = 0"
    by auto
  then show ?thesis using s0(1) by blast
qed

end
