(* ===== verification/Fairness.thy ===== *)
theory Fairness
  imports VirtualQueue "HOL-Library.Sublist"
begin

text \<open>
  What the waiting line and the gate promise to one user against all the others: the steps of
  \<open>src/backend/repository/virtualqueues\<close> that other users, the promoter, an administrator and
  the server's clock take, as a relation of its own, with what they may do to the user's place
  in the line and to the user's admission slot.
\<close>

section \<open>The steps of everybody else\<close>

text \<open>
  The steps of the gate less those by which user \<open>u\<close> joins or leaves event \<open>e\<close> or gives the
  slot back. \<open>joins\<close> restricts the scores with which others enter the line of \<open>e\<close>.
\<close>

inductive others_step :: "nat \<Rightarrow> string \<Rightarrow> string \<Rightarrow> (int \<Rightarrow> bool) \<Rightarrow> int \<times> cache \<Rightarrow> int \<times> cache \<Rightarrow> bool"
  for cap :: nat and e u :: string and joins :: "int \<Rightarrow> bool" where
  tick: "now \<le> now' \<Longrightarrow> others_step cap e u joins (now, r) (now', r)"
| expire: "others_step cap e u joins (now, r) (now, reap now r)"
| enqueue: "uuid_text v \<Longrightarrow> (e', v) \<noteq> (e, u) \<Longrightarrow> (e' = e \<longrightarrow> joins (Unix (wall + vq_QueueTTL repo))) \<Longrightarrow>
    others_step cap e u joins (now, r) (now, fst (vqEnqueue repo flt wall now e' v r))"
| dequeue: "uuid_text v \<Longrightarrow> (e', v) \<noteq> (e, u) \<Longrightarrow>
    others_step cap e u joins (now, r) (now, fst (vqDequeue x now e' v r))"
| ping: "uuid_text v \<Longrightarrow> others_step cap e u joins (now, r) (now, fst (vqPing repo x now e' v r))"
| admit: "unat (vq_maxConcurrentQueue repo) \<le> cap \<Longrightarrow>
    others_step cap e u joins (now, r) (now, fst (vqTryWhitelistEventQueue repo x now e' n r))"
| give_up: "(e', v) \<noteq> (e, u) \<Longrightarrow>
    others_step cap e u joins (now, r) (now, fst (vqDeleteWhitelistedUserTTL x now e' v r))"
| set_cap: "unat n \<le> cap \<Longrightarrow> others_step cap e u joins (now, r) (now, fst (vqSetEventMaxConcurrent x e' n r))"
| clear_cap: "others_step cap e u joins (now, r) (now, fst (vqClearEventMaxConcurrent x now e' r))"
| track: "others_step cap e u joins (now, r) (now, fst (TrackActiveEvent x e' r))"
| untrack: "others_step cap e u joins (now, r) (now, fst (UntrackIdleEvent x e' r))"

lemma others_vq_step: "others_step cap e u joins s s' \<Longrightarrow> vq_step cap s s'"
  by (induction rule: others_step.induct) (auto intro: vq_step.intros)

lemma others_vq_steps: "(others_step cap e u joins)\<^sup>*\<^sup>* s s' \<Longrightarrow> (vq_step cap)\<^sup>*\<^sup>* s s'"
  by (metis others_vq_step mono_rtranclp)

lemma others_forward: "others_step cap e u joins s s' \<Longrightarrow> fst s \<le> fst s'"
  by (induction rule: others_step.induct) auto

lemma others_steps_forward: "(others_step cap e u joins)\<^sup>*\<^sup>* s s' \<Longrightarrow> fst s \<le> fst s'"
  by (induction rule: rtranclp_induct) (auto dest: others_forward intro: order_trans)

section \<open>What a step does to a line\<close>

text \<open>
  A line only loses entries, and gains at most one, of another user, at its score's place.
\<close>

definition line_change :: "string \<Rightarrow> (int \<Rightarrow> bool) \<Rightarrow> rzset \<Rightarrow> rzset \<Rightarrow> bool" where
  "line_change u joins z z' \<longleftrightarrow>
     (\<exists>P. z' = filter P z) \<or> (\<exists>P x v. v \<noteq> u \<and> joins x \<and> z' = zinsert (x, v) (filter P z))"

lemma line_change_refl: "line_change u joins z z"
  unfolding line_change_def by (intro disjI1 exI [where x = "\<lambda>_. True"]) simp

lemma line_change_filter: "line_change u joins z (filter P z)"
  unfolding line_change_def by blast

lemma enqueueLuaScript_line:
  assumes "v \<noteq> u" and "joins expiresAt"
  shows "line_change u joins (r_zsets r q) (r_zsets (fst (enqueueLuaScript now q hb ct expiresAt v ttl r)) q)"
proof -
  let ?r = "rzremrangebyscore q ct r"
  have z: "r_zsets ?r q = filter (\<lambda>p. ct < fst p) (r_zsets r q)" by (simp add: rzremrangebyscore_def)
  show ?thesis
  proof (cases "ttl = 0 \<or> rexists now hb ?r")
    case True
    then have "r_zsets (fst (enqueueLuaScript now q hb ct expiresAt v ttl r)) q = r_zsets ?r q"
      by (auto simp: enqueueLuaScript_def rset_nx_def Let_def)
    then show ?thesis by (simp only: z line_change_filter)
  next
    case False
    then have "r_zsets (fst (enqueueLuaScript now q hb ct expiresAt v ttl r)) q
        = zinsert (expiresAt, v) (filter (\<lambda>p. snd p \<noteq> v) (filter (\<lambda>p. ct < fst p) (r_zsets r q)))"
      by (simp add: enqueueLuaScript_def rset_nx_def Let_def rzadd_def zwithout_def z split_beta)
    then show ?thesis unfolding line_change_def using assms by (auto simp: filter_filter)
  qed
qed

lemma enqueueLuaScript_line_other:
  "q' \<noteq> q \<Longrightarrow> r_zsets (fst (enqueueLuaScript now q hb ct ea v ttl r)) q' = r_zsets r q'"
  by (simp add: enqueueLuaScript_def rset_nx_def Let_def split_beta) (simp add: rzremrangebyscore_def rzadd_def)

lemma TrackActiveEvent_line [simp]: "r_zsets (fst (TrackActiveEvent x e r)) = r_zsets r"
  unfolding TrackActiveEvent_def by (rule io_call_inv [where P = "\<lambda>r'. r_zsets r' = r_zsets r"]) simp_all

lemma vqEnqueue_line:
  assumes "(e', v) \<noteq> (e, u)" and "e' = e \<longrightarrow> joins (Unix (wall + vq_QueueTTL repo))"
  shows "line_change u joins (r_zsets r (getEventVirtualQueueKey e))
    (r_zsets (fst (vqEnqueue repo flt wall now e' v r)) (getEventVirtualQueueKey e))"
proof -
  let ?f = "enqueueLuaScript now (getEventVirtualQueueKey e') (getUserHeartbeatKey e' v)
    (Unix wall) (Unix (wall + vq_QueueTTL repo)) v (Seconds (vq_HeartbeatTTL repo))"
  have "line_change u joins (r_zsets r (getEventVirtualQueueKey e)) (r_zsets (fst (?f r)) (getEventVirtualQueueKey e))"
  proof (cases "e' = e")
    case True
    then show ?thesis using assms by (simp add: enqueueLuaScript_line)
  next
    case False
    then have "getEventVirtualQueueKey e \<noteq> getEventVirtualQueueKey e'" by (simp add: event_keys_inj)
    then show ?thesis by (simp add: enqueueLuaScript_line_other line_change_refl)
  qed
  then have scr: "line_change u joins (r_zsets r (getEventVirtualQueueKey e))
      (r_zsets (fst (io_call (flt EQ_Script) ?f r)) (getEventVirtualQueueKey e))"
    by (intro io_call_inv [where P = "\<lambda>r'. line_change u joins (r_zsets r (getEventVirtualQueueKey e))
          (r_zsets r' (getEventVirtualQueueKey e))"] line_change_refl)
  show ?thesis
    by (rule vqEnqueue_state [of repo flt wall now e' v r]) (simp_all only: scr TrackActiveEvent_line)
qed

lemma admission_line:
  assumes "distinct (waiting (getEventVirtualQueueKey e') r)"
  shows "\<exists>P. r_zsets (fst (tryWhitelistEventQueueLuaScript now (getEventVirtualQueueKey e') (getEventWhitelisKey e')
      (getEventMaxConcurrentKey e') e' n m ttl r)) k = filter P (r_zsets r k)"
proof (cases "k = getEventVirtualQueueKey e'")
  case True
  then show ?thesis
    by (auto simp: tryWhitelist_reference [OF assms] admission_reference_def Let_def fold_settle_zset)
next
  case False
  then show ?thesis
    by (intro exI [where x = "\<lambda>_. True"])
       (simp add: tryWhitelist_reference [OF assms] admission_reference_def Let_def fold_settle_zsets_other)
qed

lemma io_call_line:
  assumes "\<exists>P. r_zsets (fst (f r)) k = filter P (r_zsets r k)"
  shows "line_change u joins (r_zsets r k) (r_zsets (fst (io_call x f r)) k)"
  by (rule io_call_inv [where P = "\<lambda>r'. line_change u joins (r_zsets r k) (r_zsets r' k)"])
     (use assms in \<open>auto simp: line_change_refl intro: line_change_filter\<close>)

lemma dequeue_line:
  "\<exists>P. r_zsets (fst (dequeueLuaScript now q w h v r)) k = filter P (r_zsets r k)"
  by (intro exI [where x = "\<lambda>p. k = q \<longrightarrow> snd p \<noteq> v"])
     (simp add: dequeueLuaScript_def Let_def split_beta, simp add: rzrem_def zwithout_def)

lemma same_line: "r_zsets (fst (f r)) k = r_zsets r k \<Longrightarrow> \<exists>P. r_zsets (fst (f r)) k = filter P (r_zsets r k)"
  by (intro exI [where x = "\<lambda>_. True"]) simp

lemma others_line:
  assumes "others_step cap e u joins (now, r) (now', r')" and "gate_inv cap (now, r)"
  shows "line_change u joins (r_zsets r (getEventVirtualQueueKey e)) (r_zsets r' (getEventVirtualQueueKey e))"
  using assms(1)
proof cases
  case (expire)
  then show ?thesis by (simp add: reap_def line_change_refl)
next
  case (enqueue v e' wall repo flt)
  then show ?thesis using vqEnqueue_line by simp
next
  case (dequeue v e' x)
  then show ?thesis by (auto simp: vqDequeue_state intro: io_call_line dequeue_line)
next
  case (ping v repo x e')
  then show ?thesis
    by (auto simp: vqPing_state pingLuaScript_def Let_def split_beta split: list.splits intro!: io_call_line same_line)
next
  case (admit repo x e' n)
  have "distinct (waiting (getEventVirtualQueueKey e') r)" using gate_invD(3) [OF assms(2)] by (simp add: zset_ok_def)
  then show ?thesis using admit by (auto simp: vqTryWhitelist_state intro: io_call_line admission_line)
next
  case (untrack x e')
  then show ?thesis
    by (auto simp: UntrackIdleEvent_state untrackIdleEventLuaScript_def intro!: io_call_line same_line)
qed (auto simp: line_change_refl vqDeleteWhitelisted_state vqSetEventMaxConcurrent_def vqClearEventMaxConcurrent_def
      intro!: io_call_line same_line)

section \<open>Nobody overtakes\<close>

abbreviation ahead_of :: "string \<Rightarrow> rzset \<Rightarrow> string list" where
  "ahead_of u z \<equiv> takeWhile (\<lambda>v. v \<noteq> u) (zmembers z)"

lemma ahead_filter:
  assumes "u \<in> set (zmembers (filter P z))" and "distinct (zmembers z)"
  shows "subseq (ahead_of u (filter P z)) (ahead_of u z)"
  using assms
proof (induction z)
  case (Cons p z)
  show ?case
  proof (cases "snd p = u")
    case True
    then have "u \<notin> set (zmembers (filter P z))" using Cons.prems(2) by auto
    then have "P p" using Cons.prems(1) by (auto split: if_splits)
    then show ?thesis using True by simp
  next
    case False
    then show ?thesis using Cons by (auto split: if_splits)
  qed
qed simp

lemma zset_score_unique: "zset_ok z \<Longrightarrow> (s, u) \<in> set z \<Longrightarrow> p \<in> set z \<Longrightarrow> snd p = u \<Longrightarrow> p = (s, u)"
  unfolding zset_ok_def distinct_map by (metis inj_onD snd_conv)

lemma zset_entry_kept:
  assumes "zset_ok z" and "(s, u) \<in> set z \<or> u \<notin> set (zmembers z)" and "u \<in> set (zmembers (filter P z))"
  shows "(s, u) \<in> set z \<and> (s, u) \<in> set (filter P z)"
proof -
  obtain p where p: "p \<in> set z" "P p" "snd p = u" using assms(3) by auto
  then have mem: "(s, u) \<in> set z" using assms(2) by auto
  have "p = (s, u)" by (rule zset_score_unique [OF assms(1) mem p(1,3)])
  then show ?thesis using p mem by simp
qed

lemma ahead_zinsert:
  assumes "(s, u) \<in> set z" and "zset_ok z" and "s < x" and "v \<noteq> u"
  shows "ahead_of u (zinsert (x, v) z) = ahead_of u z"
  using assms(1,2)
proof (induction z)
  case (Cons p z)
  have ok: "zset_ok z" using Cons.prems(2) by (simp add: zset_ok_def zsorted_def)
  show ?case
  proof (cases "snd p = u")
    case True
    then have "p = (s, u)" by (intro zset_score_unique [OF Cons.prems(2,1)]) simp_all
    then show ?thesis using assms(3) by simp
  next
    case False
    then have "(s, u) \<in> set z" using Cons.prems(1) by auto
    then have "fst p \<le> s" using Cons.prems(2) by (force simp: zset_ok_def zsorted_def)
    then show ?thesis using False Cons.IH [OF \<open>(s, u) \<in> set z\<close> ok] assms(3) by auto
  qed
qed simp

text \<open>
  A step of somebody else who joins with a later score keeps the user's entry or drops it for
  good, and leaves nobody ahead who was not ahead before.
\<close>

lemma line_change_ahead:
  assumes change: "line_change u (\<lambda>x. s < x) z z'" and z: "zset_ok z" and u: "(s, u) \<in> set z \<or> u \<notin> set (zmembers z)"
  shows "((s, u) \<in> set z' \<or> u \<notin> set (zmembers z'))
    \<and> (u \<in> set (zmembers z') \<longrightarrow> (s, u) \<in> set z \<and> subseq (ahead_of u z') (ahead_of u z))"
  using change unfolding line_change_def
proof (elim disjE exE conjE)
  fix P assume z': "z' = filter P z"
  then show ?thesis using zset_entry_kept [OF z u, of P] ahead_filter [of u P z] z by (metis zset_ok_def)
next
  fix P x v assume *: "v \<noteq> u" "s < x" "z' = zinsert (x, v) (filter P z)"
  show ?thesis
  proof (cases "u \<in> set (zmembers (filter P z))")
    case False
    then show ?thesis using * by auto
  next
    case True
    note mem = zset_entry_kept [OF z u True]
    then have "ahead_of u z' = ahead_of u (filter P z)"
      unfolding *(3) using * zset_ok_filter [OF z] by (intro ahead_zinsert) simp_all
    then show ?thesis using mem ahead_filter [OF True] z *(3) by (simp add: zset_ok_def)
  qed
qed

lemma others_ahead:
  assumes "(others_step cap e u (\<lambda>x. s < x))\<^sup>*\<^sup>* st st'" and "gate_inv cap st"
    and "(s, u) \<in> set (r_zsets (snd st) (getEventVirtualQueueKey e))"
    and "u \<in> set (waiting (getEventVirtualQueueKey e) (snd st'))"
  shows "subseq (ahead_of u (r_zsets (snd st') (getEventVirtualQueueKey e)))
    (ahead_of u (r_zsets (snd st) (getEventVirtualQueueKey e)))"
proof -
  let ?z = "\<lambda>st. r_zsets (snd st) (getEventVirtualQueueKey e)"
  have "gate_inv cap st' \<and> ((s, u) \<in> set (?z st') \<or> u \<notin> set (zmembers (?z st')))
    \<and> (u \<in> set (zmembers (?z st')) \<longrightarrow> subseq (ahead_of u (?z st')) (ahead_of u (?z st)))"
    using assms(1)
  proof induction
    case base
    then show ?case using assms(2,3) by simp
  next
    case (step y w)
    have inv: "gate_inv cap y" using step.IH by blast
    have "line_change u (\<lambda>x. s < x) (?z y) (?z w)"
      using others_line [of cap e u "\<lambda>x. s < x" "fst y" "snd y" "fst w" "snd w"] step.hyps(2) inv by simp
    then have "((s, u) \<in> set (?z w) \<or> u \<notin> set (zmembers (?z w)))
      \<and> (u \<in> set (zmembers (?z w)) \<longrightarrow> (s, u) \<in> set (?z y) \<and> subseq (ahead_of u (?z w)) (ahead_of u (?z y)))"
      by (rule line_change_ahead) (use step.IH inv gate_invD(3) [of cap "fst y" "snd y" e] in auto)
    moreover have "gate_inv cap w" by (rule vq_step_inv [OF others_vq_step [OF step.hyps(2)] inv])
    ultimately show ?case using step.IH by (metis (no_types, lifting) image_eqI set_map snd_conv subseq_order.order_trans)
  qed
  then show ?thesis using assms(4) by blast
qed

section \<open>Nobody takes a slot away\<close>

definition slots_ok :: "int \<times> cache \<Rightarrow> bool" where
  "slots_ok st \<longleftrightarrow> (\<forall>k. distinct (map fst (r_hashes (snd st) k)))"

lemma distinct_hwithout: "distinct (map fst h) \<Longrightarrow> distinct (map fst (hwithout f h))"
  unfolding hwithout_def by (rule distinct_map_filter)

lemma slots_ok_cong: "r_hashes r' = r_hashes r \<Longrightarrow> slots_ok (now, r) \<Longrightarrow> slots_ok (now', r')"
  by (simp add: slots_ok_def)

lemma slots_ok_hdel: "slots_ok (now, r) \<Longrightarrow> slots_ok (now, fst (rhdel t k f r))"
  by (simp add: slots_ok_def rhdel_def distinct_hwithout)

lemma slots_ok_settle: "slots_ok (now, r) \<Longrightarrow> slots_ok (now, settle t q e ttl u r)"
  by (simp add: slots_ok_def settle_def rhexpire_rhset distinct_hwithout hwithout_fields)

lemma slots_ok_fold_settle: "slots_ok (now, r) \<Longrightarrow> slots_ok (now, fold (settle t q e ttl) s r)"
  by (induction s arbitrary: r) (simp_all add: slots_ok_settle)

lemma admission_slots_ok:
  assumes "gate_inv cap (now, r)" and "slots_ok (now, r)"
  shows "slots_ok (now, fst (tryWhitelistEventQueueLuaScript t (getEventVirtualQueueKey e) (getEventWhitelisKey e)
      (getEventMaxConcurrentKey e) e n m ttl r))"
  using slots_ok_fold_settle [OF assms(2)] gate_invD(3) [OF assms(1), of e]
  by (simp add: tryWhitelist_reference zset_ok_def admission_reference_def Let_def)

lemma dequeue_hashes: "r_hashes (fst (dequeueLuaScript now q w h v r)) = (r_hashes r)(w := hwithout v (r_hashes r w))"
  by (simp add: dequeueLuaScript_def Let_def split_beta) (simp add: rhdel_def)

lemma vqDequeue_hashes:
  "r_hashes (fst (vqDequeue x now e v r)) \<in>
     {r_hashes r, (r_hashes r)(getEventWhitelisKey e := hwithout v (r_hashes r (getEventWhitelisKey e)))}"
  unfolding vqDequeue_state by (rule io_call_inv) (simp_all add: dequeue_hashes)

lemma vqDelete_hashes:
  "r_hashes (fst (vqDeleteWhitelistedUserTTL x now e v r)) \<in>
     {r_hashes r, (r_hashes r)(getEventWhitelisKey e := hwithout v (r_hashes r (getEventWhitelisKey e)))}"
  unfolding vqDeleteWhitelisted_state by (rule io_call_inv) (simp_all add: rhdel_def)

lemma vqPing_hashes [simp]: "r_hashes (fst (vqPing repo x now e v r)) = r_hashes r"
  unfolding vqPing_state
  by (rule io_call_inv [where P = "\<lambda>r'. r_hashes r' = r_hashes r"])
     (simp_all add: pingLuaScript_def Let_def split_beta split: list.splits)

lemma TrackActiveEvent_hashes [simp]: "r_hashes (fst (TrackActiveEvent x e r)) = r_hashes r"
  unfolding TrackActiveEvent_def by (rule io_call_inv [where P = "\<lambda>r'. r_hashes r' = r_hashes r"]) simp_all

lemma UntrackIdleEvent_hashes [simp]: "r_hashes (fst (UntrackIdleEvent x e r)) = r_hashes r"
  unfolding UntrackIdleEvent_state
  by (rule io_call_inv [where P = "\<lambda>r'. r_hashes r' = r_hashes r"]) (simp_all add: untrackIdleEventLuaScript_def)

lemma cap_hashes [simp]:
  "r_hashes (fst (vqSetEventMaxConcurrent x e n r)) = r_hashes r"
  "r_hashes (fst (vqClearEventMaxConcurrent x now e r)) = r_hashes r"
  unfolding vqSetEventMaxConcurrent_def vqClearEventMaxConcurrent_def
  by (rule io_call_inv [where P = "\<lambda>r'. r_hashes r' = r_hashes r"]; simp)+

lemma vqEnqueue_hashes [simp]: "r_hashes (fst (vqEnqueue repo flt wall now e v r)) = r_hashes r"
proof -
  let ?f = "enqueueLuaScript now (getEventVirtualQueueKey e) (getUserHeartbeatKey e v)
    (Unix wall) (Unix (wall + vq_QueueTTL repo)) v (Seconds (vq_HeartbeatTTL repo))"
  have scr: "r_hashes (fst (io_call (flt EQ_Script) ?f r)) = r_hashes r"
    by (rule io_call_inv [where P = "\<lambda>r'. r_hashes r' = r_hashes r"])
       (simp_all add: enqueueLuaScript_def rset_nx_def Let_def split_beta)
  show ?thesis
    by (rule vqEnqueue_state [of repo flt wall now e v r]) (simp_all only: scr TrackActiveEvent_hashes)
qed

text \<open>The fields of a slot hash are distinct in every state of the gate.\<close>

lemma vq_step_slots_ok:
  assumes "vq_step cap st st'" and "gate_inv cap st" and "slots_ok st"
  shows "slots_ok st'"
  using assms
proof cases
  case (expire now r)
  then show ?thesis using assms(3) by (simp add: slots_ok_def reap_def distinct_map_filter)
next
  case (dequeue u now r x e)
  then show ?thesis using assms(3) vqDequeue_hashes [of x now e u r] by (auto simp: slots_ok_def distinct_hwithout)
next
  case (give_up now r x e u)
  then show ?thesis using assms(3) vqDelete_hashes [of x now e u r] by (auto simp: slots_ok_def distinct_hwithout)
next
  case (admit repo now r x e n)
  then have "slots_ok (now, r)" "gate_inv cap (now, r)" using assms(2,3) by simp_all
  then show ?thesis
    unfolding admit(2) vqTryWhitelist_state by (intro io_call_inv [where P = "\<lambda>r. slots_ok (now, r)"] admission_slots_ok)
qed (use assms(3) in \<open>auto simp: slots_ok_def\<close>)

interpretation slots: inductive_invariant "\<lambda>st. snd st = empty_redis" "vq_step cap"
  "\<lambda>st. gate_inv cap st \<and> slots_ok st" for cap
  by unfold_locales
     (auto simp: slots_ok_def empty_redis_def intro: gate_inv_empty [unfolded empty_redis_def] vq_step_inv,
      use vq_step_slots_ok in \<open>auto simp: slots_ok_def\<close>)

lemma hfind_reaped:
  assumes "distinct (map fst h)" and "now \<le> t"
  shows "hfind t f (filter (\<lambda>p. live now (snd (snd p))) h) = hfind t f h"
proof -
  have gone: "map_of (filter P h) f = None" if "map_of h f = None" for P
    using that by (auto simp: map_of_eq_None_iff)
  have kept: "map_of (filter P h) f = (if P (f, y) then Some y else None)" if "map_of h f = Some y" for P y
    using that assms(1)
  proof (induction h)
    case (Cons p h)
    then have "map_of (filter P h) (fst p) = None" by (force simp: map_of_eq_None_iff)
    then show ?case using Cons by (cases p) (auto split: if_splits)
  qed simp
  show ?thesis
    using live_antimono [OF _ assms(2)]
    by (cases "map_of h f") (auto simp: hfind_def gone kept)
qed

lemma admission_slot_other:
  assumes "distinct (waiting (getEventVirtualQueueKey e') r)"
    and "e' = e \<longrightarrow> u \<notin> set (waiting (getEventVirtualQueueKey e) r)"
  shows "slot t e u (fst (tryWhitelistEventQueueLuaScript now (getEventVirtualQueueKey e') (getEventWhitelisKey e')
      (getEventMaxConcurrentKey e') e' n m ttl r)) = slot t e u r"
proof (cases "e' = e")
  case True
  have "u \<notin> set (scan_alive P k (waiting (getEventVirtualQueueKey e) r))" for P k
    using assms(2) True scan_alive_set [of P k] by blast
  then show ?thesis
    using assms(1) True by (simp add: tryWhitelist_reference admission_reference_def Let_def fold_settle_slot_other)
next
  case False
  then show ?thesis
    by (simp add: tryWhitelist_reference [OF assms(1)] admission_reference_def Let_def fold_settle_hash_other event_keys_inj)
qed

lemma others_slot:
  assumes step: "others_step cap e u joins (now, r) (now', r')" and inv: "gate_inv cap (now, r)" "slots_ok (now, r)"
    and out: "u \<notin> set (waiting (getEventVirtualQueueKey e) r)" and t: "now' \<le> t"
  shows "slot t e u r' = slot t e u r"
  using step
proof cases
  case expire
  then show ?thesis using inv(2) t by (simp add: reap_def slots_ok_def hfind_reaped)
next
  case (dequeue v e' x)
  then show ?thesis
    using vqDequeue_hashes [of x now e' v r] by (cases "e' = e") (auto simp: hfind_hwithout event_keys_inj)
next
  case (give_up e' v x)
  then show ?thesis
    using vqDelete_hashes [of x now e' v r] by (cases "e' = e") (auto simp: hfind_hwithout event_keys_inj)
next
  case (admit repo x e' n)
  have "distinct (waiting (getEventVirtualQueueKey e') r)" using gate_invD(3) [OF inv(1)] by (simp add: zset_ok_def)
  then show ?thesis
    unfolding admit(2) vqTryWhitelist_state using out
    by (intro io_call_inv [where P = "\<lambda>r'. slot t e u r' = slot t e u r"] admission_slot_other) simp_all
qed simp_all

lemma line_change_out: "line_change u joins z z' \<Longrightarrow> u \<notin> set (zmembers z) \<Longrightarrow> u \<notin> set (zmembers z')"
  by (auto simp: line_change_def)

lemma others_steps_slot:
  assumes "(others_step cap e u joins)\<^sup>*\<^sup>* st st'" and "gate_inv cap st \<and> slots_ok st"
    and "u \<notin> set (waiting (getEventVirtualQueueKey e) (snd st))" and "fst st' \<le> t"
  shows "slot t e u (snd st') = slot t e u (snd st)"
  using assms
proof (induction rule: converse_rtranclp_induct)
  case (step y z)
  obtain now r now' r' where yz: "y = (now, r)" "z = (now', r')" by (metis prod.exhaust)
  have later: "now' \<le> fst st'"
    using others_steps_forward [OF step.hyps(2)] unfolding yz by simp
  have inv: "gate_inv cap z \<and> slots_ok z"
    using slots.inv_step [OF others_vq_step [OF step.hyps(1)]] step.prems(1) by blast
  have "u \<notin> set (waiting (getEventVirtualQueueKey e) r')"
    using others_line line_change_out step.hyps(1) step.prems(1,2) unfolding yz by (metis snd_conv)
  then have "slot t e u (snd st') = slot t e u (snd z)" using step.IH inv step.prems(3) unfolding yz by simp
  moreover have "slot t e u r' = slot t e u r"
    using others_slot [of cap e u joins now r now' r' t] step.hyps(1) step.prems later unfolding yz by simp
  ultimately show ?case unfolding yz by simp
qed simp

section \<open>Who is admitted first\<close>

lemma in_prefix_before:
  assumes "u \<in> set ws" and "v \<in> set (take j ws)" and "v \<notin> set (takeWhile (\<lambda>w. w \<noteq> u) ws)"
  shows "u \<in> set (take j ws)"
proof (rule ccontr)
  assume "u \<notin> set (take j ws)"
  then have "takeWhile (\<lambda>w. w \<noteq> u) (take j ws @ drop j ws) = take j ws @ takeWhile (\<lambda>w. w \<noteq> u) (drop j ws)"
    by (intro takeWhile_append2) blast
  then show False using assms(2,3) by simp
qed

lemma admission_in_order:
  assumes line: "distinct (waiting (getEventVirtualQueueKey e) r)" and ttl: "0 < Seconds (vq_WhitelistTTL repo)"
    and u: "u \<in> set (waiting (getEventVirtualQueueKey e) r)" "beating now e r u"
    and v: "v \<in> set (waiting (getEventVirtualQueueKey e) r)" "v \<notin> set (ahead_of u (r_zsets r (getEventVirtualQueueKey e)))"
    and gone: "v \<notin> set (waiting (getEventVirtualQueueKey e) (fst (vqTryWhitelistEventQueue repo x now e n r)))"
  shows "vqGetWhitelistedUserTTL Done now e u (fst (vqTryWhitelistEventQueue repo x now e n r))
    = Inr (int (Seconds (vq_WhitelistTTL repo)) * Second)"
proof -
  let ?q = "getEventVirtualQueueKey e" and ?t = "Seconds (vq_WhitelistTTL repo)"
  let ?k = "min (unat n) (effective_cap now e (unat (vq_maxConcurrentQueue repo)) r - rhlen (getEventWhitelisKey e) r)"
  let ?s = "scan_alive (beating now e r) ?k (waiting ?q r)"
  let ?r = "fst (vqTryWhitelistEventQueue repo x now e n r)"
  have "?r = r \<or> ?r = fold (settle now ?q e ?t) ?s r"
    using io_call_state [of x "tryWhitelistEventQueueLuaScript now ?q (getEventWhitelisKey e) (getEventMaxConcurrentKey e) e
        (unat n) (unat (vq_maxConcurrentQueue repo)) ?t" r]
    by (simp add: vqTryWhitelist_state tryWhitelist_reference [OF line] admission_reference_def Let_def)
  then have r': "?r = fold (settle now ?q e ?t) ?s r" using v(1) gone by auto
  have "v \<in> set ?s" using gone v(1) unfolding r' fold_settle_waiting by simp
  then have "u \<in> set ?s" using in_prefix_before [OF u(1) _ v(2)] scan_alive_prefix by metis
  moreover have "distinct ?s" by (subst scan_alive_prefix) (rule distinct_take [OF line])
  ultimately have "slot now e u ?r = Some (''1'', Some (now + 1000 * int ?t))"
    unfolding r' using u(2) ttl by (simp add: fold_settle_slot)
  moreover have "(1000 * int ?t + 999) div 1000 = int ?t" by simp
  ultimately show ?thesis by (simp add: vqGetWhitelistedUserTTL_def rhttl_def)
qed

section \<open>A run of the promoter\<close>

lemma scan_reaches:
  assumes "u \<in> set ws" and "P u" and "length (filter P (takeWhile (\<lambda>v. v \<noteq> u) ws)) < k"
  shows "u \<in> set (scan_alive P k ws)"
  using assms
proof (induction P k ws rule: scan_alive.induct)
  case (3 P k v vs)
  then show ?case by (cases "v = u") (auto split: if_splits)
qed simp_all

lemma in_set_ahead: "u \<in> set ws \<Longrightarrow> length (takeWhile (\<lambda>v. v \<noteq> u) ws) < length ws"
  by (induction ws) auto

text \<open>The part of the keyspace that the line and the gate of an event consist of.\<close>

definition untouched :: "string \<Rightarrow> cache \<Rightarrow> cache \<Rightarrow> bool" where
  "untouched e r r' \<longleftrightarrow>
     r_zsets r' (getEventVirtualQueueKey e) = r_zsets r (getEventVirtualQueueKey e)
   \<and> r_hashes r' (getEventWhitelisKey e) = r_hashes r (getEventWhitelisKey e)
   \<and> r_strs r' (getEventMaxConcurrentKey e) = r_strs r (getEventMaxConcurrentKey e)
   \<and> (\<forall>v. uuid_text v \<longrightarrow> r_strs r' (getUserHeartbeatKey e v) = r_strs r (getUserHeartbeatKey e v))"

lemma untouched_refl: "untouched e r r"
  by (simp add: untouched_def)

lemma untouched_trans: "untouched e r r' \<Longrightarrow> untouched e r' r'' \<Longrightarrow> untouched e r r''"
  by (simp add: untouched_def)

lemma untouched_reads:
  assumes "untouched e r r'"
  shows "waiting (getEventVirtualQueueKey e) r' = waiting (getEventVirtualQueueKey e) r"
    "rhlen (getEventWhitelisKey e) r' = rhlen (getEventWhitelisKey e) r" "effective_cap now e m r' = effective_cap now e m r"
    "rzcard (getEventVirtualQueueKey e) r' = rzcard (getEventVirtualQueueKey e) r" "uuid_text v \<Longrightarrow> beating now e r' v = beating now e r v"
  using assms by (simp_all add: untouched_def rhlen_def effective_cap_def rget_def rexists_def rzcard_def)

lemma admission_untouched:
  assumes inv: "gate_inv cap (now, r)" and "e' \<noteq> e"
  shows "untouched e r (fst (vqTryWhitelistEventQueue repo x now e' n r))"
proof -
  let ?s = "\<lambda>k. scan_alive (beating now e' r) k (waiting (getEventVirtualQueueKey e') r)"
  have line: "distinct (waiting (getEventVirtualQueueKey e') r)" using gate_invD(3) [OF inv] by (simp add: zset_ok_def)
  have uuids: "uuid_text v" if "v \<in> set (?s k)" for v k
    using that scan_alive_set gate_invD(4) [OF inv, of e'] by (fastforce simp: list_all_iff)
  have "getUserHeartbeatKey e v \<notin> getUserHeartbeatKey e' ` set (?s k)" if "uuid_text v" for v k
    using that assms(2) uuids heartbeat_key_unique by blast
  moreover have "getEventMaxConcurrentKey e \<notin> getUserHeartbeatKey e' ` set (?s k)" for k
    using uuids heartbeat_key_not_cap [symmetric] by blast
  ultimately have "untouched e r (fold (settle now (getEventVirtualQueueKey e') e' ttl) (?s k) r)" for k ttl
    using assms(2) by (simp add: untouched_def fold_settle_zsets_other fold_settle_hash_other fold_settle_strs event_keys_inj)
  then show ?thesis
    unfolding vqTryWhitelist_state
    by (intro io_call_inv [where P = "untouched e r"] untouched_refl)
       (simp add: tryWhitelist_reference [OF line] admission_reference_def Let_def)
qed

lemma UntrackIdleEvent_untouched: "untouched e r (fst (UntrackIdleEvent x e' r))"
  unfolding UntrackIdleEvent_state
  by (rule io_call_inv [where P = "untouched e r"]) (simp_all add: untouched_def untrackIdleEventLuaScript_def)

lemma promote_event_untouched:
  assumes "gate_inv cap (now, r)" and "e' \<noteq> e"
  shows "untouched e r (promote_event repo flt now e' r)"
  using UntrackIdleEvent_untouched admission_untouched [OF assms]
  by (simp add: promote_event_def Let_def untouched_refl split: sum.split)

text \<open>The promoter's step for an event is a step of the others.\<close>

lemma promote_event_others:
  assumes "unat (vq_maxConcurrentQueue repo) \<le> cap"
  shows "(others_step cap e u joins)\<^sup>*\<^sup>* (now, r) (now, promote_event repo flt now e' r)"
  using r_into_rtranclp [of "others_step cap e u joins", OF others_step.untrack]
    r_into_rtranclp [of "others_step cap e u joins", OF others_step.admit [OF assms]]
  by (auto simp: promote_event_def Let_def split: sum.split)

lemma promote_events_others:
  assumes "unat (vq_maxConcurrentQueue repo) \<le> cap"
  shows "(others_step cap e u joins)\<^sup>*\<^sup>* (now, r) (now, fold (promote_event repo flt now) es r)"
  by (induction es arbitrary: r) (auto intro: rtranclp_trans promote_event_others [OF assms])

lemma promote_events_untouched:
  assumes "gate_inv cap (now, r)" and "unat (vq_maxConcurrentQueue repo) \<le> cap" and "e \<notin> set es"
  shows "untouched e r (fold (promote_event repo flt now) es r)"
  using assms(1,3)
proof (induction es arbitrary: r)
  case (Cons e' es)
  have "gate_inv cap (now, promote_event repo flt now e' r)"
    by (rule gate.steps_inv [OF others_vq_steps [OF promote_event_others [OF assms(2)]] Cons.prems(1)])
  then show ?case
    using Cons untouched_trans promote_event_untouched [OF Cons.prems(1), of e' e repo flt] by auto
qed (simp add: untouched_refl)

text \<open>The step for the event itself admits every living user with room behind the living ahead.\<close>

lemma promote_event_reaches:
  assumes inv: "gate_inv cap (now, r)" and ttl: "0 < Seconds (vq_WhitelistTTL repo)"
    and u: "u \<in> set (waiting (getEventVirtualQueueKey e) r)" "beating now e r u"
    and room: "length (filter (beating now e r) (ahead_of u (r_zsets r (getEventVirtualQueueKey e)))) + rhlen (getEventWhitelisKey e) r
      < effective_cap now e (unat (vq_maxConcurrentQueue repo)) r"
    and small: "effective_cap now e (unat (vq_maxConcurrentQueue repo)) r < 2 ^ 63"
      "length (r_zsets r (getEventVirtualQueueKey e)) < 2 ^ 63"
  shows "slot now e u (promote_event repo (\<lambda>_. Done) now e r) = Some (''1'', Some (now + 1000 * int (Seconds (vq_WhitelistTTL repo))))
    \<and> u \<notin> set (waiting (getEventVirtualQueueKey e) (promote_event repo (\<lambda>_. Done) now e r))"
proof -
  let ?q = "getEventVirtualQueueKey e" and ?c = "effective_cap now e (unat (vq_maxConcurrentQueue repo)) r" and ?h = "rhlen (getEventWhitelisKey e) r"
  have line: "distinct (waiting ?q r)" using gate_invD(3) [OF inv] by (simp add: zset_ok_def)
  have some: "rzcard ?q r \<noteq> 0" using u(1) by (auto simp: rzcard_def)
  obtain n where n: "unat n = min (rzcard ?q r) (?c - ?h)" "promote_event repo (\<lambda>_. Done) now e r = fst (vqTryWhitelistEventQueue repo Done now e n r)"
    by (rule promote_event_admits [OF small _ some]) (use room small in simp_all)
  let ?s = "scan_alive (beating now e r) (min (unat n) (?c - ?h)) (waiting ?q r)"
  have r': "promote_event repo (\<lambda>_. Done) now e r = fold (settle now ?q e (Seconds (vq_WhitelistTTL repo))) ?s r"
    unfolding n(2) vqTryWhitelist_state by (simp add: tryWhitelist_reference [OF line] admission_reference_def Let_def)
  have "length (ahead_of u (r_zsets r ?q)) < rzcard ?q r"
    using in_set_ahead [OF u(1)] by (simp add: rzcard_def)
  then have "length (filter (beating now e r) (ahead_of u (r_zsets r ?q))) < min (unat n) (?c - ?h)"
    using room le_less_trans [OF length_filter_le] unfolding n(1) by force
  then have "u \<in> set ?s" by (rule scan_reaches [where P = "beating now e r", OF u])
  moreover have "distinct ?s" by (subst scan_alive_prefix) (rule distinct_take [OF line])
  ultimately show ?thesis
    unfolding r' fold_settle_waiting using u(2) ttl by (simp add: fold_settle_slot)
qed

section \<open>Two users of one event\<close>

definition fair_repo :: VirtualQueueRepository where
  "fair_repo = demo_repo\<lparr>vq_maxConcurrentQueue := 2\<rparr>"

definition fair_user :: "nat \<Rightarrow> string" where
  "fair_user n = replicate 36 (if n = 0 then CHR ''a'' else CHR ''b'')"

definition fair_joined :: "nat \<Rightarrow> time \<Rightarrow> cache \<Rightarrow> cache" where
  "fair_joined n wall r = fst (vqEnqueue fair_repo (\<lambda>_. Done) wall 0 ''e'' (fair_user n) r)"

definition fair_admitted :: "cache \<Rightarrow> cache" where
  "fair_admitted r = fst (vqTryWhitelistEventQueue fair_repo Done 0 ''e'' 2 r)"

lemma fair_demo:
  "uuid_text (fair_user n)" "fair_user (Suc 0) \<noteq> fair_user 0" "vq_QueueTTL fair_repo = 2 * Second"
  "vq_WhitelistTTL fair_repo = 2 * Second" "Seconds (2 * Second) = 2"
  by (simp_all add: uuid_text_def fair_user_def fair_repo_def demo_repo_def Seconds_def list_all_iff)

lemma fair_joins: "(vq_step 2)\<^sup>*\<^sup>* (0, empty_redis) (0, fair_joined 0 0 empty_redis)"
  unfolding fair_joined_def by (rule r_into_rtranclp, rule vq_step.enqueue) (rule fair_demo)

section \<open>Properties\<close>

text \<open>
  C14: first come, first served. While user \<open>u\<close> waits for event \<open>e\<close>, whatever the others, the
  promoter and the clock do, with others joining in a later second than \<open>u\<close>, the users ahead of
  \<open>u\<close> are always some of those who were ahead before, in the same order. Hence no admission
  takes a user \<open>v\<close> who was not ahead of \<open>u\<close> out of the line without giving \<open>u\<close>, if alive, a slot
  for the full whitelist time as well.
\<close>

theorem first_come_first_served:
  assumes "(vq_step cap)\<^sup>*\<^sup>* (t, empty_redis) (now, r)"
    and "(s, u) \<in> set (r_zsets r (getEventVirtualQueueKey e))"
    and "(others_step cap e u (\<lambda>x. s < x))\<^sup>*\<^sup>* (now, r) (now', r')"
    and "u \<in> set (zmembers (r_zsets r' (getEventVirtualQueueKey e)))"
  shows "subseq (takeWhile (\<lambda>v. v \<noteq> u) (zmembers (r_zsets r' (getEventVirtualQueueKey e))))
      (takeWhile (\<lambda>v. v \<noteq> u) (zmembers (r_zsets r (getEventVirtualQueueKey e))))
    \<and> (\<forall>repo x n v r''. 0 < Seconds (vq_WhitelistTTL repo) \<and> rexists now' (getUserHeartbeatKey e u) r'
         \<and> v \<notin> set (takeWhile (\<lambda>v. v \<noteq> u) (zmembers (r_zsets r (getEventVirtualQueueKey e))))
         \<and> v \<in> set (zmembers (r_zsets r' (getEventVirtualQueueKey e)))
         \<and> r'' = fst (vqTryWhitelistEventQueue repo x now' e n r')
         \<and> v \<notin> set (zmembers (r_zsets r'' (getEventVirtualQueueKey e)))
         \<longrightarrow> vqGetWhitelistedUserTTL Done now' e u r'' = Inr (int (Seconds (vq_WhitelistTTL repo)) * Second))"
proof -
  have inv: "gate_inv cap (now, r)" by (rule gate.reach_inv [OF _ assms(1)]) simp
  have order: "subseq (ahead_of u (r_zsets r' (getEventVirtualQueueKey e))) (ahead_of u (r_zsets r (getEventVirtualQueueKey e)))"
    using others_ahead [OF assms(3) inv] assms(2,4) by simp
  have "gate_inv cap (now', r')" by (rule gate.steps_inv [OF others_vq_steps [OF assms(3)] inv])
  then have line: "distinct (waiting (getEventVirtualQueueKey e) r')" using gate_invD(3) by (simp add: zset_ok_def)
  have ahead: "v \<notin> set (ahead_of u (r_zsets r' (getEventVirtualQueueKey e)))"
    if "v \<notin> set (ahead_of u (r_zsets r (getEventVirtualQueueKey e)))" for v
    using that list_emb_set [OF order] by blast
  show ?thesis
    by (intro conjI [OF order] allI impI, elim conjE, hypsubst)
       (rule admission_in_order [OF line _ assms(4) _ _ ahead])
qed

theorem first_come_first_served_witness:
  "vqGetWhitelistedUserTTL Done 0 ''e'' (fair_user 0) (fair_admitted (fair_joined 1 Second (fair_joined 0 0 empty_redis)))
    = Inr (2 * Second)"
proof -
  let ?r = "fair_joined 0 0 empty_redis"
  let ?r' = "fair_joined 1 Second ?r"
  have u: "(2, fair_user 0) \<in> set (r_zsets ?r (getEventVirtualQueueKey ''e''))" by code_simp
  have line: "zmembers (r_zsets ?r' (getEventVirtualQueueKey ''e'')) = [fair_user 0, fair_user 1]" by code_simp
  have later: "others_step 2 ''e'' (fair_user 0) (\<lambda>x. 2 < x) (0, ?r) (0, ?r')"
    unfolding fair_joined_def [of 1] by (rule others_step.enqueue) (simp_all add: fair_demo Unix_def)
  have facts: "rexists 0 (getUserHeartbeatKey ''e'' (fair_user 0)) ?r'" "0 < Seconds (vq_WhitelistTTL fair_repo)"
    "fair_user 1 \<notin> set (ahead_of (fair_user 0) (r_zsets ?r (getEventVirtualQueueKey ''e'')))"
    "zmembers (r_zsets (fair_admitted ?r') (getEventVirtualQueueKey ''e'')) = []" by code_simp+
  have waits: "fair_user 0 \<in> set (zmembers (r_zsets ?r' (getEventVirtualQueueKey ''e'')))"
    "fair_user 1 \<in> set (zmembers (r_zsets ?r' (getEventVirtualQueueKey ''e'')))" unfolding line by simp_all
  have "vqGetWhitelistedUserTTL Done 0 ''e'' (fair_user 0) (fair_admitted ?r')
      = Inr (int (Seconds (vq_WhitelistTTL fair_repo)) * Second)"
    by (rule first_come_first_served [OF fair_joins u r_into_rtranclp [where r = "others_step _ _ _ _", OF later] waits(1),
          THEN conjunct2, THEN spec, THEN spec, THEN spec, THEN spec, THEN spec, THEN mp],
        intro conjI, rule facts(2), rule facts(1), rule facts(3), rule waits(2), rule fair_admitted_def, simp only: facts(4), simp)
  then show ?thesis by (simp only: fair_demo) simp
qed

text \<open>
  C15: an admitted user cannot be robbed of the slot. Once \<open>u\<close> holds a slot and is out of the
  line, nothing that others, the promoter, an administrator's change of the cap or the removal of
  expired fields do changes what the reservation service reads for \<open>u\<close>: the seconds that are left
  until the deadline the slot got when it was granted, and no slot from then on.
\<close>

theorem slots_are_kept:
  assumes "(vq_step cap)\<^sup>*\<^sup>* (t, empty_redis) (now, r)"
    and "u \<notin> set (zmembers (r_zsets r (getEventVirtualQueueKey e)))"
    and "hfind now u (r_hashes r (getEventWhitelisKey e)) = Some (v, Some d)"
    and "(others_step cap e u (\<lambda>x. True))\<^sup>*\<^sup>* (now, r) (now', r')"
  shows "vqGetWhitelistedUserTTL Done now' e u r'
    = Inr (if now' < d then (d - now' + 999) div 1000 * Second else - 2 * Second)"
proof -
  have inv: "gate_inv cap (now, r) \<and> slots_ok (now, r)" by (rule slots.reach_inv [OF _ assms(1)]) simp
  have "slot now' e u r' = slot now' e u r" using others_steps_slot [OF assms(4) inv] assms(2) by simp
  also have "\<dots> = (if now' < d then Some (v, Some d) else None)"
    using assms(3) by (auto simp: hfind_def split: option.splits if_splits)
  finally show ?thesis by (simp add: vqGetWhitelistedUserTTL_def rhttl_def)
qed

theorem slots_are_kept_witness:
  "vqGetWhitelistedUserTTL Done 1000 ''e'' (fair_user 0) (fair_joined 1 Second (fair_admitted (fair_joined 0 0 empty_redis)))
    = Inr (1 * Second)"
proof -
  let ?r = "fair_admitted (fair_joined 0 0 empty_redis)"
  have reach: "(vq_step 2)\<^sup>*\<^sup>* (0, empty_redis) (0, ?r)"
    by (rule rtranclp.rtrancl_into_rtrancl [OF fair_joins], unfold fair_admitted_def, rule vq_step.admit)
       (simp add: fair_repo_def)
  have "others_step 2 ''e'' (fair_user 0) (\<lambda>x. True) (0, ?r) (0, fair_joined 1 Second ?r)"
    unfolding fair_joined_def [of 1] by (rule others_step.enqueue) (simp_all add: fair_demo)
  then have joined: "(others_step 2 ''e'' (fair_user 0) (\<lambda>x. True))\<^sup>*\<^sup>* (0, ?r) (0, fair_joined 1 Second ?r)"
    by (rule r_into_rtranclp)
  have later: "others_step 2 ''e'' (fair_user 0) (\<lambda>x. True) (0, fair_joined 1 Second ?r) (1000, fair_joined 1 Second ?r)"
    by (rule others_step.tick) simp
  note run = rtranclp.rtrancl_into_rtrancl [OF joined later]
  have out: "fair_user 0 \<notin> set (zmembers (r_zsets ?r (getEventVirtualQueueKey ''e'')))" by code_simp
  have held: "hfind 0 (fair_user 0) (r_hashes ?r (getEventWhitelisKey ''e'')) = Some (''1'', Some 2000)" by code_simp
  show ?thesis using slots_are_kept [OF reach out held run] by simp
qed

text \<open>
  C17: everybody's turn comes. When the promoter runs over the tracked events without a failing call, every living
  user who waits for a tracked event with fewer living users ahead than there is room in the gate holds a
  slot for the full whitelist time afterwards, whatever the other events are and in whatever order the
  promoter visits them.
\<close>

theorem turn_comes:
  assumes "(vq_step cap)\<^sup>*\<^sup>* (t, empty_redis) (now, r)" and "unat (vq_maxConcurrentQueue repo) \<le> cap"
    and "0 < Seconds (vq_WhitelistTTL repo)" and "e \<in> set (r_sets r getActiveEventsKey)"
    and "u \<in> set (zmembers (r_zsets r (getEventVirtualQueueKey e)))" and "rexists now (getUserHeartbeatKey e u) r"
    and "length (filter (\<lambda>v. rexists now (getUserHeartbeatKey e v) r)
          (takeWhile (\<lambda>v. v \<noteq> u) (zmembers (r_zsets r (getEventVirtualQueueKey e))))) + rhlen (getEventWhitelisKey e) r
      < effective_cap now e (unat (vq_maxConcurrentQueue repo)) r"
    and "effective_cap now e (unat (vq_maxConcurrentQueue repo)) r < 2 ^ 63"
    and "length (r_zsets r (getEventVirtualQueueKey e)) < 2 ^ 63"
  shows "vqGetWhitelistedUserTTL Done now e u (fst (PromoteActiveEvents repo (\<lambda>_. Done) now r))
    = Inr (int (Seconds (vq_WhitelistTTL repo)) * Second)"
proof -
  let ?p = "promote_event repo (\<lambda>_. Done) now" and ?q = "getEventVirtualQueueKey e"
  obtain ys zs where es: "r_sets r getActiveEventsKey = ys @ e # zs" "e \<notin> set ys" using split_list_first [OF assms(4)] by blast
  have inv: "gate_inv cap (now, r) \<and> slots_ok (now, r)" by (rule slots.reach_inv [OF _ assms(1)]) simp
  define r1 where "r1 = fold ?p ys r"
  have run: "fst (PromoteActiveEvents repo (\<lambda>_. Done) now r) = fold ?p zs (?p e r1)"
    by (simp add: PromoteActiveEvents_def GetActiveEvents_def rsmembers_def es(1) r1_def)
  have same: "untouched e r r1" unfolding r1_def by (rule promote_events_untouched [OF conjunct1 [OF inv] assms(2) es(2)])
  have steps: "(vq_step cap)\<^sup>*\<^sup>* (now, r1') (now, fold ?p es' r1')" for es' r1'
    by (rule others_vq_steps [OF promote_events_others [OF assms(2)]])
  have inv1: "gate_inv cap (now, r1) \<and> slots_ok (now, r1)" unfolding r1_def by (rule slots.steps_inv [OF steps inv])
  have inv2: "gate_inv cap (now, ?p e r1) \<and> slots_ok (now, ?p e r1)" using slots.steps_inv [OF steps [of _ "[e]"] inv1] by simp
  have uuids: "uuid_text v" if "v \<in> set (waiting ?q r)" for v
    using that gate_invD(4) [OF conjunct1 [OF inv], of e] by (auto simp: list_all_iff)
  have ahead: "filter (beating now e r1) (ahead_of u (r_zsets r ?q)) = filter (beating now e r) (ahead_of u (r_zsets r ?q))"
    by (rule filter_cong [OF refl], rule untouched_reads(5) [OF same], rule uuids) (rule set_takeWhileD [THEN conjunct1])
  have z: "r_zsets r1 ?q = r_zsets r ?q" using same by (simp add: untouched_def)
  have "slot now e u (?p e r1) = Some (''1'', Some (now + 1000 * int (Seconds (vq_WhitelistTTL repo))))
      \<and> u \<notin> set (waiting ?q (?p e r1))"
    by (rule promote_event_reaches [OF conjunct1 [OF inv1] assms(3)])
       (use assms(5-9) untouched_reads(5) [OF same uuids [OF assms(5)]] ahead in \<open>simp_all only: z untouched_reads(2,3) [OF same]\<close>)
  then have "slot now e u (fold ?p zs (?p e r1)) = Some (''1'', Some (now + 1000 * int (Seconds (vq_WhitelistTTL repo))))"
    using others_steps_slot [OF promote_events_others [OF assms(2)] inv2, of u e] by simp
  then show ?thesis unfolding run by (simp add: vqGetWhitelistedUserTTL_def rhttl_def)
qed

theorem turn_comes_witness:
  "vqGetWhitelistedUserTTL Done 0 ''e'' (fair_user 0) (fst (PromoteActiveEvents fair_repo (\<lambda>_. Done) 0 (fair_joined 0 0 empty_redis)))
    = Inr (2 * Second)"
proof -
  have facts: "''e'' \<in> set (r_sets (fair_joined 0 0 empty_redis) getActiveEventsKey)"
    "fair_user 0 \<in> set (zmembers (r_zsets (fair_joined 0 0 empty_redis) (getEventVirtualQueueKey ''e'')))"
    "rexists 0 (getUserHeartbeatKey ''e'' (fair_user 0)) (fair_joined 0 0 empty_redis)"
    "takeWhile (\<lambda>v. v \<noteq> fair_user 0) (zmembers (r_zsets (fair_joined 0 0 empty_redis) (getEventVirtualQueueKey ''e''))) = []"
    "rhlen (getEventWhitelisKey ''e'') (fair_joined 0 0 empty_redis) = 0"
    "effective_cap 0 ''e'' (unat (vq_maxConcurrentQueue fair_repo)) (fair_joined 0 0 empty_redis) = 2"
    "length (r_zsets (fair_joined 0 0 empty_redis) (getEventVirtualQueueKey ''e'')) = 1"
    by code_simp+
  have "unat (vq_maxConcurrentQueue fair_repo) \<le> 2" "0 < Seconds (vq_WhitelistTTL fair_repo)"
    by (simp add: fair_repo_def, simp only: fair_demo zero_less_numeral)
  from turn_comes [OF fair_joins this facts(1-3)] have "vqGetWhitelistedUserTTL Done 0 ''e'' (fair_user 0) (fst (PromoteActiveEvents fair_repo (\<lambda>_. Done) 0 (fair_joined 0 0 empty_redis)))
      = Inr (int (Seconds (vq_WhitelistTTL fair_repo)) * Second)" by (simp add: facts(4-7))
  then show ?thesis by (simp only: fair_demo) simp
qed

end
