(* ===== verification/Commands.thy ===== *)
theory Commands
  imports Config AdminProperties
begin

text \<open>
  The command line tools under \<open>cmd\<close>: \<open>migrate\<close>, which drives the \<open>golang-migrate\<close> library,
  \<open>seed\<close>, which applies the fixture files in one transaction, and \<open>simulate\<close>, which runs the load
  generator in process and reports on it. An error that is wrapped with \<open>%w\<close> stays the error that
  \<open>errors.Is\<close> finds; what is only logged or printed is left out.
\<close>

section \<open>migrate\<close>

definition ErrNoChange :: go_error where
  "ErrNoChange = OtherError ''no change''"

text \<open>
  The migrator: opening it on a source and a database, and its operations on the database.
\<close>

record 'm migrator =
  mg_New :: "string \<Rightarrow> string \<Rightarrow> go_error option"
  mg_Steps :: "int \<Rightarrow> 'm \<Rightarrow> 'm \<times> go_error option"
  mg_Up :: "'m \<Rightarrow> 'm \<times> go_error option"
  mg_Down :: "'m \<Rightarrow> 'm \<times> go_error option"
  mg_Version :: "'m \<Rightarrow> (nat \<times> bool) result"
  mg_Force :: "int \<Rightarrow> 'm \<Rightarrow> 'm \<times> go_error option"

definition optionalStep :: "string list \<Rightarrow> (int \<times> bool) result" where
  "optionalStep args =
     (if length args < 2 then Inr (0, False)
      else case Atoi (args ! 1) of
        None \<Rightarrow> Inl (OtherError (''invalid step count '' @ args ! 1))
      | Some n \<Rightarrow> Inr (n, True))"

definition reportResult :: "go_error option \<Rightarrow> go_error option" where
  "reportResult err =
     (case err of None \<Rightarrow> None | Some e \<Rightarrow> if e = ErrNoChange then None else Some e)"

text \<open>\<open>strings.Index\<close> of the scheme separator.\<close>

fun Index :: "string \<Rightarrow> string \<Rightarrow> nat option" where
  "Index [] sep = (if sep = [] then Some 0 else None)"
| "Index (c # cs) sep = (if take (length sep) (c # cs) = sep then Some 0 else map_option Suc (Index cs sep))"

definition toPgx5URL :: "string \<Rightarrow> string" where
  "toPgx5URL postgresURL =
     (case Index postgresURL ''://'' of
        Some idx \<Rightarrow> ''pgx5'' @ drop idx postgresURL
      | None \<Rightarrow> ''pgx5://'' @ postgresURL)"

text \<open>\<open>Steps(-n)\<close> negates an \<open>int\<close>, which wraps for the least one.\<close>

definition migrate_command :: "'m migrator \<Rightarrow> string list \<Rightarrow> 'm \<Rightarrow> 'm \<times> go_error option" where
  "migrate_command M args m =
     (let command = hd args in
      if command = ''up''
      then (case optionalStep args of
              Inl e \<Rightarrow> (m, Some e)
            | Inr (n, True) \<Rightarrow> apsnd reportResult (mg_Steps M n m)
            | Inr (_, False) \<Rightarrow> apsnd reportResult (mg_Up M m))
      else if command = ''down''
      then (case optionalStep args of
              Inl e \<Rightarrow> (m, Some e)
            | Inr (_, False) \<Rightarrow> (m, Some (OtherError ''usage: migrate down <n> (use down-all to roll back everything)''))
            | Inr (n, True) \<Rightarrow> apsnd reportResult (mg_Steps M (wrap_i64 (- n)) m))
      else if command = ''down-all'' then apsnd reportResult (mg_Down M m)
      else if command = ''version''
      then (m, case mg_Version M m of Inl e \<Rightarrow> reportResult (Some e) | Inr _ \<Rightarrow> None)
      else if command = ''force''
      then (if length args < 2 then (m, Some (OtherError ''usage: migrate force <version>''))
            else case Atoi (args ! 1) of
              None \<Rightarrow> (m, Some (OtherError (''invalid version '' @ args ! 1)))
            | Some version \<Rightarrow> mg_Force M version m)
      else (m, Some (OtherError (''unknown command '' @ command @ '' (want up|down|down-all|version|force)''))))"

definition migrate_run ::
  "golib \<Rightarrow> (go_error \<times> bool) option \<Rightarrow> environment \<Rightarrow> 'm migrator \<Rightarrow> string list \<Rightarrow> 'm \<Rightarrow> 'm \<times> go_error option" where
  "migrate_run lib dotenv env M args m =
     (if args = [] then (m, Some (OtherError ''usage: migrate <up|down|down-all|version|force> [n]''))
      else case Load lib dotenv env of
        Inl e \<Rightarrow> (m, Some e)
      | Inr cfg \<Rightarrow>
          let migrationsPath = getEnv env ''MIGRATIONS_PATH'' ''migrations''
          in case mg_New M (''file://'' @ migrationsPath) (toPgx5URL (cfg_PostgreSQLUrl cfg)) of
               Some e \<Rightarrow> (m, Some e)
             | None \<Rightarrow> migrate_command M args m)"

section \<open>seed\<close>

text \<open>
  A directory entry is its name and whether it is a directory; \<open>join\<close> is \<open>filepath.Join\<close>. Strings
  are ordered by their bytes, as \<open>sort.Strings\<close> does.
\<close>

definition HasSuffix :: "string \<Rightarrow> string \<Rightarrow> bool" where
  "HasSuffix s suffix \<longleftrightarrow> length suffix \<le> length s \<and> drop (length s - length suffix) s = suffix"

definition seedFiles :: "(string \<Rightarrow> string \<Rightarrow> string) \<Rightarrow> string \<Rightarrow> (string \<times> bool) list result \<Rightarrow> string list result" where
  "seedFiles join dir entries =
     (case entries of
        Inl err \<Rightarrow> Inl err
      | Inr es \<Rightarrow> Inr (sort (map (\<lambda>e. join dir (fst e)) (filter (\<lambda>e. \<not> (snd e \<or> \<not> HasSuffix (fst e) ''.sql'')) es))))"

fun exec_files :: "(string \<Rightarrow> string result) \<Rightarrow> (string \<Rightarrow> 'db \<Rightarrow> 'db result) \<Rightarrow> string list \<Rightarrow> 'db \<Rightarrow> 'db result" where
  "exec_files read exec [] db = Inr db"
| "exec_files read exec (file # files) db =
     (case read file of
        Inl err \<Rightarrow> Inl err
      | Inr contents \<Rightarrow>
          (case exec contents db of Inl err \<Rightarrow> Inl err | Inr db' \<Rightarrow> exec_files read exec files db'))"

datatype seed_call = SE_Connect | SE_Begin | SE_Commit

text \<open>\<open>exec\<close> is what the database makes of the statements of a file, inside the transaction.\<close>

definition seed_run ::
  "golib \<Rightarrow> (go_error \<times> bool) option \<Rightarrow> environment \<Rightarrow> (string \<Rightarrow> string \<Rightarrow> string) \<Rightarrow> (string \<Rightarrow> (string \<times> bool) list result)
    \<Rightarrow> (string \<Rightarrow> string result) \<Rightarrow> (string \<Rightarrow> 'db \<Rightarrow> 'db result) \<Rightarrow> (seed_call \<Rightarrow> io) \<Rightarrow> 'db \<Rightarrow> 'db \<times> unit result" where
  "seed_run lib dotenv env join readdir read exec flt db =
     (case Load lib dotenv env of
        Inl e \<Rightarrow> (db, Inl e)
      | Inr cfg \<Rightarrow>
          let seedPath = getEnv env ''SEED_PATH'' ''seed''
          in case seedFiles join seedPath (readdir seedPath) of
               Inl e \<Rightarrow> (db, Inl e)
             | Inr files \<Rightarrow>
                 if files = [] then (db, Inr ())
                 else (case io_err (flt SE_Connect) of Some e \<Rightarrow> (db, Inl e) | None \<Rightarrow>
                      (case io_err (flt SE_Begin) of Some e \<Rightarrow> (db, Inl e) | None \<Rightarrow>
                      (case exec_files read exec files db of
                         Inl e \<Rightarrow> (db, Inl e)
                       | Inr db' \<Rightarrow> io_call (flt SE_Commit) (\<lambda>_. (db', ())) db))))"

section \<open>simulate\<close>

text \<open>\<open>uint\<close> flags are 64 bits wide; the quantity is cut to 32.\<close>

record sim_flags =
  fl_event :: string
  fl_users :: int
  fl_quantity :: u64
  fl_cap :: u64
  fl_workers :: int
  fl_poll :: duration
  fl_userTimeout :: duration
  fl_capacity :: u64
  fl_reset :: bool

definition capLabel :: "u64 \<Rightarrow> u64 \<Rightarrow> string" where
  "capLabel runCap globalCap = (if 0 < runCap then dec (unat runCap) else dec (unat globalCap) @ '' (global)'')"

definition sim_cmd_capacity :: "(sim_call \<Rightarrow> io) \<Rightarrow> clocks \<Rightarrow> sim_flags \<Rightarrow> 'l sys \<Rightarrow> 'l sys \<times> unit result" where
  "sim_cmd_capacity flt c fl s =
     (if fl_capacity fl = 0 then (s, Inr ())
      else if 2 ^ 31 \<le> unat (fl_capacity fl) then (s, Inl (OtherError ''value out of range for int4''))
      else case update_capacity (flt SC_Capacity) (c_pg c) (of_nat (unat (fl_capacity fl))) (fl_event fl) (sys_db s) of
        (db', Inl err) \<Rightarrow> (s\<lparr>sys_db := db'\<rparr>, Inl err)
      | (db', Inr _) \<Rightarrow>
          (case rc_InvalidateCache (flt SC_Invalidate) (c_redis c) (fl_event fl) (sys_redis s) of
             (r', Inl err) \<Rightarrow> (s\<lparr>sys_db := db', sys_redis := r'\<rparr>, Inl err)
           | (r', Inr _) \<Rightarrow> (s\<lparr>sys_db := db', sys_redis := r'\<rparr>, Inr ())))"

definition sim_cmd_reset :: "(sim_call \<Rightarrow> io) \<Rightarrow> sim_flags \<Rightarrow> 'l sys \<Rightarrow> 'l sys \<times> unit result" where
  "sim_cmd_reset flt fl s =
     (if \<not> fl_reset fl then (s, Inr ())
      else case delete_reservations (flt SC_Delete) (fl_event fl) (sys_db s) of
        (db', Inl err) \<Rightarrow> (s\<lparr>sys_db := db'\<rparr>, Inl err)
      | (db', Inr _) \<Rightarrow>
          (case io_call (flt SC_Flush) (\<lambda>r. (rflushdb r, ())) (sys_redis s) of
             (r', res) \<Rightarrow> (s\<lparr>sys_db := db', sys_redis := r'\<rparr>, res)))"

text \<open>The statement inserts the users one by one and fails as a whole.\<close>

definition cmd_user :: "(nat \<Rightarrow> string) \<Rightarrow> nat \<Rightarrow> NewUser" where
  "cmd_user uuids g = \<lparr>nu_Name = ''Sim User '' @ dec g, nu_Email = ''sim+'' @ uuids g @ ''@example.com'', nu_PasswordHash = ''x''\<rparr>"

fun insert_all_users :: "time \<Rightarrow> string list \<Rightarrow> NewUser list \<Rightarrow> pg \<Rightarrow> (pg \<times> string list) result" where
  "insert_all_users now ids [] db = Inr (db, [])"
| "insert_all_users now ids (nu # nus) db =
     (case insert_user now (hd ids) nu db of
        Inl e \<Rightarrow> Inl e
      | Inr (db', u) \<Rightarrow>
          (case insert_all_users now (tl ids) nus db' of
             Inl e \<Rightarrow> Inl e
           | Inr (db'', created) \<Rightarrow> Inr (db'', us_Id u # created)))"

text \<open>
  \<open>count\<close> is sent as an \<open>int4\<close>, the type of the series. A negative one inserts nothing, and then
  \<open>make\<close> panics on it, \<open>None\<close>, before the rows are read.
\<close>

definition cmd_mintUsers ::
  "io \<Rightarrow> time \<Rightarrow> (nat \<Rightarrow> string) \<Rightarrow> string list \<Rightarrow> int \<Rightarrow> pg \<Rightarrow> pg \<times> string list result option" where
  "cmd_mintUsers x now uuids ids count db =
     (if count < - (2 ^ 31) \<or> 2 ^ 31 \<le> count then (db, Some (Inl (OtherError ''value out of range for int4'')))
      else if count < 0 then (db, case x of NotSent e \<Rightarrow> Some (Inl e) | _ \<Rightarrow> None)
      else apsnd Some
             (commit_insert x (insert_all_users now ids (map (\<lambda>i. cmd_user uuids (i + 1)) [0..<nat count]) db) db))"

definition cmd_config :: "sim_flags \<Rightarrow> string list \<Rightarrow> SimConfig" where
  "cmd_config fl userIds =
     \<lparr>sc_EventId = fl_event fl, sc_UserIds = userIds, sc_Quantity = of_nat (unat (fl_quantity fl)), sc_MaxConcurrent = fl_cap fl,
      sc_Workers = fl_workers fl, sc_PollInterval = fl_poll fl, sc_UserTimeout = fl_userTimeout fl, sc_Transport = [], sc_BaseURL = [],
      sc_Tokens = (\<lambda>_. None)\<rparr>"

text \<open>
  \<open>run\<close> up to the runner: what the event and the users are when the simulation begins; \<open>None\<close> is the
  panic of \<open>mintUsers\<close>.
\<close>

definition sim_cmd_prepare ::
  "(sim_call \<Rightarrow> io) \<Rightarrow> io \<Rightarrow> clocks \<Rightarrow> (nat \<Rightarrow> string) \<Rightarrow> string list \<Rightarrow> sim_flags \<Rightarrow> 'l sys \<Rightarrow> 'l sys \<times> SimConfig result option" where
  "sim_cmd_prepare flt x c uuids ids fl s =
     (case sim_cmd_capacity flt c fl s of
        (s1, Inl err) \<Rightarrow> (s1, Some (Inl err))
      | (s1, Inr _) \<Rightarrow>
          (case sim_cmd_reset flt fl s1 of
             (s2, Inl err) \<Rightarrow> (s2, Some (Inl err))
           | (s2, Inr _) \<Rightarrow>
               (case cmd_mintUsers x (c_pg c) uuids ids (fl_users fl) (sys_db s2) of
                  (db', None) \<Rightarrow> (s2\<lparr>sys_db := db'\<rparr>, None)
                | (db', Some (Inl err)) \<Rightarrow> (s2\<lparr>sys_db := db'\<rparr>, Some (Inl err))
                | (db', Some (Inr userIds)) \<Rightarrow> (s2\<lparr>sys_db := db'\<rparr>, Some (Inr (settle_config (cmd_config fl userIds)))))))"

text \<open>The report's verdict, the numbers of its last line of the funnel, and the exit status it asks for.\<close>

definition verdict :: "'a Snapshot_scheme \<Rightarrow> string" where
  "verdict s =
     (if \<not> sn_CapacityKnown s then ''UNKNOWN (could not read capacity)''
      else if sn_Oversold s then ''OVERSOLD'' else ''PASS'')"

definition report_accounted :: "'a Snapshot_scheme \<Rightarrow> nat \<times> nat" where
  "report_accounted s = (accounted (sn_Runner s), sn_TotalUsers s)"

definition exit_status :: "'a Snapshot_scheme \<Rightarrow> nat" where
  "exit_status s = (if sn_Oversold s then 1 else 0)"

section \<open>Facts about the commands\<close>

text \<open>The rewritten address keeps everything from the separator on and is left alone by a second rewriting.\<close>

lemma Index_Some: "Index s sep = Some i \<Longrightarrow> i \<le> length s \<and> take (length sep) (drop i s) = sep"
proof (induction s sep arbitrary: i rule: Index.induct)
  case (2 c cs sep)
  then show ?case by (cases i) (auto split: if_splits)
qed (auto split: if_splits)

lemma toPgx5URL_scheme: "Index s ''://'' = Some i \<Longrightarrow> toPgx5URL s = ''pgx5'' @ drop i s \<and> take 3 (drop i s) = ''://''"
  using Index_Some [of s "''://''" i] by (simp add: toPgx5URL_def numeral_3_eq_3)

lemma toPgx5URL_idem: "toPgx5URL (toPgx5URL s) = toPgx5URL s"
proof (cases "Index s ''://''")
  case None
  then show ?thesis by (simp add: toPgx5URL_def)
next
  case (Some i)
  then obtain t where "drop i s = ''://'' @ t"
    using toPgx5URL_scheme by (metis append_take_drop_id)
  then show ?thesis using Some by (simp add: toPgx5URL_def)
qed

text \<open>
  What the migration library documents: \<open>Up\<close> applies migrations, \<open>Steps\<close> applies them for a count
  that is not negative.
\<close>

definition migrator_laws :: "('m \<Rightarrow> nat) \<Rightarrow> 'm migrator \<Rightarrow> bool" where
  "migrator_laws version M \<longleftrightarrow>
     (\<forall>m. version m \<le> version (fst (mg_Up M m))) \<and> (\<forall>n m. 0 \<le> n \<longrightarrow> version m \<le> version (fst (mg_Steps M n m)))"

lemma wrap_i64_neg: "- (2 ^ 63) < n \<Longrightarrow> n < 2 ^ 63 \<Longrightarrow> wrap_i64 (- n) = - n"
  by (rule wrap_i64_id) auto

lemma migrate_command_keeps:
  assumes "migrator_laws version M"
    and "\<not> (hd args = ''down-all'' \<or> hd args = ''force'')"
    and "\<And>n. 2 \<le> length args \<Longrightarrow> Atoi (args ! 1) = Some n \<Longrightarrow> (hd args = ''down'' \<longrightarrow> 0 \<le> wrap_i64 (- n)) \<and> (hd args = ''up'' \<longrightarrow> 0 \<le> n)"
  shows "version m \<le> version (fst (migrate_command M args m))"
proof -
  have up: "version m \<le> version (fst (mg_Up M m))" and steps: "\<And>n. 0 \<le> n \<Longrightarrow> version m \<le> version (fst (mg_Steps M n m))"
    using assms(1) by (auto simp: migrator_laws_def)
  show ?thesis
  proof (cases "2 \<le> length args")
    case True
    then show ?thesis using assms(2,3) up steps
      by (cases "Atoi (args ! 1)") (auto simp: migrate_command_def optionalStep_def Let_def)
  next
    case False
    then show ?thesis using assms(2) up by (auto simp: migrate_command_def optionalStep_def Let_def)
  qed
qed

lemma exec_files_all: "exec_files read exec files db = Inr db' \<Longrightarrow> list_all (\<lambda>f. \<not> isl (read f)) files"
  by (induction files arbitrary: db) (auto split: sum.splits)

text \<open>The command prepares the event as the admin route does, but for the flags of the process.\<close>

lemma sim_cmd_like_route:
  assumes "unat (fl_capacity fl) < 2 ^ 31" and "se_flt en = flt" and "se_clocks en = c"
    and "sq_EventId req = fl_event fl" and "sq_Capacity req = of_nat (unat (fl_capacity fl))" and "sq_Reset req = fl_reset fl"
  shows "sim_cmd_capacity flt c fl s = prepare_capacity en req s"
    and "(case sim_cmd_reset flt fl s of (s', res) \<Rightarrow> (sys_db s', sys_redis s', res))
      = (case prepare_reset en req s of (s', res) \<Rightarrow> (sys_db s', sys_redis s', res))"
proof -
  have "unat (of_nat (unat (fl_capacity fl)) :: u32) = unat (fl_capacity fl)" using assms(1) by (intro unat_of_nat_u32) simp
  then have "fl_capacity fl = 0 \<longleftrightarrow> sq_Capacity req = 0" unfolding assms(5) by (metis unat_0 unat_eq_zero)
  then show "sim_cmd_capacity flt c fl s = prepare_capacity en req s"
    using assms(1) by (simp add: sim_cmd_capacity_def prepare_capacity_def assms split: prod.split sum.split)
  show "(case sim_cmd_reset flt fl s of (s', res) \<Rightarrow> (sys_db s', sys_redis s', res))
      = (case prepare_reset en req s of (s', res) \<Rightarrow> (sys_db s', sys_redis s', res))"
    by (cases "flt SC_Delete"; cases "flt SC_Flush")
       (simp_all add: sim_cmd_reset_def prepare_reset_def delete_reservations_def assms)
qed

section \<open>Properties\<close>

text \<open>
  C39: \<open>migrate\<close> rolls back only on request. If the schema version is lower after the command than
  before, then the command was \<open>down-all\<close> or \<open>force\<close>, or \<open>down\<close> with a positive count (or with the
  least integer, whose negation wraps), or \<open>up\<close> with a negative count. In particular \<open>up\<close>, \<open>version\<close>,
  \<open>down\<close> without a count, an unreadable count, a misspelt command and a configuration that does not
  load never roll back.
\<close>

theorem migrate_rolls_back_only_on_request:
  assumes "migrator_laws version M" and "migrate_run lib dotenv env M args m = (m', err)" and "version m' < version m"
  shows "hd args = ''down-all'' \<or> hd args = ''force''
    \<or> (\<exists>n. 2 \<le> length args \<and> Atoi (args ! 1) = Some n
         \<and> (hd args = ''down'' \<and> (0 < n \<or> n = - (2 ^ 63)) \<or> hd args = ''up'' \<and> n < 0))"
proof (rule ccontr)
  assume none: "\<not> ?thesis"
  have "version m \<le> version (fst (migrate_command M args m))"
  proof (rule migrate_command_keeps [OF assms(1)])
    fix n assume n: "2 \<le> length args" "Atoi (args ! 1) = Some n"
    show "(hd args = ''down'' \<longrightarrow> 0 \<le> wrap_i64 (- n)) \<and> (hd args = ''up'' \<longrightarrow> 0 \<le> n)"
    proof (intro conjI impI)
      assume "hd args = ''down''"
      then have "n \<le> 0" "n \<noteq> - (2 ^ 63)" using none n by (auto simp: not_less)
      then show "0 \<le> wrap_i64 (- n)" using wrap_i64_neg [of n] Atoi_range [OF n(2)] by auto
    next
      assume "hd args = ''up''"
      then show "0 \<le> n" using none n by (auto simp: not_less)
    qed
  qed (use none in auto)
  moreover have "m' = m \<or> m' = fst (migrate_command M args m)"
    using assms(2) by (auto simp: migrate_run_def Let_def split: if_splits sum.splits option.splits)
  ultimately show False using assms(3) by auto
qed

text \<open>A migrator over a schema of three migrations, whose state is the version.\<close>

definition demo_migrator :: "nat migrator" where
  "demo_migrator = \<lparr>mg_New = (\<lambda>_ _. None),
     mg_Steps = (\<lambda>n v. (nat (min 3 (max 0 (int v + n))), if n = 0 then Some ErrNoChange else None)),
     mg_Up = (\<lambda>v. (max v 3, if v = 3 then Some ErrNoChange else None)), mg_Down = (\<lambda>v. (0, None)),
     mg_Version = (\<lambda>v. Inr (v, False)), mg_Force = (\<lambda>n v. (nat n, None))\<rparr>"

theorem migrate_rolls_back_only_on_request_witness:
  "migrator_laws (\<lambda>v. min v 3) demo_migrator
   \<and> migrate_run demo_lib None demo_env demo_migrator [''down'', ''2''] 3 = (1, None) \<and> min (1 :: nat) 3 < min 3 3
   \<and> (\<exists>n. Atoi ''2'' = Some n \<and> (0 < n \<or> n = - (2 ^ 63)))"
proof -
  have laws: "migrator_laws (\<lambda>v. min v 3) demo_migrator" by (auto simp: migrator_laws_def demo_migrator_def min_def max_def)
  have "Atoi ''2'' = Some 2" by (simp add: Atoi_def is_digit_def decimal_def digit_val_def)
  then have run: "migrate_run demo_lib None demo_env demo_migrator [''down'', ''2''] 3 = (1, None)"
    using demo_Load by (simp add: migrate_run_def migrate_command_def optionalStep_def demo_migrator_def wrap_i64_def reportResult_def)
  from migrate_rolls_back_only_on_request [OF laws run] have "\<exists>n. Atoi ''2'' = Some n \<and> (0 < n \<or> n = - (2 ^ 63))" by auto
  then show ?thesis using laws run by simp
qed

text \<open>
  Seeding is all or nothing and in order. Whatever happens, the database is as before or as after
  the statements of every \<open>.sql\<close> file of the directory, executed in the order of their names; an error
  leaves it as before unless the reply to the commit was lost, and success means that every file was
  executed.
\<close>

lemma seed_all_or_nothing:
  assumes "seed_run lib dotenv env join readdir read exec flt db = (db', res)"
    and "Load lib dotenv env = Inr cfg" and "readdir (getEnv env ''SEED_PATH'' ''seed'') = Inr es"
  shows "\<exists>files. sorted files
    \<and> set files = join (getEnv env ''SEED_PATH'' ''seed'') ` {n. (n, False) \<in> set es \<and> HasSuffix n ''.sql''}
    \<and> (db' = db \<or> exec_files read exec files db = Inr db')
    \<and> (res = Inr () \<longrightarrow> exec_files read exec files db = Inr db')
    \<and> (isl res \<longrightarrow> db' = db \<or> (\<exists>e. flt SE_Commit = ReplyLost e))"
proof -
  let ?dir = "getEnv env ''SEED_PATH'' ''seed''"
  let ?files = "sort (map (\<lambda>e. join ?dir (fst e)) (filter (\<lambda>e. \<not> (snd e \<or> \<not> HasSuffix (fst e) ''.sql'')) es))"
  have "seedFiles join ?dir (readdir ?dir) = Inr ?files" by (simp add: seedFiles_def assms(3))
  moreover have "sorted ?files" by (rule sorted_sort)
  moreover have "set ?files = join ?dir ` {n. (n, False) \<in> set es \<and> HasSuffix n ''.sql''}" by (fastforce simp: image_iff)
  ultimately show ?thesis using assms(1)
    by (intro exI [of _ ?files], cases "exec_files read exec ?files db"; cases "flt SE_Commit")
       (auto simp: seed_run_def assms(2) Let_def split: if_splits option.splits)
qed

text \<open>
  The verdict of a simulation report is exact when the final reads succeed. With a cache that
  agrees with the table it says \<open>PASS\<close> exactly when the event's active seats fit its capacity and
  \<open>OVERSOLD\<close> exactly when they do not, and the process exits with status 1 exactly in the second
  case.
\<close>

lemma report_verdict_exact:
  assumes "coherent event_cached (event_rows (sys_db s)) (sys_redis s)" and "event_rows (sys_db s) (sc_EventId cfg) = Some ev"
    and "flt (SN_Event GE_Query) = Done" and "flt SN_Sold = Done" and "0 < ev_Capacity ev"
    and "sn = snd (take_snapshot cfg flt c rnd None r fin s)"
  shows "(verdict sn = ''PASS'' \<longleftrightarrow> active_seats (c_pg c) (sc_EventId cfg) (reservations_tbl (sys_db s)) \<le> unat (ev_Capacity ev))
    \<and> (verdict sn = ''OVERSOLD'' \<longleftrightarrow> unat (ev_Capacity ev) < active_seats (c_pg c) (sc_EventId cfg) (reservations_tbl (sys_db s)))
    \<and> (exit_status sn = 1 \<longleftrightarrow> verdict sn = ''OVERSOLD'')"
proof -
  have known: "sn_CapacityKnown sn"
    using event_read_through [where flt = "\<lambda>x. flt (SN_Event x)", OF assms(1,3), of "c_redis c" rnd "sc_EventId cfg"] assms(2)
    by (simp add: assms(6) take_snapshot_def Let_def split_beta)
  have "sn_Oversold sn \<longleftrightarrow> unat (ev_Capacity ev) < active_seats (c_pg c) (sc_EventId cfg) (reservations_tbl (sys_db s))"
    using Snapshot_detects_oversell [OF assms] by blast
  then show ?thesis using known by (auto simp: verdict_def exit_status_def)
qed

text \<open>
  The report passes an oversold event whose seats it could not count. The snapshot takes a failed
  count as no seats sold, and the report has no verdict for it: with three seats held of two, a
  snapshot whose count fails says \<open>PASS\<close> and the process exits with status 0.
\<close>

lemma report_passes_without_count:
  "(let s = demo_sys [demo_hold ''r1'' 3 None 10] empty_redis (\<lambda>_. None);
        sn = snd (take_snapshot demo_sim (\<lambda>x. if x = SN_Sold then NotSent DeadlineExceeded else Done) demo_clock 0 None fresh_runner True s)
    in \<not> within_capacity (c_pg demo_clock) (sys_db s) \<and> verdict sn = ''PASS'' \<and> exit_status sn = 0)"
proof -
  let ?s = "demo_sys [demo_hold ''r1'' 3 None 10] empty_redis (\<lambda>_. None)"
  have "\<not> within_capacity (c_pg demo_clock) (sys_db ?s)"
    by (simp add: within_capacity_def demo_defs demo_clock_def active_at_def)
  moreover have coh: "coherent event_cached (event_rows (sys_db ?s)) (sys_redis ?s)"
    by (simp add: coherent_def event_cached_iff rget_def empty_redis_def)
  have "snd (repo_GetEvent (\<lambda>_. Done) (c_redis demo_clock) 0 True None (sc_EventId demo_sim) (sys_db ?s) (sys_redis ?s)) = Inr (er_item demo_event)"
    using event_read_through [where flt = "\<lambda>_. Done", OF coh refl, of "c_redis demo_clock" 0 "sc_EventId demo_sim"]
    by (simp add: event_rows_def demo_defs demo_sim_def)
  ultimately show ?thesis
    by (simp add: Let_def take_snapshot_def split_beta pg_GetTotalReserved_def verdict_def exit_status_def)
qed

end
