(* ===== verification/Flags.thy ===== *)
theory Flags
  imports Commands
begin

text \<open>
  The command line of \<open>cmd/simulate\<close>: the parser of Go's \<open>flag\<close> package with the values it reads
  (\<open>strconv.ParseInt\<close> and \<open>strconv.ParseUint\<close> with base 0, \<open>strconv.ParseBool\<close>,
  \<open>time.ParseDuration\<close>) and the flags that the command declares. The flag set is \<open>CommandLine\<close>,
  which ends the process on an error.
\<close>

section \<open>Numbers with a base prefix\<close>

definition lower_eq :: "char \<Rightarrow> char \<Rightarrow> bool" where
  "lower_eq c l \<longleftrightarrow> c = l \<or> (of_char c :: nat) + 32 = of_char l"

text \<open>The value of a digit or letter.\<close>

definition digit36 :: "char \<Rightarrow> nat option" where
  "digit36 c =
     (let n = of_char c :: nat in
      if 48 \<le> n \<and> n \<le> 57 then Some (n - 48)
      else if 65 \<le> n \<and> n \<le> 90 then Some (n - 65 + 10)
      else if 97 \<le> n \<and> n \<le> 122 then Some (n - 97 + 10)
      else None)"

definition split_base :: "string \<Rightarrow> nat \<times> string" where
  "split_base s =
     (if s \<noteq> [] \<and> hd s = CHR ''0''
      then (if 3 \<le> length s \<and> lower_eq (s ! 1) CHR ''b'' then (2, drop 2 s)
            else if 3 \<le> length s \<and> lower_eq (s ! 1) CHR ''o'' then (8, drop 2 s)
            else if 3 \<le> length s \<and> lower_eq (s ! 1) CHR ''x'' then (16, drop 2 s)
            else (8, drop 1 s))
      else (10, s))"

text \<open>The loop over the digits; underscores are skipped, \<open>None\<close> is a syntax or range error.\<close>

fun parse_digits :: "nat \<Rightarrow> nat \<Rightarrow> nat \<Rightarrow> string \<Rightarrow> nat option" where
  "parse_digits limit base n [] = Some n"
| "parse_digits limit base n (c # cs) =
     (if c = CHR ''_'' then parse_digits limit base n cs
      else case digit36 c of
        None \<Rightarrow> None
      | Some d \<Rightarrow> if base \<le> d \<or> limit \<le> base * n + d then None else parse_digits limit base (base * n + d) cs)"

text \<open>\<open>underscoreOK\<close>: underscores only between digits or after a base prefix. \<open>saw\<close> is the last character seen.\<close>

datatype seen = Beginning | Digit | Underscore | Other

fun underscores_ok :: "bool \<Rightarrow> seen \<Rightarrow> string \<Rightarrow> bool" where
  "underscores_ok hex saw [] = (saw \<noteq> Underscore)"
| "underscores_ok hex saw (c # cs) =
     (if is_digit c \<or> hex \<and> (\<exists>l \<in> set ''abcdef''. lower_eq c l) then underscores_ok hex Digit cs
      else if c = CHR ''_'' then saw = Digit \<and> underscores_ok hex Underscore cs
      else saw \<noteq> Underscore \<and> underscores_ok hex Other cs)"

definition underscoreOK :: "string \<Rightarrow> bool" where
  "underscoreOK s0 =
     (let s = (if s0 \<noteq> [] \<and> (hd s0 = CHR ''-'' \<or> hd s0 = CHR ''+'') then tl s0 else s0)
      in if 2 \<le> length s \<and> hd s = CHR ''0''
            \<and> (lower_eq (s ! 1) CHR ''b'' \<or> lower_eq (s ! 1) CHR ''o'' \<or> lower_eq (s ! 1) CHR ''x'')
         then underscores_ok (lower_eq (s ! 1) CHR ''x'') Digit (drop 2 s)
         else underscores_ok False Beginning s)"

definition ParseUint0 :: "nat \<Rightarrow> string \<Rightarrow> nat option" where
  "ParseUint0 bits s =
     (if s = [] then None
      else let (base, t) = split_base s
           in case parse_digits (2 ^ bits) base 0 t of
                None \<Rightarrow> None
              | Some n \<Rightarrow> if CHR ''_'' \<in> set t \<and> \<not> underscoreOK s then None else Some n)"

definition ParseInt0 :: "nat \<Rightarrow> string \<Rightarrow> int option" where
  "ParseInt0 bits s =
     (if s = [] then None
      else let neg = (hd s = CHR ''-'');
               t = (if hd s = CHR ''+'' \<or> neg then tl s else s)
           in case ParseUint0 bits t of
                None \<Rightarrow> None
              | Some n \<Rightarrow> if neg then (if 2 ^ (bits - 1) < n then None else Some (- int n))
                          else (if 2 ^ (bits - 1) \<le> n then None else Some (int n)))"

section \<open>The parser of the flag package\<close>

text \<open>A declared flag: its name, whether it is boolean, and its \<open>Set\<close> on the variables.\<close>

type_synonym 'r flag_set = "(string \<times> bool \<times> (string \<Rightarrow> 'r \<Rightarrow> 'r option)) list"

text \<open>The variables and the remaining arguments, or the status with which the process ends.\<close>

datatype 'r parsed = Parsed 'r "string list" | Usage nat

definition flag_name_value :: "string \<Rightarrow> string \<times> string option" where
  "flag_name_value name =
     (let rest = dropWhile (\<lambda>c. c \<noteq> CHR ''='') (tl name)
      in (hd name # takeWhile (\<lambda>c. c \<noteq> CHR ''='') (tl name), if rest = [] then None else Some (tl rest)))"

function Parse :: "'r flag_set \<Rightarrow> string list \<Rightarrow> 'r \<Rightarrow> 'r parsed" where
  "Parse fs [] r = Parsed r []"
| "Parse fs (s # args) r =
     (if length s < 2 \<or> hd s \<noteq> CHR ''-'' then Parsed r (s # args)
      else if s = ''--'' then Parsed r args
      else
        let name = (if s ! 1 = CHR ''-'' then drop 2 s else drop 1 s)
        in if name = [] \<or> hd name = CHR ''-'' \<or> hd name = CHR ''='' then Usage 2
           else
             let (n, v) = flag_name_value name
             in case map_of fs n of
                  None \<Rightarrow> Usage (if n = ''help'' \<or> n = ''h'' then 0 else 2)
                | Some (True, set_value) \<Rightarrow>
                    (case set_value (case v of None \<Rightarrow> ''true'' | Some w \<Rightarrow> w) r of
                       None \<Rightarrow> Usage 2
                     | Some r' \<Rightarrow> Parse fs args r')
                | Some (False, set_value) \<Rightarrow>
                    (case v of
                       Some w \<Rightarrow> (case set_value w r of None \<Rightarrow> Usage 2 | Some r' \<Rightarrow> Parse fs args r')
                     | None \<Rightarrow>
                         (case args of
                            [] \<Rightarrow> Usage 2
                          | w # args' \<Rightarrow> (case set_value w r of None \<Rightarrow> Usage 2 | Some r' \<Rightarrow> Parse fs args' r'))))"
  by pat_completeness auto

termination
  by (relation "measure (\<lambda>(fs, args, r). length args)") auto

declare Parse.simps(2) [simp del]

section \<open>The flags of simulate\<close>

definition sim_flag_defaults :: sim_flags where
  "sim_flag_defaults =
     \<lparr>fl_event = [], fl_users = 500, fl_quantity = 1, fl_cap = 0, fl_workers = DefaultWorkers, fl_poll = DefaultPollInterval,
      fl_userTimeout = DefaultUserTimeout, fl_capacity = 0, fl_reset = True\<rparr>"

definition sim_flag_set :: "golib \<Rightarrow> sim_flags flag_set" where
  "sim_flag_set lib =
     [(''event'', False, \<lambda>s r. Some (r\<lparr>fl_event := s\<rparr>)),
      (''users'', False, \<lambda>s r. map_option (\<lambda>n. r\<lparr>fl_users := n\<rparr>) (ParseInt0 64 s)),
      (''quantity'', False, \<lambda>s r. map_option (\<lambda>n. r\<lparr>fl_quantity := of_nat n\<rparr>) (ParseUint0 64 s)),
      (''cap'', False, \<lambda>s r. map_option (\<lambda>n. r\<lparr>fl_cap := of_nat n\<rparr>) (ParseUint0 64 s)),
      (''workers'', False, \<lambda>s r. map_option (\<lambda>n. r\<lparr>fl_workers := n\<rparr>) (ParseInt0 64 s)),
      (''poll'', False, \<lambda>s r. map_option (\<lambda>d. r\<lparr>fl_poll := d\<rparr>) (ParseDuration (f64_fraction lib) s)),
      (''user-timeout'', False, \<lambda>s r. map_option (\<lambda>d. r\<lparr>fl_userTimeout := d\<rparr>) (ParseDuration (f64_fraction lib) s)),
      (''capacity'', False, \<lambda>s r. map_option (\<lambda>n. r\<lparr>fl_capacity := of_nat n\<rparr>) (ParseUint0 64 s)),
      (''reset'', True, \<lambda>s r. map_option (\<lambda>b. r\<lparr>fl_reset := b\<rparr>) (ParseBool s))]"

section \<open>Writing the flags\<close>

text \<open>The settings of a run as arguments, numbers in decimal and durations in nanoseconds.\<close>

definition int_text :: "int \<Rightarrow> string" where
  "int_text i = (if i < 0 then ''-'' @ dec (nat (- i)) else dec (nat i))"

definition sim_flag_args :: "sim_flags \<Rightarrow> string list" where
  "sim_flag_args fl =
     [''-event='' @ fl_event fl, ''-users='' @ int_text (fl_users fl), ''-quantity='' @ dec (unat (fl_quantity fl)),
      ''-cap='' @ dec (unat (fl_cap fl)), ''-workers='' @ int_text (fl_workers fl), ''-poll='' @ int_text (fl_poll fl) @ ''ns'',
      ''-user-timeout='' @ int_text (fl_userTimeout fl) @ ''ns'', ''-capacity='' @ dec (unat (fl_capacity fl)),
      ''-reset='' @ (if fl_reset fl then ''true'' else ''false'')]"

lemma digit36_digit: "is_digit c \<Longrightarrow> digit36 c = Some (digit_val c)"
  by (simp add: is_digit_def digit36_def digit_val_def)

lemma digit_not_underscore: "is_digit c \<Longrightarrow> c \<noteq> CHR ''_''"
  by (auto simp: is_digit_def)

lemma parse_digits_append:
  "parse_digits limit base n (s @ t) = (case parse_digits limit base n s of None \<Rightarrow> None | Some m \<Rightarrow> parse_digits limit base m t)"
  by (induction limit base n s rule: parse_digits.induct) (auto split: option.splits)

lemma parse_digits_decimal:
  assumes "list_all is_digit s" and "decimal s < limit"
  shows "parse_digits limit 10 0 s = Some (decimal s)"
  using assms
proof (induction s rule: rev_induct)
  case (snoc c s)
  then have c: "is_digit c" "10 * decimal s + digit_val c < limit" by simp_all
  then have "parse_digits limit 10 0 s = Some (decimal s)" using snoc by simp
  then show ?case using c digit_val_le [OF c(1)] digit_not_underscore [OF c(1)]
    by (simp add: parse_digits_append digit36_digit not_le)
qed simp

lemma dec_hd_zero: "hd (dec n) = CHR ''0'' \<Longrightarrow> n = 0"
proof (induction n rule: dec.induct)
  case (1 n)
  show ?case
  proof (cases "n < 10")
    case True
    then have "digit_char n = CHR ''0''" using "1.prems" by (simp add: dec.simps [of n])
    then have "digit_val (digit_char n) = digit_val CHR ''0''" by (rule arg_cong)
    then have "n = digit_val CHR ''0''" using True by simp
    then show ?thesis by (simp add: digit_val_def)
  next
    case False
    then have "hd (dec (n div 10)) = CHR ''0''" using "1.prems" by (simp add: dec.simps [of n] hd_append)
    then have "n div 10 = 0" by (rule "1.IH" [OF False])
    then show ?thesis using False by simp
  qed
qed

lemma dec_0: "dec 0 = ''0''"
  by code_simp

lemma ParseUint0_dec: "n < 2 ^ bits \<Longrightarrow> ParseUint0 bits (dec n) = Some n"
proof (cases "n = 0")
  case True
  then show ?thesis by (simp add: dec_0 ParseUint0_def split_base_def)
next
  case False
  assume n: "n < 2 ^ bits"
  have "split_base (dec n) = (10, dec n)" using False dec_hd_zero by (auto simp: split_base_def)
  moreover have "CHR ''_'' \<notin> set (dec n)" using dec_digits(1) [of n] digit_not_underscore by (auto simp: list_all_iff)
  ultimately show ?thesis using parse_digits_decimal [of "dec n" "2 ^ bits"] n by (simp add: ParseUint0_def)
qed

lemma hd_dec_digit: "is_digit (hd (dec n))"
  using dec_digits [of n] by (cases "dec n") auto

lemma hd_dec_sign: "hd (dec n) \<noteq> CHR ''-''" "hd (dec n) \<noteq> CHR ''+''"
  using digit_not_sign [OF hd_dec_digit] by blast+

lemma ParseInt0_text:
  assumes "- (2 ^ 63) \<le> i" and "i < 2 ^ 63"
  shows "ParseInt0 64 (int_text i) = Some i"
proof (cases "i < 0")
  case True
  then have "nat (- i) \<le> 2 ^ 63" using assms(1) by simp
  then have "ParseUint0 64 (dec (nat (- i))) = Some (nat (- i))" "nat (- i) \<le> 2 ^ 63" by (auto intro!: ParseUint0_dec)
  then show ?thesis using True by (simp add: ParseInt0_def int_text_def)
next
  case False
  then have "nat i < 2 ^ 63" using assms(2) by simp
  then have "ParseUint0 64 (dec (nat i)) = Some (nat i)" "nat i < 2 ^ 63" by (auto intro!: ParseUint0_dec)
  then show ?thesis using False by (simp add: ParseInt0_def int_text_def hd_dec_sign)
qed

lemma duration_group_ns:
  assumes "n \<le> 2 ^ 63"
  shows "duration_group f64 (dec n @ ''ns'') = Some (n, [])"
proof -
  have ip: "takeWhile is_digit (dec n @ ''ns'') = dec n" "dropWhile is_digit (dec n @ ''ns'') = ''ns''"
    using dec_digits(1) [of n] by (simp_all add: takeWhile_append dropWhile_append list_all_iff is_digit_def)
  have "\<not> is_digit CHR ''s''" "\<not> is_digit CHR ''n''" by (simp_all add: is_digit_def)
  then show ?thesis using assms by (simp add: duration_group_def ip unit_of_def Let_def)
qed

lemma ParseDuration_text:
  assumes "- (2 ^ 63) \<le> d" and "d < 2 ^ 63"
  shows "ParseDuration f64 (int_text d @ ''ns'') = Some d"
proof -
  have groups: "duration_groups f64 0 (dec n @ ''ns'') = Some n" if "n \<le> 2 ^ 63" for n
    using that duration_group_ns [OF that] by (simp add: duration_groups.simps)
  have zero: "dec n @ ''ns'' \<noteq> ''0''" for n
  proof
    assume "dec n @ ''ns'' = ''0''"
    then have "length (dec n @ ''ns'') = length ''0''" by (rule arg_cong)
    then show False by simp
  qed
  have sign: "hd (dec n @ ''ns'') = hd (dec n)" for n by (simp add: hd_append)
  show ?thesis
  proof (cases "d < 0")
    case True
    then have "nat (- d) \<le> 2 ^ 63" using assms(1) by simp
    then show ?thesis using True groups [of "nat (- d)"] zero [of "nat (- d)"]
      by (simp add: ParseDuration_def int_text_def Let_def)
  next
    case False
    then have "nat d \<le> 2 ^ 63 - 1" using assms(2) by simp
    then show ?thesis using False groups [of "nat d"] zero [of "nat d"]
      by (simp add: ParseDuration_def int_text_def Let_def sign hd_dec_sign)
  qed
qed

lemma Parse_setting:
  assumes "map_of fs n = Some (b, set_value)" and "n \<noteq> []" and "CHR ''='' \<notin> set n" and "hd n \<noteq> CHR ''-''"
    and "set_value v r = Some r'"
  shows "Parse fs (([CHR ''-''] @ n @ [CHR ''=''] @ v) # args) r = Parse fs args r'"
proof -
  obtain c cs where n: "n = c # cs" using assms(2) by (cases n) auto
  have c: "c \<noteq> CHR ''-''" "c \<noteq> CHR ''=''" "CHR ''='' \<notin> set cs" using assms(3,4) n by auto
  have "flag_name_value (n @ [CHR ''=''] @ v) = (n, Some v)"
    using c(3) by (auto simp: flag_name_value_def Let_def n takeWhile_append dropWhile_append)
  then show ?thesis using assms(1,5) c by (cases b) (simp_all add: Parse.simps(2) n Let_def)
qed

lemma Parse_sim_setting:
  assumes "map_option (\<lambda>f. snd f v r) (map_of (sim_flag_set lib) n) = Some (Some r')" and "s = ''-'' @ n @ ''='' @ v"
  shows "Parse (sim_flag_set lib) (s # args) r = Parse (sim_flag_set lib) args r'"
proof -
  obtain b set_value where f: "map_of (sim_flag_set lib) n = Some (b, set_value)" "set_value v r = Some r'"
    using assms(1) by auto
  then have "n \<noteq> [] \<and> CHR ''='' \<notin> set n \<and> hd n \<noteq> CHR ''-''"
    by (auto simp: sim_flag_set_def split: if_splits)
  then show ?thesis using Parse_setting [OF f(1) _ _ _ f(2)] assms(2) by simp
qed

lemma Parse_sim_flags:
  "Parse (sim_flag_set lib) ((''-event='' @ v) # args) r = Parse (sim_flag_set lib) args (r\<lparr>fl_event := v\<rparr>)"
  "ParseInt0 64 v = Some i \<Longrightarrow> Parse (sim_flag_set lib) ((''-users='' @ v) # args) r = Parse (sim_flag_set lib) args (r\<lparr>fl_users := i\<rparr>)"
  "ParseUint0 64 v = Some n \<Longrightarrow> Parse (sim_flag_set lib) ((''-quantity='' @ v) # args) r = Parse (sim_flag_set lib) args (r\<lparr>fl_quantity := of_nat n\<rparr>)"
  "ParseUint0 64 v = Some n \<Longrightarrow> Parse (sim_flag_set lib) ((''-cap='' @ v) # args) r = Parse (sim_flag_set lib) args (r\<lparr>fl_cap := of_nat n\<rparr>)"
  "ParseInt0 64 v = Some i \<Longrightarrow> Parse (sim_flag_set lib) ((''-workers='' @ v) # args) r = Parse (sim_flag_set lib) args (r\<lparr>fl_workers := i\<rparr>)"
  "ParseDuration (f64_fraction lib) v = Some i \<Longrightarrow> Parse (sim_flag_set lib) ((''-poll='' @ v) # args) r = Parse (sim_flag_set lib) args (r\<lparr>fl_poll := i\<rparr>)"
  "ParseDuration (f64_fraction lib) v = Some i \<Longrightarrow> Parse (sim_flag_set lib) ((''-user-timeout='' @ v) # args) r = Parse (sim_flag_set lib) args (r\<lparr>fl_userTimeout := i\<rparr>)"
  "ParseUint0 64 v = Some n \<Longrightarrow> Parse (sim_flag_set lib) ((''-capacity='' @ v) # args) r = Parse (sim_flag_set lib) args (r\<lparr>fl_capacity := of_nat n\<rparr>)"
  "ParseBool v = Some b \<Longrightarrow> Parse (sim_flag_set lib) ((''-reset='' @ v) # args) r = Parse (sim_flag_set lib) args (r\<lparr>fl_reset := b\<rparr>)"
proof -
  show "Parse (sim_flag_set lib) ((''-event='' @ v) # args) r = Parse (sim_flag_set lib) args (r\<lparr>fl_event := v\<rparr>)"
    by (rule Parse_sim_setting [where n = "''event''" and v = v]) (simp_all add: sim_flag_set_def)
  show "Parse (sim_flag_set lib) ((''-users='' @ v) # args) r = Parse (sim_flag_set lib) args (r\<lparr>fl_users := i\<rparr>)" if "ParseInt0 64 v = Some i"
    by (rule Parse_sim_setting [where n = "''users''" and v = v]) (simp_all add: sim_flag_set_def that)
  show "Parse (sim_flag_set lib) ((''-quantity='' @ v) # args) r = Parse (sim_flag_set lib) args (r\<lparr>fl_quantity := of_nat n\<rparr>)" if "ParseUint0 64 v = Some n"
    by (rule Parse_sim_setting [where n = "''quantity''" and v = v]) (simp_all add: sim_flag_set_def that)
  show "Parse (sim_flag_set lib) ((''-cap='' @ v) # args) r = Parse (sim_flag_set lib) args (r\<lparr>fl_cap := of_nat n\<rparr>)" if "ParseUint0 64 v = Some n"
    by (rule Parse_sim_setting [where n = "''cap''" and v = v]) (simp_all add: sim_flag_set_def that)
  show "Parse (sim_flag_set lib) ((''-workers='' @ v) # args) r = Parse (sim_flag_set lib) args (r\<lparr>fl_workers := i\<rparr>)" if "ParseInt0 64 v = Some i"
    by (rule Parse_sim_setting [where n = "''workers''" and v = v]) (simp_all add: sim_flag_set_def that)
  show "Parse (sim_flag_set lib) ((''-poll='' @ v) # args) r = Parse (sim_flag_set lib) args (r\<lparr>fl_poll := i\<rparr>)" if "ParseDuration (f64_fraction lib) v = Some i"
    by (rule Parse_sim_setting [where n = "''poll''" and v = v]) (simp_all add: sim_flag_set_def that)
  show "Parse (sim_flag_set lib) ((''-user-timeout='' @ v) # args) r = Parse (sim_flag_set lib) args (r\<lparr>fl_userTimeout := i\<rparr>)" if "ParseDuration (f64_fraction lib) v = Some i"
    by (rule Parse_sim_setting [where n = "''user-timeout''" and v = v]) (simp_all add: sim_flag_set_def that)
  show "Parse (sim_flag_set lib) ((''-capacity='' @ v) # args) r = Parse (sim_flag_set lib) args (r\<lparr>fl_capacity := of_nat n\<rparr>)" if "ParseUint0 64 v = Some n"
    by (rule Parse_sim_setting [where n = "''capacity''" and v = v]) (simp_all add: sim_flag_set_def that)
  show "Parse (sim_flag_set lib) ((''-reset='' @ v) # args) r = Parse (sim_flag_set lib) args (r\<lparr>fl_reset := b\<rparr>)" if "ParseBool v = Some b"
    by (rule Parse_sim_setting [where n = "''reset''" and v = v]) (simp_all add: sim_flag_set_def that)
qed

section \<open>Properties\<close>

text \<open>
  The command line carries every setting. For all settings whose numbers fit their types, the
  arguments that write them out, in any values of \<open>-event\<close>, \<open>-users\<close>, \<open>-quantity\<close>, \<open>-cap\<close>, \<open>-workers\<close>, \<open>-poll\<close>,
  \<open>-user-timeout\<close>, \<open>-capacity\<close> and \<open>-reset\<close>, are parsed back to exactly these settings, with nothing left over.
\<close>

lemma flags_roundtrip:
  assumes "- (2 ^ 63) \<le> fl_users fl" and "fl_users fl < 2 ^ 63" and "- (2 ^ 63) \<le> fl_workers fl" and "fl_workers fl < 2 ^ 63"
    and "- (2 ^ 63) \<le> fl_poll fl" and "fl_poll fl < 2 ^ 63" and "- (2 ^ 63) \<le> fl_userTimeout fl" and "fl_userTimeout fl < 2 ^ 63"
  shows "Parse (sim_flag_set lib) (sim_flag_args fl) sim_flag_defaults = Parsed fl []"
proof -
  have u: "ParseUint0 64 (dec (unat w)) = Some (unat w)" for w :: u64
    using unsigned_less [of w, where 'a = nat] by (intro ParseUint0_dec) simp
  have reset: "ParseBool (if b then ''true'' else ''false'') = Some b" for b by (simp add: ParseBool_def)
  note vals = u ParseInt0_text [OF assms(1,2)] ParseInt0_text [OF assms(3,4)] ParseDuration_text [OF assms(5,6)]
    ParseDuration_text [OF assms(7,8)] reset
  show ?thesis unfolding sim_flag_args_def by (simp only: Parse_sim_flags vals) (simp add: sim_flag_defaults_def)
qed

end
