(* ===== verification/SimCommand.thy ===== *)
theory SimCommand
  imports Flags Lifecycle "HOL-Library.Multiset"
begin

text \<open>
  \<open>cmd/simulate\<close> from its arguments to its exit status: the whole snapshot of \<open>simulation/engine.go\<close>, the
  report that \<open>printReport\<close> writes line by line, and \<open>run\<close> and \<open>main\<close> as the ways in which the process
  can end. Three texts of the \<open>fmt\<close> and \<open>time\<close> packages that show a \<open>float64\<close> or a duration are arguments, and
  so are the statistics of the two connection pools.
\<close>

section \<open>The whole snapshot\<close>

definition Milliseconds :: "duration \<Rightarrow> int" where
  "Milliseconds d = (if d < 0 then - (- d div Millisecond) else d div Millisecond)"

record pool_stats =
  ps_AcquiredConns :: int
  ps_IdleConns :: int
  ps_MaxConns :: int
  ps_TotalConns :: u32
  ps_RedisIdleConns :: u32
  ps_Timeouts :: u32

text \<open>The fields besides those of the state part; percentiles are in microseconds.\<close>

record FullSnapshot = Snapshot +
  sn_EventId :: string
  sn_MaxConcurrent :: u64
  sn_ElapsedMs :: int
  sn_ReserveP50 :: int
  sn_ReserveP95 :: int
  sn_ReserveP99 :: int
  sn_RejectedP50 :: int
  sn_RejectedP95 :: int
  sn_RejectedP99 :: int
  sn_QueueWaitP50 :: int
  sn_QueueWaitP95 :: int
  sn_PollIntervalMs :: int
  sn_Workers :: int
  sn_Transport :: string
  sn_PgAcquired :: int
  sn_PgIdle :: int
  sn_PgMax :: int
  sn_RedisTotalConns :: u32
  sn_RedisIdleConns :: u32
  sn_RedisTimeouts :: u32
  sn_ErrorCounts :: "(string \<times> nat) list"
  sn_Duration :: duration

text \<open>
  What a snapshot meets: the clock at its two readings of \<open>time.Since\<close>, the pools, and the index
  \<open>int(float64(m) * q)\<close> for a percentage \<open>q\<close>.
\<close>

record snapshot_env =
  sx_flt :: "snapshot_call \<Rightarrow> io"
  sx_clocks :: clocks
  sx_rnd :: nat
  sx_gone :: "go_error option"
  sx_since :: duration
  sx_since' :: duration
  sx_pools :: pool_stats
  sx_index :: "nat \<Rightarrow> nat \<Rightarrow> int"

text \<open>The counters are read at the beginning, from \<open>r\<close>, the samples under the mutex at the end, from \<open>later\<close>.\<close>

definition runner_Snapshot ::
  "SimConfig \<Rightarrow> snapshot_env \<Rightarrow> Runner \<Rightarrow> Runner \<Rightarrow> bool \<Rightarrow> 'l sys \<Rightarrow> 'l sys \<times> FullSnapshot" where
  "runner_Snapshot cfg en r later finished s =
     (case take_snapshot cfg (sx_flt en) (sx_clocks en) (sx_rnd en) (sx_gone en) r finished s of
        (s', sn) \<Rightarrow>
          let pct = (\<lambda>q samples. percentileUs (sx_index en q) samples);
              ps = sx_pools en
          in (s', Snapshot.extend sn
                (FullSnapshot.fields (sc_EventId cfg) (sc_MaxConcurrent cfg) (Milliseconds (sx_since en))
                   (pct 50 (reserveSample later)) (pct 95 (reserveSample later)) (pct 99 (reserveSample later))
                   (pct 50 (rejectedSample later)) (pct 95 (rejectedSample later)) (pct 99 (rejectedSample later))
                   (pct 50 (waitSample later)) (pct 95 (waitSample later))
                   (Milliseconds (sc_PollInterval cfg)) (sc_Workers cfg) (sc_Transport cfg)
                   (ps_AcquiredConns ps) (ps_IdleConns ps) (ps_MaxConns ps)
                   (ps_TotalConns ps) (ps_RedisIdleConns ps) (ps_Timeouts ps)
                   (errorCounts later) (sx_since' en))))"

section \<open>The report\<close>

text \<open>\<open>Duration.Round\<close>: to the nearest multiple, halves away from zero, within \<open>int64\<close>.\<close>

definition Duration_Round :: "duration \<Rightarrow> duration \<Rightarrow> duration" where
  "Duration_Round d m =
     (if m \<le> 0 then d
      else if d < 0
      then (let r = (- d) mod m
            in if r + r < m then d + r else if - (2 ^ 63) \<le> d - (m - r) then d - (m - r) else - (2 ^ 63))
      else (let r = d mod m
            in if r + r < m then d - r else if d + (m - r) < 2 ^ 63 then d + (m - r) else 2 ^ 63 - 1))"

text \<open>
  \<open>rt_rate n d\<close> is \<open>%.0f\<close> of \<open>n\<close> users over \<open>d\<close> in seconds, \<open>rt_ms us\<close> is \<open>%.2f\<close> of \<open>us\<close> microseconds in
  milliseconds.
\<close>

record report_text =
  rt_rate :: "nat \<Rightarrow> duration \<Rightarrow> string"
  rt_ms :: "int \<Rightarrow> string"

definition pad4 :: "nat \<Rightarrow> string" where
  "pad4 n = replicate (4 - length (dec n)) CHR '' '' @ dec n"

definition capacity_label :: "'a Snapshot_scheme \<Rightarrow> string" where
  "capacity_label s = (if sn_CapacityKnown s then dec (unat (sn_Capacity s)) else ''?'')"

definition seats_line :: "'a Snapshot_scheme \<Rightarrow> string" where
  "seats_line s = ''seats sold      '' @ int_text (sn_SeatsSold s) @ '' / '' @ capacity_label s @ ''   '' @ verdict s"

definition accounted_line :: "'a Snapshot_scheme \<Rightarrow> string" where
  "accounted_line s = (case report_accounted s of (a, b) \<Rightarrow> ''  accounted         '' @ dec a @ '' / '' @ dec b)"

definition report_funnel :: "'a Snapshot_scheme \<Rightarrow> string list" where
  "report_funnel s =
     (let r = sn_Runner s in
      [''funnel'',
       ''  enqueued          '' @ dec (enqueued r),
       ''  admitted          '' @ dec (admitted r),
       ''  reserved          '' @ dec (reserved r),
       ''  rejected capacity '' @ dec (rejectedCapacity r),
       ''  rejected quota    '' @ dec (rejectedQuota r),
       ''  timed out         '' @ dec (timedOut r),
       ''  cancelled         '' @ dec (cancelled r),
       ''  reaped (no ping)  '' @ dec (reaped r),
       ''  errors            '' @ dec (errors r),
       accounted_line s,
       []])"

text \<open>\<open>entries\<close> are the error counts in the order in which \<open>range\<close> visits the map.\<close>

definition report_errors :: "(string \<times> nat) list \<Rightarrow> string list" where
  "report_errors entries =
     (if entries = [] then []
      else ''error breakdown'' # map (\<lambda>(msg, n). ''  '' @ pad4 n @ ''  '' @ msg) entries @ [[]])"

definition report_latency :: "report_text \<Rightarrow> FullSnapshot \<Rightarrow> string list" where
  "report_latency rt s =
     [''reserve latency, successful (db contention)'',
      ''  p50 '' @ rt_ms rt (sn_ReserveP50 s) @ ''ms   p95 '' @ rt_ms rt (sn_ReserveP95 s) @ ''ms   p99 '' @ rt_ms rt (sn_ReserveP99 s) @ ''ms'',
      ''reserve latency, rejected (capacity/quota)'',
      ''  p50 '' @ rt_ms rt (sn_RejectedP50 s) @ ''ms   p95 '' @ rt_ms rt (sn_RejectedP95 s) @ ''ms   p99 '' @ rt_ms rt (sn_RejectedP99 s) @ ''ms'',
      ''queue wait (quantised by '' @ int_text (sn_PollIntervalMs s) @ ''ms poll)'',
      ''  p50 '' @ rt_ms rt (sn_QueueWaitP50 s) @ ''ms   p95 '' @ rt_ms rt (sn_QueueWaitP95 s) @ ''ms'',
      []]"

definition report_leftovers :: "FullSnapshot \<Rightarrow> string list" where
  "report_leftovers s =
     [''leftover state'',
      ''  still queued      '' @ dec (sn_InQueue s),
      ''  still whitelisted '' @ dec (sn_WhitelistSize s),
      [],
      ''pools'',
      ''  postgres  '' @ int_text (sn_PgAcquired s) @ ''/'' @ int_text (sn_PgMax s) @ '' acquired, '' @ int_text (sn_PgIdle s) @ '' idle'',
      ''  redis     '' @ dec (unat (sn_RedisTotalConns s)) @ '' conns, '' @ dec (unat (sn_RedisIdleConns s)) @ '' idle, ''
        @ dec (unat (sn_RedisTimeouts s)) @ '' timeouts'',
      [],
      ''note: workers call the service layer in-process; the HTTP layer is bypassed.'']"

definition printReport :: "golib \<Rightarrow> report_text \<Rightarrow> FullSnapshot \<Rightarrow> (string \<times> nat) list \<Rightarrow> duration \<Rightarrow> string list" where
  "printReport lib rt s entries elapsed =
     [seats_line s, ''wall clock      '' @ Duration_String lib (Duration_Round elapsed Millisecond)]
     @ (if 0 < elapsed then [''throughput      '' @ rt_rate rt (sn_TotalUsers s) elapsed @ '' users/s''] else [])
     @ [[]] @ report_funnel s @ report_errors entries @ report_latency rt s @ report_leftovers s"

section \<open>The process\<close>

definition run_headline :: "golib \<Rightarrow> Config \<Rightarrow> sim_flags \<Rightarrow> nat \<Rightarrow> string list" where
  "run_headline lib cfg fl n =
     [''running '' @ dec n @ '' users against event '' @ fl_event fl @ '' (workers='' @ int_text (fl_workers fl) @ '' cap=''
        @ capLabel (fl_cap fl) (cfg_MaxConcurrentQueue cfg) @ '' poll='' @ Duration_String lib (fl_poll fl) @ '')'',
      []]"

text \<open>How the process ends: in the flag package, by an error that \<open>main\<close> logs, by a panic, or with a report.\<close>

datatype ending = Usage_shown nat | Failed go_error | Panicked | Reported FullSnapshot

definition process_status :: "ending \<Rightarrow> nat" where
  "process_status e =
     (case e of Usage_shown n \<Rightarrow> n | Failed _ \<Rightarrow> 1 | Panicked \<Rightarrow> 2 | Reported s \<Rightarrow> exit_status s)"

record 'l sim_process =
  sp_world :: "'l world"
  sp_stdout :: "string list"
  sp_end :: ending

text \<open>
  What \<open>run\<close> meets besides its arguments: the outcome of every call, the clock readings, the ids the
  database draws.
\<close>

record run_env =
  re_flt :: "sim_call \<Rightarrow> io"
  re_insert :: io
  re_uuids :: "nat \<Rightarrow> string"
  re_ids :: "string list"
  re_clocks :: clocks
  re_begin :: io
  re_clear :: io
  re_clear_clocks :: clocks
  re_snapshot :: snapshot_env
  re_elapsed :: duration
  re_text :: report_text

text \<open>
  \<open>main\<close> and \<open>run\<close>. From the start of the repositories on, the tickers of this process and every other
  process go on between the statements (\<open>site_env\<close>, with the demo routes of a server in demo mode, restricted by \<open>careful\<close> as there); the users' goroutines interleave in \<open>sim_step\<close>, and
  \<open>Run\<close> returns when all of them have.
\<close>

inductive simulate_main ::
  "bool \<Rightarrow> 'l server \<Rightarrow> golib \<Rightarrow> (string \<Rightarrow> string) \<Rightarrow> (go_error \<times> bool) option \<Rightarrow> environment \<Rightarrow> drivers \<Rightarrow> run_env \<Rightarrow> string list
    \<Rightarrow> 'l world \<Rightarrow> 'l sim_process \<Rightarrow> bool"
  for careful sv lib pg_text dotenv env dr en args where
  usage: "Parse (sim_flag_set lib) args sim_flag_defaults = Usage n \<Longrightarrow>
    simulate_main careful sv lib pg_text dotenv env dr en args w \<lparr>sp_world = w, sp_stdout = [], sp_end = Usage_shown n\<rparr>"
| no_event: "Parse (sim_flag_set lib) args sim_flag_defaults = Parsed fl rest \<Longrightarrow> fl_event fl = [] \<Longrightarrow>
    simulate_main careful sv lib pg_text dotenv env dr en args w
      \<lparr>sp_world = w, sp_stdout = [], sp_end = Failed (OtherError ''-event is required'')\<rparr>"
| no_config: "Parse (sim_flag_set lib) args sim_flag_defaults = Parsed fl rest \<Longrightarrow> fl_event fl \<noteq> [] \<Longrightarrow> Load lib dotenv env = Inl err \<Longrightarrow>
    simulate_main careful sv lib pg_text dotenv env dr en args w \<lparr>sp_world = w, sp_stdout = [], sp_end = Failed err\<rparr>"
| no_connection: "Parse (sim_flag_set lib) args sim_flag_defaults = Parsed fl rest \<Longrightarrow> fl_event fl \<noteq> [] \<Longrightarrow> Load lib dotenv env = Inr cfg \<Longrightarrow>
    snd (NewRepositories dr cfg) = Some (Inl err) \<and> e = Failed err \<or> snd (NewRepositories dr cfg) = None \<and> e = Panicked \<Longrightarrow>
    simulate_main careful sv lib pg_text dotenv env dr en args w \<lparr>sp_world = w, sp_stdout = [], sp_end = e\<rparr>"
| not_prepared: "Parse (sim_flag_set lib) args sim_flag_defaults = Parsed fl rest \<Longrightarrow> fl_event fl \<noteq> [] \<Longrightarrow> Load lib dotenv env = Inr cfg \<Longrightarrow>
    snd (NewRepositories dr cfg) = Some (Inr repos) \<Longrightarrow> rp_queue repos = sv_queue sv \<Longrightarrow>
    (site_env careful sv)\<^sup>*\<^sup>* w (t, s) \<Longrightarrow> c_pg (re_clocks en) = t \<Longrightarrow>
    sim_cmd_prepare (re_flt en) (re_insert en) (re_clocks en) (re_uuids en) (re_ids en) fl s = (s', res) \<Longrightarrow>
    res = Some (Inl err) \<and> e = Failed err \<or> res = None \<and> e = Panicked \<Longrightarrow>
    simulate_main careful sv lib pg_text dotenv env dr en args w \<lparr>sp_world = (t, s'), sp_stdout = [], sp_end = e\<rparr>"
| not_run: "Parse (sim_flag_set lib) args sim_flag_defaults = Parsed fl rest \<Longrightarrow> fl_event fl \<noteq> [] \<Longrightarrow> Load lib dotenv env = Inr cfg \<Longrightarrow>
    snd (NewRepositories dr cfg) = Some (Inr repos) \<Longrightarrow> rp_queue repos = sv_queue sv \<Longrightarrow>
    (site_env careful sv)\<^sup>*\<^sup>* w (t, s) \<Longrightarrow> c_pg (re_clocks en) = t \<Longrightarrow>
    sim_cmd_prepare (re_flt en) (re_insert en) (re_clocks en) (re_uuids en) (re_ids en) fl s = (s1, Some (Inr scfg)) \<Longrightarrow>
    (site_env careful sv)\<^sup>*\<^sup>* (t, s1) (t', s2) \<Longrightarrow> run_begin scfg (re_begin en) s2 = (s3, Inl err) \<Longrightarrow>
    simulate_main careful sv lib pg_text dotenv env dr en args w
      \<lparr>sp_world = (t', s3), sp_stdout = run_headline lib cfg fl (users_of scfg), sp_end = Failed err\<rparr>"
| reports: "Parse (sim_flag_set lib) args sim_flag_defaults = Parsed fl rest \<Longrightarrow> fl_event fl \<noteq> [] \<Longrightarrow> Load lib dotenv env = Inr cfg \<Longrightarrow>
    snd (NewRepositories dr cfg) = Some (Inr repos) \<Longrightarrow> rp_queue repos = sv_queue sv \<Longrightarrow>
    (site_env careful sv)\<^sup>*\<^sup>* w (t, s) \<Longrightarrow> c_pg (re_clocks en) = t \<Longrightarrow>
    sim_cmd_prepare (re_flt en) (re_insert en) (re_clocks en) (re_uuids en) (re_ids en) fl s = (s1, Some (Inr scfg)) \<Longrightarrow>
    (site_env careful sv)\<^sup>*\<^sup>* (t, s1) (t', s2) \<Longrightarrow> run_begin scfg (re_begin en) s2 = (s3, Inr ()) \<Longrightarrow>
    (sim_step (runner_client sv pg_text scfg) pg_text scfg (site_env careful sv))\<^sup>*\<^sup>* (sim_start (t', s3)) st \<Longrightarrow>
    (\<And>i. i < users_of scfg \<Longrightarrow> sm_phase st i = Finished) \<Longrightarrow> sm_world st = (t'', s4) \<Longrightarrow>
    (site_env careful sv)\<^sup>*\<^sup>* (t'', run_end scfg (re_clear en) (re_clear_clocks en) s4) (t5, s5) \<Longrightarrow> c_pg (sx_clocks (re_snapshot en)) = t5 \<Longrightarrow>
    runner_Snapshot scfg (re_snapshot en) (sm_run st) (sm_run st) True s5 = (s6, sn) \<Longrightarrow>
    mset entries = mset (sn_ErrorCounts sn) \<Longrightarrow>
    simulate_main careful sv lib pg_text dotenv env dr en args w
      \<lparr>sp_world = (t5, s6),
       sp_stdout = run_headline lib cfg fl (users_of scfg) @ printReport lib (re_text en) sn entries (re_elapsed en),
       sp_end = Reported sn\<rparr>"

section \<open>What the command prepares\<close>

lemma insert_all_users_store:
  assumes "insert_all_users now ids nus db = Inr (db', created)" and "store_inv (t, db)"
  shows "store_inv (t, db')" and "length created = length nus"
proof -
  have "store_inv (t, db') \<and> length created = length nus"
    using assms
  proof (induction nus arbitrary: ids db created)
    case (Cons nu nus)
    then obtain db1 u rest where ins: "insert_user now (hd ids) nu db = Inr (db1, u)"
      and rest: "insert_all_users now (tl ids) nus db1 = Inr (db', rest)" "created = us_Id u # rest"
      by (auto split: sum.splits)
    then show ?case using Cons.IH [OF rest(1) new_user_inv [OF Cons.prems(2) ins]] by simp
  qed simp
  then show "store_inv (t, db')" and "length created = length nus" by auto
qed

lemma cmd_mintUsers_store:
  assumes "cmd_mintUsers x now uuids ids n db = (db', Some (Inr userIds))" and "store_inv (t, db)"
  shows "store_inv (t, db') \<and> int (length userIds) = n"
proof -
  let ?ins = "insert_all_users now ids (map (\<lambda>i. cmd_user uuids (i + 1)) [0..<nat n]) db"
  have n: "0 \<le> n" and run: "commit_insert x ?ins db = (db', Inr userIds)"
    using assms(1) by (auto simp: cmd_mintUsers_def apsnd_def map_prod_def split: if_splits io.splits prod.splits)
  then have "?ins = Inr (db', userIds)" by (cases x; cases ?ins) (auto split: prod.splits)
  from insert_all_users_store [OF this assms(2)] show ?thesis using n by simp
qed

lemma sim_cmd_capacity_done:
  assumes "sim_cmd_capacity flt c fl s = (s', Inr ())"
  shows "reservations_tbl (sys_db s') = reservations_tbl (sys_db s)" "fl_capacity fl = 0 \<Longrightarrow> s' = s"
    "fl_capacity fl \<noteq> 0 \<Longrightarrow> unat (fl_capacity fl) < 2 ^ 31 \<and> sys_db s' = (sys_db s)\<lparr>events_tbl :=
       map (set_capacity (c_pg c) (of_nat (unat (fl_capacity fl))) (fl_event fl)) (events_tbl (sys_db s))\<rparr>"
  using assms by (cases "flt SC_Capacity"; auto simp: sim_cmd_capacity_def update_capacity_def split: if_splits prod.splits sum.splits)+

lemma sim_cmd_reset_done:
  assumes "sim_cmd_reset flt fl s = (s', Inr ())"
  shows "\<not> fl_reset fl \<Longrightarrow> s' = s"
    "fl_reset fl \<Longrightarrow> sys_db s' = (sys_db s)\<lparr>reservations_tbl := without_event (fl_event fl) (reservations_tbl (sys_db s))\<rparr>"
  using assms by (cases "flt SC_Delete"; cases "flt SC_Flush"; auto simp: sim_cmd_reset_def delete_reservations_def)+

lemma sim_cmd_prepared_store:
  assumes "store_inv (t, sys_db s)" and "sim_cmd_capacity flt c fl s = (s1, Inr ())" and "sim_cmd_reset flt fl s1 = (s2, Inr ())"
    and "fl_reset fl \<or> fl_capacity fl = 0"
  shows "store_inv (t, sys_db s2)"
proof (cases "fl_capacity fl = 0")
  case True
  then show ?thesis
    using assms(1) sim_cmd_capacity_done(2) [OF assms(2)] sim_cmd_reset_done [OF assms(3)] store_inv_without_event [of t "sys_db s"]
    by (cases "fl_reset fl") auto
next
  case False
  then have small: "unat (fl_capacity fl) < 2 ^ 31" using sim_cmd_capacity_done(3) [OF assms(2)] by blast
  then have "unat (of_nat (unat (fl_capacity fl)) :: u32) = unat (fl_capacity fl)" by (intro unat_of_nat_u32) simp
  moreover from this have "0 < (of_nat (unat (fl_capacity fl)) :: u32)" using False by (metis unat_0 unat_eq_zero word_gt_0)
  ultimately show ?thesis
    using False assms(4) small sim_cmd_capacity_done(3) [OF assms(2)] sim_cmd_reset_done(2) [OF assms(3)]
      store_inv_new_capacity [where now = "c_pg c" and e = "fl_event fl" and cap = "of_nat (unat (fl_capacity fl))", OF assms(1)] by simp
qed

lemma sim_cmd_prepare_done:
  assumes "sim_cmd_prepare flt x c uuids ids fl s = (s', Some (Inr cfg))"
  obtains s1 s2 db' userIds where "sim_cmd_capacity flt c fl s = (s1, Inr ())" "sim_cmd_reset flt fl s1 = (s2, Inr ())"
    "cmd_mintUsers x (c_pg c) uuids ids (fl_users fl) (sys_db s2) = (db', Some (Inr userIds))"
    "s' = s2\<lparr>sys_db := db'\<rparr>" "cfg = settle_config (cmd_config fl userIds)"
proof -
  obtain s1 r1 where 1: "sim_cmd_capacity flt c fl s = (s1, r1)" by fastforce
  obtain s2 r2 where 2: "sim_cmd_reset flt fl s1 = (s2, r2)" by fastforce
  obtain db' r3 where 3: "cmd_mintUsers x (c_pg c) uuids ids (fl_users fl) (sys_db s2) = (db', r3)" by fastforce
  show thesis
    using assms 1 2 3 that by (auto simp: sim_cmd_prepare_def split: sum.splits option.splits)
qed

lemma sim_cmd_prepare_store:
  assumes "sim_cmd_prepare flt x c uuids ids fl s = (s', Some (Inr cfg))" and "store_inv (t, sys_db s)" and "fl_reset fl \<or> fl_capacity fl = 0"
  shows "store_inv (t, sys_db s') \<and> int (users_of cfg) = fl_users fl"
proof -
  obtain s1 s2 db' userIds where p: "sim_cmd_capacity flt c fl s = (s1, Inr ())" "sim_cmd_reset flt fl s1 = (s2, Inr ())"
    "cmd_mintUsers x (c_pg c) uuids ids (fl_users fl) (sys_db s2) = (db', Some (Inr userIds))"
    "s' = s2\<lparr>sys_db := db'\<rparr>" "cfg = settle_config (cmd_config fl userIds)"
    by (rule sim_cmd_prepare_done [OF assms(1)])
  have "store_inv (t, sys_db s2)" by (rule sim_cmd_prepared_store [OF assms(2) p(1,2) assms(3)])
  from cmd_mintUsers_store [OF p(3) this] show ?thesis
    by (simp add: p(4,5) settle_config_def cmd_config_def Let_def)
qed

text \<open>
  A negative number of users is found out too late: the event's reservations and the whole Redis
  database are gone when the command panics.
\<close>

lemma negative_users_panic_after_reset:
  assumes "fl_users fl < 0" and "- (2 ^ 31) \<le> fl_users fl" and "fl_reset fl" and "fl_capacity fl = 0"
    and "flt SC_Delete = Done" and "flt SC_Flush = Done"
  shows "sim_cmd_prepare flt Done c uuids ids fl s =
    (s\<lparr>sys_db := (sys_db s)\<lparr>reservations_tbl := without_event (fl_event fl) (reservations_tbl (sys_db s))\<rparr>, sys_redis := empty_redis\<rparr>, None)"
  using assms by (simp add: sim_cmd_prepare_def sim_cmd_capacity_def sim_cmd_reset_def delete_reservations_def rflushdb_def cmd_mintUsers_def)

text \<open>What \<open>run\<close> does from the start of the repositories to the snapshot keeps the database sound.\<close>

lemma command_keeps_store:
  assumes "(site_env True sv)\<^sup>*\<^sup>* w (t, s)"
    and "sim_cmd_prepare flt ins c uuids ids fl s = (s1, Some (Inr cfg))" and "(site_env True sv)\<^sup>*\<^sup>* (t, s1) (t', s2)"
    and "run_begin cfg x s2 = (s3, Inr ())"
    and "(sim_step (runner_client sv pg_text cfg) pg_text cfg (site_env True sv))\<^sup>*\<^sup>* (sim_start (t', s3)) st" and "sm_world st = (t'', s4)"
    and "(site_env True sv)\<^sup>*\<^sup>* (t'', run_end cfg y c' s4) (t5, s5)"
    and "world_inv w" and "fl_reset fl \<or> fl_capacity fl = 0"
  shows "store_inv (t5, sys_db s5)" and "int (users_of cfg) = fl_users fl"
proof -
  have "store_inv (t, sys_db s)" using site_envs_store [OF assms(1,8)] by simp
  then have prepared: "store_inv (t, sys_db s1)" "int (users_of cfg) = fl_users fl"
    using sim_cmd_prepare_store [OF assms(2)] assms(9) by auto
  then show "int (users_of cfg) = fl_users fl" by blast
  have "store_inv (t', sys_db s2)" using site_envs_store [OF assms(3)] prepared(1) by simp
  then have "store_inv (t', sys_db s3)" using run_bracket_store(1) [of cfg x s2] assms(4) by simp
  then have "world_inv (sm_world st)" using runner_client_keeps [OF assms(5) site_env_store] by (simp add: sim_start_def)
  then show "store_inv (t5, sys_db s5)" using site_envs_store [OF assms(7)] assms(6) by simp
qed

section \<open>What the report says\<close>

text \<open>A cache that agrees with the table after the read agreed with it on what was read.\<close>

lemma GetEvent_row_after:
  assumes "snd (repo_GetEvent flt now rnd dl gone e db r) = Inr ev"
    and "coherent event_cached (event_rows db) (fst (repo_GetEvent flt now rnd dl gone e db r))"
  shows "event_rows db e = Some ev"
proof (cases "rc_GetEvent (flt GE_Cache) now e r")
  case (Inr ev')
  then have "fst (repo_GetEvent flt now rnd dl gone e db r) = r" by (simp add: repo_GetEvent_def)
  then show ?thesis using GetEvent_coherent_row [of db r flt now rnd dl gone e ev] assms by simp
next
  case (Inl err)
  then have "pg_GetEvent (flt GE_Query) e db = Inr ev"
    using assms(1) by (auto simp: repo_GetEvent_def Let_def split: sum.splits option.splits if_splits)
  then show ?thesis by (auto simp: pg_GetEvent_def event_rows_def split: option.splits)
qed

lemma runner_Snapshot_fields:
  assumes "runner_Snapshot cfg en r later fin s = (s', sn)"
  shows "s' = s\<lparr>sys_redis := fst (repo_GetEvent (\<lambda>x. sx_flt en (SN_Event x)) (c_redis (sx_clocks en)) (sx_rnd en) True (sx_gone en)
      (sc_EventId cfg) (sys_db s) (sys_redis s))\<rparr>"
    and "sn_Runner sn = r" and "sn_TotalUsers sn = users_of cfg" and "sn_ErrorCounts sn = errorCounts later"
    and "sn_Oversold sn \<longleftrightarrow> sn_Oversold (snd (take_snapshot cfg (sx_flt en) (sx_clocks en) (sx_rnd en) (sx_gone en) r fin s))"
    and "sn_CapacityKnown sn \<longleftrightarrow> sn_CapacityKnown (snd (take_snapshot cfg (sx_flt en) (sx_clocks en) (sx_rnd en) (sx_gone en) r fin s))"
    and "sn_Capacity sn = sn_Capacity (snd (take_snapshot cfg (sx_flt en) (sx_clocks en) (sx_rnd en) (sx_gone en) r fin s))"
    and "sn_SeatsSold sn = sn_SeatsSold (snd (take_snapshot cfg (sx_flt en) (sx_clocks en) (sx_rnd en) (sx_gone en) r fin s))"
  using assms
  by (auto simp: runner_Snapshot_def take_snapshot_def Let_def split_beta Snapshot.extend_def FullSnapshot.fields_def)

lemma runner_Snapshot_sound:
  assumes run: "runner_Snapshot cfg en r later fin s = (s', sn)" and "within_capacity (c_pg (sx_clocks en)) (sys_db s)"
    and coh: "coherent event_cached (event_rows (sys_db s')) (sys_redis s')"
  shows "\<not> sn_Oversold sn"
proof -
  have "event_rows (sys_db s) (sc_EventId cfg) = Some ev"
    if "snd (repo_GetEvent (\<lambda>x. sx_flt en (SN_Event x)) (c_redis (sx_clocks en)) (sx_rnd en) True (sx_gone en) (sc_EventId cfg)
      (sys_db s) (sys_redis s)) = Inr ev" for ev
    by (rule GetEvent_row_after [OF that]) (use coh in \<open>simp add: runner_Snapshot_fields(1) [OF run]\<close>)
  then show ?thesis
    unfolding runner_Snapshot_fields(5) [OF run] by (intro snapshot_row_not_oversold assms(2))
qed

text \<open>With the capacity read and the seats counted the snapshot has the true numbers.\<close>

lemma runner_Snapshot_exact:
  assumes run: "runner_Snapshot cfg en r later fin s = (s', sn)" and coh: "coherent event_cached (event_rows (sys_db s')) (sys_redis s')"
    and "sn_CapacityKnown sn" and "sx_flt en SN_Sold = Done"
  obtains ev where "event_rows (sys_db s) (sc_EventId cfg) = Some ev" "sn_Capacity sn = ev_Capacity ev"
    "sn_SeatsSold sn = int (active_seats (c_pg (sx_clocks en)) (sc_EventId cfg) (reservations_tbl (sys_db s)))"
    "sn_Oversold sn \<longleftrightarrow> 0 < ev_Capacity ev \<and> unat (ev_Capacity ev) < active_seats (c_pg (sx_clocks en)) (sc_EventId cfg) (reservations_tbl (sys_db s))"
proof -
  let ?get = "repo_GetEvent (\<lambda>x. sx_flt en (SN_Event x)) (c_redis (sx_clocks en)) (sx_rnd en) True (sx_gone en) (sc_EventId cfg) (sys_db s) (sys_redis s)"
  obtain ev where ev: "snd ?get = Inr ev"
    using assms(3) unfolding runner_Snapshot_fields(6) [OF run] by (cases "snd ?get") (auto simp: take_snapshot_def Let_def split_beta)
  have "event_rows (sys_db s) (sc_EventId cfg) = Some ev"
    by (rule GetEvent_row_after [OF ev]) (use coh in \<open>simp add: runner_Snapshot_fields(1) [OF run]\<close>)
  moreover have cap: "sn_Capacity sn = ev_Capacity ev" unfolding runner_Snapshot_fields(7) [OF run] by (simp add: snapshot_fields ev)
  moreover have sold: "sn_SeatsSold sn = int (active_seats (c_pg (sx_clocks en)) (sc_EventId cfg) (reservations_tbl (sys_db s)))"
    unfolding runner_Snapshot_fields(8) [OF run] by (simp add: snapshot_fields assms(4) pg_GetTotalReserved_def)
  moreover have "sn_Oversold sn \<longleftrightarrow> 0 < sn_Capacity sn \<and> int (unat (sn_Capacity sn)) < sn_SeatsSold sn"
    unfolding runner_Snapshot_fields(5,7,8) [OF run] by (rule snapshot_fields(3))
  ultimately show thesis by (intro that) (simp_all only: of_nat_less_iff)
qed

lemma prepared_event: "sim_cmd_prepare flt x c uuids ids fl s = (s', Some (Inr cfg)) \<Longrightarrow> sc_EventId cfg = fl_event fl"
  by (erule sim_cmd_prepare_done) (simp add: settle_config_def cmd_config_def Let_def)

lemma report_lines:
  "seats_line sn \<in> set (printReport lib rt sn entries elapsed)" "accounted_line sn \<in> set (printReport lib rt sn entries elapsed)"
  by (simp_all add: printReport_def report_funnel_def Let_def)

text \<open>When every user has finished, the outcomes add up to the users.\<close>

lemma all_finished_accounted:
  assumes "(sim_step cl pg_text cfg env)\<^sup>*\<^sup>* (sim_start w) st" and "\<And>i. i < users_of cfg \<Longrightarrow> sm_phase st i = Finished"
  shows "accounted (sm_run st) = users_of cfg"
proof -
  have "books_balance cfg (sm_run st) (sm_phase st)"
    by (rule books.reach_inv [OF _ assms(1)]) (simp add: sim_start_def)
  moreover have "filter (\<lambda>i. sm_phase st i = Finished) [0..<users_of cfg] = [0..<users_of cfg]"
    using assms(2) by (simp add: filter_id_conv)
  ultimately show ?thesis by (simp add: books_balance_def Let_def in_phase_def)
qed

section \<open>A command for examples\<close>

definition demo_sim_server :: "(string \<Rightarrow> time option) server" where
  "demo_sim_server = demo_server\<lparr>sv_queue := NewVirtualQueueRepository (read_config demo_lib demo_env)\<rparr>"

definition demo_snapshot_env :: snapshot_env where
  "demo_snapshot_env = \<lparr>sx_flt = (\<lambda>x. if x = SN_Event GE_Fill then NotSent Canceled else Done), sx_clocks = demo_clock, sx_rnd = 0, sx_gone = None,
     sx_since = 0, sx_since' = 0, sx_pools = \<lparr>ps_AcquiredConns = 0, ps_IdleConns = 2, ps_MaxConns = 20, ps_TotalConns = 1,
       ps_RedisIdleConns = 1, ps_Timeouts = 0\<rparr>, sx_index = (\<lambda>q m. int (m * q div 100))\<rparr>"

definition demo_run_env :: run_env where
  "demo_run_env = \<lparr>re_flt = (\<lambda>_. Done), re_insert = Done, re_uuids = (\<lambda>_. ''x''), re_ids = [''u9''], re_clocks = demo_clock, re_begin = Done,
     re_clear = Done, re_clear_clocks = demo_clock, re_snapshot = demo_snapshot_env, re_elapsed = 0,
     re_text = \<lparr>rt_rate = (\<lambda>n d. dec n), rt_ms = int_text\<rparr>\<rparr>"

abbreviation demo_sim_flags :: sim_flags where
  "demo_sim_flags \<equiv> sim_flag_defaults\<lparr>fl_event := ''e1'', fl_users := 1\<rparr>"

lemma demo_sim_Parse: "Parse (sim_flag_set demo_lib) [''-event=e1'', ''-users=1''] sim_flag_defaults = Parsed demo_sim_flags []"
proof -
  have "ParseInt0 64 ''1'' = Some 1"
    by (simp add: ParseInt0_def ParseUint0_def split_base_def digit36_def)
  then show ?thesis
    using Parse_sim_flags(1) [of demo_lib "''e1''"] Parse_sim_flags(2) [of "''1''" 1 demo_lib] by simp
qed

lemma demo_sim_connected:
  "\<exists>repos. snd (NewRepositories demo_drivers (read_config demo_lib demo_env)) = Some (Inr repos) \<and> rp_queue repos = sv_queue demo_sim_server"
proof -
  have "0 < cfg_PromoteInterval (read_config demo_lib demo_env)" using demo_Load by (auto simp: Load_Inr)
  then show ?thesis
    by (simp add: NewRepositories_def newPostgresConnection_def newPostgresConfig_def newRedisConnection_def demo_sim_server_def
        demo_drivers_def startRefreshEventStatusTicker_def startPromoterTicker_def NewTicker_def NewVirtualQueueRepository_def)
qed

lemma demo_sim_prepared:
  "\<exists>s. sim_cmd_prepare (\<lambda>_. Done) Done demo_clock (\<lambda>_. ''x'') [''u9''] demo_sim_flags demo_world
      = (s, Some (Inr (settle_config (cmd_config demo_sim_flags [''u9''])))) \<and> sys_redis s = empty_redis"
  by (simp add: sim_cmd_prepare_def sim_cmd_capacity_def sim_cmd_reset_def sim_flag_defaults_def delete_reservations_def rflushdb_def
      cmd_mintUsers_def cmd_user_def insert_user_def mk_user_def name_not_blank_def demo_sim_email email_taken_def demo_db_def demo_user_def
      demo_emails demo_sys_def)

section \<open>Properties\<close>

text \<open>
  C34: the report of a completed simulation is true. Whenever \<open>simulate\<close> gets as far as its report, its status is 1 exactly
  if the snapshot's flag is set. If the capacity could be read and the seats could be counted, and the event cache agrees with the
  table at the end, the report has the true numbers of the event's row, and status 1 means exactly that the event has more active
  seats than capacity; with a count that failed nothing is sold, as far as the report knows, and it passes
  (lemma \<open>report_passes_without_count\<close>). When the command starts on a sound database, and
  resets the event or leaves its capacity alone, then moreover the
  database is sound at the end, every requested user was created and is accounted for in the funnel's last
  line, the verdict is \<open>PASS\<close> (or that the capacity could not be read), never \<open>OVERSOLD\<close>, and the process exits
  with status 0, again with a cache that agrees at the end. This holds whatever fails and however long it takes, for every interleaving of the
  users' calls with the requests of other processes, each call and request being one step and the demo requests among them
  satisfying \<open>prudent\<close>.
\<close>

theorem simulate_command_reports_truth:
  assumes "simulate_main careful sv lib pg_text dotenv env dr en args (t, s) out" and "sp_end out = Reported sn"
    and "Parse (sim_flag_set lib) args sim_flag_defaults = Parsed fl rest" and "sp_world out = (t', s')"
  shows "(process_status (sp_end out) = 1 \<longleftrightarrow> sn_Oversold sn)
    \<and> (sn_CapacityKnown sn \<longrightarrow> (process_status (sp_end out) = 1 \<longleftrightarrow> verdict sn = ''OVERSOLD''))
    \<and> seats_line sn \<in> set (sp_stdout out)
    \<and> (sn_CapacityKnown sn \<and> sx_flt (re_snapshot en) SN_Sold = Done \<and> coherent event_cached (event_rows (sys_db s')) (sys_redis s')
        \<longrightarrow> (\<exists>ev. event_rows (sys_db s') (fl_event fl) = Some ev \<and> sn_Capacity sn = ev_Capacity ev
          \<and> sn_SeatsSold sn = int (active_seats t' (fl_event fl) (reservations_tbl (sys_db s')))
          \<and> (0 < ev_Capacity ev \<longrightarrow> (process_status (sp_end out) = 1 \<longleftrightarrow>
               unat (ev_Capacity ev) < active_seats t' (fl_event fl) (reservations_tbl (sys_db s'))))))
    \<and> (careful \<and> store_inv (t, sys_db s) \<and> (fl_reset fl \<or> fl_capacity fl = 0) \<and> coherent event_cached (event_rows (sys_db s')) (sys_redis s')
        \<longrightarrow> process_status (sp_end out) = 0
          \<and> within_capacity t' (sys_db s') \<and> within_quota t' (sys_db s')
          \<and> (''  accounted         '' @ int_text (fl_users fl) @ '' / '' @ int_text (fl_users fl)) \<in> set (sp_stdout out)
          \<and> verdict sn \<in> {''PASS'', ''UNKNOWN (could not read capacity)''})"
  using assms(1)
proof cases
  case (reports fl' rest' cfg repos t1 s1 s2 scfg t2 s3 s4 st t3 s5 t4 s6 s7 sn' entries)
  have sn: "sn' = sn" using assms(2) reports(1) by simp
  have fl: "fl' = fl" using assms(3) reports(2) by simp
  have status: "process_status (sp_end out) = exit_status sn" by (simp add: assms(2) process_status_def)
  have shown: "seats_line sn \<in> set (sp_stdout out)" "accounted_line sn \<in> set (sp_stdout out)"
    using report_lines [where sn = sn and lib = lib] by (simp_all add: reports(1) sn)
  have sound: "\<not> sn_Oversold sn \<and> within_capacity t4 (sys_db s7) \<and> within_quota t4 (sys_db s7) \<and> int (users_of scfg) = fl_users fl"
    if careful: careful and inv: "store_inv (t, sys_db s)" and plan: "fl_reset fl \<or> fl_capacity fl = 0"
      and coh: "coherent event_cached (event_rows (sys_db s7)) (sys_redis s7)"
  proof -
    have "world_inv (t, s)" using inv by simp
    note kept = command_keeps_store [OF reports(7,9,10,11,12,14,15) [unfolded iffD2 [OF eq_True careful]] this plan [folded fl]]
    show ?thesis
      using runner_Snapshot_sound [OF reports(17) _ coh] runner_Snapshot_fields(1) [OF reports(17)] reports(16) kept sn fl
      by (simp add: store_inv_def)
  qed
  have books: "accounted_line sn = ''  accounted         '' @ int_text (fl_users fl) @ '' / '' @ int_text (fl_users fl)"
    if "int (users_of scfg) = fl_users fl"
    using all_finished_accounted [OF reports(12,13)] runner_Snapshot_fields(2,3) [OF reports(17)]
    by (simp add: accounted_line_def report_accounted_def int_text_def sn that [symmetric])
  have world: "t4 = t'" "s7 = s'" using assms(4) reports(1) by simp_all
  have ending: "process_status (sp_end out) = 1 \<longleftrightarrow> sn_Oversold sn" "\<not> sn_Oversold sn \<Longrightarrow> process_status (sp_end out) = 0"
    unfolding status by (simp_all add: exit_status_def)
  have verdicts: "sn_CapacityKnown sn \<Longrightarrow> verdict sn = ''OVERSOLD'' \<longleftrightarrow> sn_Oversold sn"
    "\<not> sn_Oversold sn \<Longrightarrow> verdict sn \<in> {''PASS'', ''UNKNOWN (could not read capacity)''}"
    by (simp_all add: verdict_def)
  have exact: "\<exists>ev. event_rows (sys_db s') (fl_event fl) = Some ev \<and> sn_Capacity sn = ev_Capacity ev
      \<and> sn_SeatsSold sn = int (active_seats t' (fl_event fl) (reservations_tbl (sys_db s')))
      \<and> (0 < ev_Capacity ev \<longrightarrow> (process_status (sp_end out) = 1 \<longleftrightarrow>
           unat (ev_Capacity ev) < active_seats t' (fl_event fl) (reservations_tbl (sys_db s'))))"
    if "sn_CapacityKnown sn" "sx_flt (re_snapshot en) SN_Sold = Done" "coherent event_cached (event_rows (sys_db s')) (sys_redis s')"
  proof -
    have db: "sys_db s6 = sys_db s'" using runner_Snapshot_fields(1) [OF reports(17)] by (simp add: world)
    show ?thesis
      by (rule runner_Snapshot_exact [OF reports(17)])
         (use that ending(1) db prepared_event [OF reports(9)] in \<open>simp_all add: world sn fl reports(16)\<close>)
  qed
  note sound = sound [unfolded world]
  show ?thesis
  proof (intro conjI impI, goal_cases)
    case 2
    then show ?case by (simp only: ending(1) verdicts(1))
  next
    case 4
    then show ?case by (intro exact) simp_all
  next
    case 9
    then have "\<not> sn_Oversold sn" using sound by blast
    then show ?case by (rule verdicts(2))
  next
    case 8
    then have "int (users_of scfg) = fl_users fl" using sound by blast
    then show ?case using books shown(2) by (simp only:)
  qed (use ending(1) shown(1) in \<open>blast intro: ending(2) dest: sound\<close>)+
qed (use assms(2) in simp_all)

theorem simulate_command_reports_truth_witness:
  "\<exists>out. simulate_main True demo_sim_server demo_lib id None demo_env demo_drivers demo_run_env [''-event=e1'', ''-users=1''] (5, demo_world) out
     \<and> process_status (sp_end out) = 0 \<and> ''  accounted         1 / 1'' \<in> set (sp_stdout out)"
proof -
  define scfg where "scfg = settle_config (cmd_config demo_sim_flags [''u9''])"
  obtain repos where repos: "snd (NewRepositories demo_drivers (read_config demo_lib demo_env)) = Some (Inr repos)"
    "rp_queue repos = sv_queue demo_sim_server" using demo_sim_connected by blast
  obtain s1 where prep: "sim_cmd_prepare (\<lambda>_. Done) Done demo_clock (\<lambda>_. ''x'') [''u9''] demo_sim_flags demo_world = (s1, Some (Inr scfg))"
    and flushed: "sys_redis s1 = empty_redis" using demo_sim_prepared unfolding scfg_def by blast
  have load: "Load demo_lib None demo_env = Inr (read_config demo_lib demo_env)" using demo_Load by blast
  have cfg: "sc_UserIds scfg = [''u9'']" "sc_MaxConcurrent scfg = 0" "sc_Transport scfg = TransportInProcess" "sc_EventId scfg = ''e1''"
    by (simp_all add: scfg_def settle_config_def cmd_config_def Let_def sim_flag_defaults_def)
  let ?cl = "runner_client demo_sim_server id scfg"
  let ?k = "demo_calls\<lparr>k_queue := (\<lambda>_. NotSent DeadlineExceeded)\<rparr>"
  define st0 where "st0 = sim_start (5 :: time, s1)"
  define st1 where "st1 = put 0 (Joining, (sm_run st0)\<lparr>started := Runner.started (sm_run st0) + 1\<rparr>, sm_world st0) st0"
  define st2 where "st2 = put 0 (join_step ?cl id ?k Done 0 (sc_UserIds scfg ! 0) (sm_run st1) (sm_world st1)) st1"
  have "sim_step ?cl id scfg (site_env True demo_sim_server) st0 st1"
    unfolding st1_def by (rule sim_step.start) (simp_all add: cfg st0_def sim_start_def)
  moreover have "sim_step ?cl id scfg (site_env True demo_sim_server) st1 st2"
    unfolding st2_def by (rule sim_step.join) (simp_all add: cfg st1_def put_def)
  ultimately have run: "(sim_step ?cl id scfg (site_env True demo_sim_server))\<^sup>*\<^sup>* (sim_start (5, s1)) st2"
    unfolding st0_def by auto
  have over: "sm_phase st2 0 = Finished" "sm_world st2 = (5, s1)"
    by (simp_all add: st2_def st1_def st0_def put_def sim_start_def join_step_def runner_client_def cfg TransportInProcess_def TransportHTTP_def
        inProcessClient_def in_world_def svc_Enqueue_def vqGetWhitelistedUserTTL_def)
  obtain s6 sn where snap: "runner_Snapshot scfg demo_snapshot_env (sm_run st2) (sm_run st2) True s1 = (s6, sn)" by fastforce
  define out where "out = \<lparr>sp_world = (5, s6), sp_stdout = run_headline demo_lib (read_config demo_lib demo_env) demo_sim_flags (users_of scfg)
      @ printReport demo_lib (re_text demo_run_env) sn (sn_ErrorCounts sn) (re_elapsed demo_run_env), sp_end = Reported sn\<rparr>"
  have main: "simulate_main True demo_sim_server demo_lib id None demo_env demo_drivers demo_run_env [''-event=e1'', ''-users=1''] (5, demo_world) out"
    unfolding out_def
    by (rule simulate_main.reports [OF demo_sim_Parse _ load repos rtranclp.rtrancl_refl _ _ rtranclp.rtrancl_refl _ run _ over(2)
          rtranclp.rtrancl_refl])
       (use prep snap over(1) in \<open>simp_all add: demo_run_env_def demo_snapshot_env_def demo_clock_def run_begin_def run_end_def cfg\<close>)
  have "sys_redis s6 = empty_redis"
    using runner_Snapshot_fields(1) [OF snap] flushed
    by (simp add: demo_snapshot_env_def repo_GetEvent_def rc_SetCache_def Let_def split: sum.split)
  then have "coherent event_cached (event_rows (sys_db (snd (sp_world out)))) (sys_redis (snd (sp_world out)))"
    by (simp add: out_def coherent_def event_cached_iff rget_def empty_redis_def)
  moreover have "store_inv (5, sys_db demo_world)" using demo_world_sound by (simp add: store_inv_def)
  moreover have "fl_reset demo_sim_flags" by (simp add: sim_flag_defaults_def)
  moreover have "int_text (fl_users demo_sim_flags) = ''1''" by code_simp
  ultimately show ?thesis
    using simulate_command_reports_truth [OF main _ demo_sim_Parse, of sn 5 s6] main by (auto simp: out_def)
qed

end
