(* ===== verification/Middleware.thy ===== *)
theory Middleware
  imports Routing
begin

text \<open>
  The packages \<open>logging\<close> and \<open>middleware\<close>: the level that \<open>LOG_LEVEL\<close> selects, the logger in the context of
  a request, and \<open>RequestLogger\<close>, which stands in front of every handler and writes one record per
  request. The wrapped response writer of chi is an argument with its law; the request id, the byte
  count, the duration and the remote address are arguments. Besides, the addresses that the load
  generator's HTTP client calls.
\<close>

section \<open>Levels and loggers\<close>

text \<open>The levels of \<open>log/slog\<close>.\<close>

definition LevelDebug :: int where "LevelDebug = - 4"
definition LevelInfo :: int where "LevelInfo = 0"
definition LevelWarn :: int where "LevelWarn = 4"
definition LevelError :: int where "LevelError = 8"

text \<open>
  \<open>strings.ToUpper\<close> as far as the result can be ASCII: the ASCII letters, and the two letters outside ASCII
  (dotless i, long s) whose upper case is an ASCII letter.
\<close>

fun ToUpper :: "string \<Rightarrow> string" where
  "ToUpper [] = []"
| "ToUpper (c # cs) =
     (if c = CHR 0xC4 \<and> cs \<noteq> [] \<and> hd cs = CHR 0xB1 then CHR ''I'' # ToUpper (drop 1 cs)
      else if c = CHR 0xC5 \<and> cs \<noteq> [] \<and> hd cs = CHR 0xBF then CHR ''S'' # ToUpper (drop 1 cs)
      else (if (97::nat) \<le> of_char c \<and> of_char c \<le> (122::nat) then char_of (of_char c - (32::nat)) else c) # ToUpper cs)"

definition level_named :: "string \<Rightarrow> int option" where
  "level_named name =
     (let n = ToUpper name in
      if n = ''DEBUG'' then Some LevelDebug else if n = ''INFO'' then Some LevelInfo
      else if n = ''WARN'' then Some LevelWarn else if n = ''ERROR'' then Some LevelError else None)"

text \<open>\<open>Level.UnmarshalText\<close>: a name, and an offset from the first sign on.\<close>

definition parse_level :: "string \<Rightarrow> int option" where
  "parse_level s =
     (let name = takeWhile (\<lambda>c. c \<noteq> CHR ''+'' \<and> c \<noteq> CHR ''-'') s;
          rest = dropWhile (\<lambda>c. c \<noteq> CHR ''+'' \<and> c \<noteq> CHR ''-'') s
      in case (if rest = [] then Some 0 else Atoi rest) of
           None \<Rightarrow> None
         | Some offset \<Rightarrow> map_option (\<lambda>l. wrap_i64 (l + offset)) (level_named name))"

datatype attr = AString string | AInt int

record logger =
  lg_level :: int
  lg_attrs :: "(string \<times> attr) list"

definition logging_New :: "string \<Rightarrow> logger" where
  "logging_New level = \<lparr>lg_level = (case parse_level level of None \<Rightarrow> LevelInfo | Some l \<Rightarrow> l), lg_attrs = []\<rparr>"

definition With :: "logger \<Rightarrow> (string \<times> attr) list \<Rightarrow> logger" where
  "With l attrs = l\<lparr>lg_attrs := lg_attrs l @ attrs\<rparr>"

text \<open>The value that a context holds under the package's own key.\<close>

type_synonym log_context = "logger option"

definition WithContext :: "log_context \<Rightarrow> logger \<Rightarrow> log_context" where
  "WithContext ctx l = Some l"

definition FromContext :: "logger \<Rightarrow> log_context \<Rightarrow> logger" where
  "FromContext deflt ctx = (case ctx of Some l \<Rightarrow> l | None \<Rightarrow> deflt)"

record log_record =
  lr_level :: int
  lr_msg :: string
  lr_attrs :: "(string \<times> attr) list"

text \<open>A record below the level of the handler is not written.\<close>

definition Log :: "logger \<Rightarrow> int \<Rightarrow> string \<Rightarrow> (string \<times> attr) list \<Rightarrow> log_record list \<Rightarrow> log_record list" where
  "Log l level msg attrs out =
     (if lg_level l \<le> level then out @ [\<lparr>lr_level = level, lr_msg = msg, lr_attrs = lg_attrs l @ attrs\<rparr>] else out)"

section \<open>The request log\<close>

text \<open>
  What a handler did to the response writer: the status it wrote, or nothing, in which case the server
  answers 200 on its own. \<open>ww\<close> is \<open>Status()\<close> of chi's wrapper, which answers 0 in that case.
\<close>

definition ww_laws :: "(nat option \<Rightarrow> nat) \<Rightarrow> bool" where
  "ww_laws ww \<longleftrightarrow> (\<forall>st. ww (Some st) = st) \<and> ww None = 0"

fun writes_nothing :: "route \<Rightarrow> bool" where
  "writes_nothing R_CreateEventBulk = True"
| "writes_nothing (R_UpdateEvent _) = True"
| "writes_nothing (R_DeleteEvent _) = True"
| "writes_nothing (R_UpdateReservation _) = True"
| "writes_nothing (R_DeleteReservation _) = True"
| "writes_nothing _ = False"

definition written :: "route \<Rightarrow> response \<Rightarrow> nat option" where
  "written rt res = (if writes_nothing rt then None else Some (rs_status res))"

fun verb_text :: "verb \<Rightarrow> string" where
  "verb_text GET = ''GET''" | "verb_text POST = ''POST''" | "verb_text PATCH = ''PATCH''" | "verb_text DELETE = ''DELETE''"

definition path_text :: "string list \<Rightarrow> string" where
  "path_text p = concat (map (\<lambda>s. ''/'' @ s) p)"

record request_info =
  ri_id :: string
  ri_method :: verb
  ri_path :: "string list"
  ri_remote :: string

text \<open>The handler runs with the request's logger in its context.\<close>

definition RequestLogger ::
  "(nat option \<Rightarrow> nat) \<Rightarrow> logger \<Rightarrow> request_info \<Rightarrow> int \<Rightarrow> duration \<Rightarrow> log_context
    \<Rightarrow> (log_context \<Rightarrow> 's \<Rightarrow> 's \<times> response \<times> nat option) \<Rightarrow> 's \<Rightarrow> log_record list \<Rightarrow> 's \<times> response \<times> log_record list" where
  "RequestLogger ww base ri bytes took ctx handler s out =
     (let reqLogger = With base [(''request_id'', AString (ri_id ri)), (''method'', AString (verb_text (ri_method ri))),
            (''path'', AString (path_text (ri_path ri)))]
      in case handler (WithContext ctx reqLogger) s of
           (s', res, wrote) \<Rightarrow>
             (s', res, Log reqLogger (if path_text (ri_path ri) = ''/health'' then LevelDebug else LevelInfo) ''http request''
                [(''status'', AInt (int (ww wrote))), (''bytes'', AInt bytes), (''duration_ms'', AInt (took div Millisecond)),
                 (''remote_addr'', AString (ri_remote ri))] out))"

text \<open>A route of the API behind the logger; what its handlers log on their own is left out.\<close>

definition logged_serve ::
  "'l server \<Rightarrow> circumstances \<Rightarrow> route \<Rightarrow> request \<Rightarrow> log_context \<Rightarrow> 'l sys \<Rightarrow> 'l sys \<times> response \<times> nat option" where
  "logged_serve sv k rt rq ctx s = (case serve sv k rt rq s of (s', res) \<Rightarrow> (s', res, written rt res))"

text \<open>\<open>RequireAuth\<close> gives the handler behind it a logger that names the user.\<close>

definition auth_context :: "logger \<Rightarrow> log_context \<Rightarrow> UserDto \<Rightarrow> log_context" where
  "auth_context deflt ctx user = WithContext ctx (With (FromContext deflt ctx) [(''user_id'', AString (ud_Id user))])"

lemma writes_nothing_empty: "writes_nothing rt \<Longrightarrow> serve sv k rt rq s = (s, \<lparr>rs_status = StatusOK, rs_body = None\<rparr>)"
  by (cases rt) (simp_all add: serve_def emptyHandler_def)

lemma health_path: "path_text (snd (request_line rt)) = ''/health'' \<longleftrightarrow> rt = R_Health"
  by (cases rt) (simp_all add: path_text_def)

section \<open>Which records are written\<close>

lemma upper_names:
  "ToUpper ''info'' = ''INFO''" "ToUpper ''INFO'' = ''INFO''" "ToUpper ''debug'' = ''DEBUG''" "ToUpper ''warn'' = ''WARN''"
  "ToUpper ''error'' = ''ERROR''" "ToUpper ''verbose'' = ''VERBOSE''"
  by code_simp+

lemma level_names:
  "parse_level ''info'' = Some 0" "parse_level ''INFO'' = Some 0" "parse_level ''debug'' = Some (- 4)" "parse_level ''warn'' = Some 4"
  "parse_level ''error'' = Some 8" "parse_level [] = None" "parse_level ''verbose'' = None" "parse_level ''warn-4'' = Some 0"
  by (simp_all add: parse_level_def level_named_def Let_def upper_names wrap_i64_id LevelDebug_def LevelInfo_def LevelWarn_def LevelError_def
      Atoi_def is_digit_def decimal_def digit_val_def del: ToUpper.simps(2))

section \<open>The addresses of the load generator\<close>

text \<open>The method and the address of each call of the HTTP client.\<close>

definition client_calls :: "http_settings \<Rightarrow> string \<Rightarrow> (route \<times> verb \<times> string) list" where
  "client_calls hc eventId =
     [(R_Enqueue, POST, hc_baseURL hc @ ''/virtual-queues/enqueue''),
      (R_Ping, POST, hc_baseURL hc @ ''/virtual-queues/ping''),
      (R_Reserve eventId, POST, hc_baseURL hc @ ''/events/'' @ eventId @ ''/reserve''),
      (R_Dequeue, POST, hc_baseURL hc @ ''/virtual-queues/dequeue'')]"

lemma TrimSuffix_append: "TrimSuffix (s @ suffix) suffix = s"
  by (simp add: TrimSuffix_def)

text \<open>
  Every call of the load generator goes to the request line of the route that the model of the client
  calls, whether or not the base address was given with a slash at its end.
\<close>

lemma client_calls_reach_routes:
  assumes "(rt, m, url) \<in> set (client_calls (newHTTPClient (origin @ slash) workers) eventId)" and "slash = ''/'' \<or> slash = [] \<and> TrimSuffix origin ''/'' = origin"
  shows "m = fst (request_line rt) \<and> url = origin @ path_text (snd (request_line rt))"
proof -
  have "hc_baseURL (newHTTPClient (origin @ slash) workers) = origin"
    using assms(2) TrimSuffix_append [of origin "''/''"] by (auto simp: newHTTPClient_def Let_def)
  then show ?thesis using assms(1) by (auto simp: client_calls_def path_text_def)
qed

section \<open>Properties\<close>

text \<open>
  C40: the request log is faithful and harmless. For every route and request, with the logger built
  from any \<open>LOG_LEVEL\<close>, the logger in front changes neither the answer nor the state; it appends at most one
  record, and does so exactly when the level admits it: at the default level, at \<open>debug\<close> and with an unreadable level
  for every route but the health check, at \<open>debug\<close> for the health check too. The record names the method and the
  path and carries the status that the client receives, except for the handlers that are empty in the
  source, whose status 200 is logged as 0.
\<close>

theorem requests_logged_faithfully:
  assumes "ww_laws ww" and "request_line rt = (ri_method ri, ri_path ri)"
    and "RequestLogger ww (logging_New level) ri bytes took ctx (logged_serve sv k rt rq) s out = (s', res, out')"
    and "serve sv k rt rq s = (s1, res1)"
  shows "s' = s1 \<and> res = res1
    \<and> (out' = out \<or> (\<exists>rec. out' = out @ [rec] \<and> lr_msg rec = ''http request''
          \<and> map_of (lr_attrs rec) ''method'' = Some (AString (verb_text (ri_method ri)))
          \<and> map_of (lr_attrs rec) ''path'' = Some (AString (path_text (ri_path ri)))
          \<and> map_of (lr_attrs rec) ''status'' = Some (AInt (if writes_nothing rt then 0 else int (rs_status res)))))
    \<and> (writes_nothing rt \<longrightarrow> rs_status res = StatusOK)
    \<and> (out' \<noteq> out \<longleftrightarrow> lg_level (logging_New level) \<le> (if rt = R_Health then LevelDebug else LevelInfo))
    \<and> (parse_level level = None \<or> level = ''info'' \<longrightarrow> (out' \<noteq> out \<longleftrightarrow> rt \<noteq> R_Health))"
proof -
  define reqLogger where "reqLogger = With (logging_New level) [(''request_id'', AString (ri_id ri)),
    (''method'', AString (verb_text (ri_method ri))), (''path'', AString (path_text (ri_path ri)))]"
  define attrs where "attrs = [(''status'', AInt (int (ww (written rt res1)))), (''bytes'', AInt bytes),
    (''duration_ms'', AInt (took div Millisecond)), (''remote_addr'', AString (ri_remote ri))]"
  define lvl where "lvl = (if rt = R_Health then LevelDebug else LevelInfo)"
  have path: "path_text (ri_path ri) = ''/health'' \<longleftrightarrow> rt = R_Health" using health_path [of rt] assms(2) by simp
  have "RequestLogger ww (logging_New level) ri bytes took ctx (logged_serve sv k rt rq) s out =
      (s1, res1, Log reqLogger lvl ''http request'' attrs out)"
    unfolding RequestLogger_def logged_serve_def assms(4) Let_def path prod.case reqLogger_def attrs_def lvl_def ..
  then have out: "s' = s1" "res = res1" "out' = Log reqLogger lvl ''http request'' attrs out"
    using assms(3) by simp_all
  have status: "ww (written rt res1) = (if writes_nothing rt then 0 else rs_status res1)"
    using assms(1) by (simp add: ww_laws_def written_def)
  have level: "lg_level reqLogger = lg_level (logging_New level)" by (simp add: reqLogger_def With_def)
  have added: "out' \<noteq> out \<longleftrightarrow> lg_level (logging_New level) \<le> lvl" by (simp add: out(3) Log_def level)
  have rec: "out' = out \<or> out' = out @ [\<lparr>lr_level = lvl, lr_msg = ''http request'', lr_attrs = lg_attrs reqLogger @ attrs\<rparr>]"
    by (simp add: out(3) Log_def)
  have keys: "map_of (lg_attrs reqLogger @ attrs) ''method'' = Some (AString (verb_text (ri_method ri)))"
    "map_of (lg_attrs reqLogger @ attrs) ''path'' = Some (AString (path_text (ri_path ri)))"
    "map_of (lg_attrs reqLogger @ attrs) ''status'' = Some (AInt (if writes_nothing rt then 0 else int (rs_status res)))"
    by (simp_all add: reqLogger_def attrs_def With_def logging_New_def status out(2))
  have default: "lg_level (logging_New level) = LevelInfo" if "parse_level level = None \<or> level = ''info''"
    using that level_names(1) by (auto simp: logging_New_def LevelInfo_def)
  have quiet: "rs_status res = StatusOK" if "writes_nothing rt"
    using writes_nothing_empty [OF that, of sv k rq s] assms(4) out(2) by simp
  show ?thesis
  proof (intro conjI impI, goal_cases)
    case 3
    show ?case using rec
    proof
      assume "out' = out @ [\<lparr>lr_level = lvl, lr_msg = ''http request'', lr_attrs = lg_attrs reqLogger @ attrs\<rparr>]"
      then show ?thesis using keys by (intro disjI2 exI conjI) (assumption, simp_all only: log_record.simps)
    qed (rule disjI1)
  next
    case 4
    then show ?case by (rule quiet)
  next
    case 6
    then show ?case using added default by (simp add: lvl_def LevelInfo_def LevelDebug_def)
  qed (simp_all only: out(1,2) added lvl_def)
qed

theorem requests_logged_faithfully_witness:
  "snd (snd (RequestLogger (\<lambda>wrote. case wrote of None \<Rightarrow> 0 | Some st \<Rightarrow> st) (logging_New ''info'')
     \<lparr>ri_id = ''r'', ri_method = PATCH, ri_path = [''events'', ''e1''], ri_remote = ''h''\<rparr> 0 0 None
     (logged_serve demo_server demo_calls (R_UpdateEvent ''e1'') \<lparr>rq_authorization = [], rq_limit = [], rq_body = None\<rparr>)
     (demo_sys [] empty_redis (\<lambda>_. None)) [])) \<noteq> []"
proof -
  let ?ww = "\<lambda>wrote. case wrote of None \<Rightarrow> 0 | Some st \<Rightarrow> (st :: nat)" and ?s = "demo_sys [] empty_redis (\<lambda>_. None)"
  let ?ri = "\<lparr>ri_id = ''r'', ri_method = PATCH, ri_path = [''events'', ''e1''], ri_remote = ''h''\<rparr>"
  let ?rq = "\<lparr>rq_authorization = [], rq_limit = [], rq_body = None\<rparr>"
  have laws: "ww_laws ?ww" by (simp add: ww_laws_def)
  obtain s' res out' where run: "RequestLogger ?ww (logging_New ''info'') ?ri 0 0 None
      (logged_serve demo_server demo_calls (R_UpdateEvent ''e1'') ?rq) ?s [] = (s', res, out')" by (metis prod.exhaust)
  obtain s1 res1 where srv: "serve demo_server demo_calls (R_UpdateEvent ''e1'') ?rq ?s = (s1, res1)" by fastforce
  have "request_line (R_UpdateEvent ''e1'') = (ri_method ?ri, ri_path ?ri)" by simp
  from requests_logged_faithfully [OF laws this run srv] have "out' \<noteq> []" by blast
  then show ?thesis unfolding run by simp
qed

end
