(* ===== verification/Spec2Isabelle.thy ===== *)
theory Spec2Isabelle
  imports Interleaving Lifecycle Journey Fairness SimCommand Middleware
begin

text \<open>
  Verification of the ticketing backend under \<open>src/backend\<close>: a Go service that sells seats of events to
  users who wait in a line, with Postgres as the record of reservations and Redis for the line, the
  admission slots, the caches and the sold-out flag.

  \<^bold>\<open>The parts and how they interact.\<close> A request reaches a handler (\<open>handler/\<close>) through the router and,
  for most routes, through authentication by bearer token (\<open>middleware/auth.go\<close>). Handlers call services
  (\<open>service/\<close>), services call repositories (\<open>repository/\<close>), repositories send SQL statements, Redis commands
  and Lua scripts. A user enqueues for an event, is admitted to one of a bounded number of slots when there
  is room, reserves seats within the slot's time, and confirms or releases the hold before it runs out. Two
  tickers work in the background: the promoter admits waiting users, the sweep expires holds. The demo
  routes (\<open>handler/admin\<close>) and the tools under \<open>cmd/\<close> mint data, reset it, migrate the schema and run a load
  generator (\<open>simulation/\<close>) against the same services.

  \<^bold>\<open>Theories, in the order of dependence.\<close>

  \<^item> \<open>Prelude\<close>: machine integers, time, the error values, the outcome of a call that leaves the process
    (\<open>io\<close>: carried out, not sent, or carried out with the reply lost), list and word lemmas, and the locale
    \<open>inductive_invariant\<close> that every state machine below interprets.
  \<^item> \<open>GoText\<close>: the number, boolean, duration and JSON formats of Go's library that the program reads.
  \<^item> \<open>Redis\<close>: the Redis commands in use, over one keyspace with deadlines; locale \<open>deadline_store\<close>.
  \<^item> \<open>Schema\<close>: rows, tables and constraints of \<open>migrations/\<close>; \<open>pg_wf\<close> is what the schema guarantees.
  \<^item> \<open>PostgresReservation\<close>: the transactions of \<open>postgresReservationRepository.go\<close> (\<open>pg_ReserveEvent\<close>,
    \<open>pg_UpdateReservation\<close>, \<open>pg_RefreshEventStatus\<close>, the reads), the invariant \<open>store_inv\<close> (schema, capacity,
    per-user limit), a reference decision that \<open>ReserveEvent\<close> refines, exactness of the \<open>uint32\<close> additions,
    the life of one row, replay by idempotency key, the exact effect of the sweep.
  \<^item> \<open>Interleaving\<close>: the same transactions split at their statements and run concurrently under READ
    COMMITTED with the row lock of \<open>SELECT ... FOR UPDATE\<close>; no oversell, no deadlock, and the one gap: a confirm
    whose \<open>now()\<close> was taken before the hold ran out and whose update comes after the seats were sold again.
  \<^item> \<open>VirtualQueue\<close>: the Lua scripts and the repository of \<open>repository/virtualqueues\<close>, one promoter run; the
    cap on admitted users, the admission loop against a reference, the effect of enqueue, dequeue and ping,
    the promoter filling the gate; locale \<open>admission_gate\<close>.
  \<^item> \<open>Fairness\<close>: the line as its users see it, with everybody else as the environment (\<open>others_step\<close>): who is
    ahead stays ahead and nobody else does, a slot is never lost to others, and the promoter reaches everybody.
  \<^item> \<open>Config\<close>: \<open>config.Load\<close> and what an accepted configuration guarantees of the queue.
  \<^item> \<open>ReservationRepo\<close>: the sold-out flag in the local LRU and in Redis, the cached answers, the sweep lock,
    and the repository over Postgres, Redis and LRU.
  \<^item> \<open>Events\<close>, \<open>Users\<close>: their repositories and services; locale \<open>cache_aside\<close> is the read path through Redis.
  \<^item> \<open>Services\<close>: the use cases of \<open>service/reservations\<close> and \<open>service/virtualqueues\<close>: who may reserve, what
    becomes of the slot on every path, idempotent confirmation.
  \<^item> \<open>Http\<close>, \<open>Handlers\<close>, \<open>Server\<close>: requests, responses, authentication, one definition per handler, \<open>serve\<close>,
    and the properties of a request: whose rows it can change, and that a protected route is closed to every token that is not
    genuine (\<open>jwt_sound\<close>).
  \<^item> \<open>SimClient\<close>, \<open>Simulation\<close>, \<open>SimProperties\<close>: the load generator with its two transports (locale
    \<open>sim_client\<close>), its users as interleaved goroutines, its counters, percentiles and snapshot.
  \<^item> \<open>Registry\<close>: the registry of simulation runs with its timers.
  \<^item> \<open>Admin\<close>, \<open>AdminProperties\<close>: the demo routes and what they promise.
  \<^item> \<open>Commands\<close>: the tools \<open>migrate\<close> and \<open>seed\<close>, and the preparation and the verdict of \<open>simulate\<close>.
  \<^item> \<open>Flags\<close>: the \<open>flag\<close> package as the tools use it, the flags of \<open>simulate\<close>, and that writing and parsing them is
    the identity.
  \<^item> \<open>SimCommand\<close>: \<open>cmd/simulate\<close> as a process (\<open>simulate_main\<close>): arguments, configuration, preparation, run, the
    full snapshot, every line of the report, the exit status; what the report says is true.
  \<^item> \<open>Routing\<close>: the tables of routes that the \<open>NewHandler\<close> functions register, dispatched by chi, and the
    server's timeouts.
  \<^item> \<open>Middleware\<close>: log levels, the logger in the context, the request log in front of every handler, and the
    addresses that the load generator calls.
  \<^item> \<open>Journey\<close>: a purchase from end to end, from the request to join the line to the confirmed row.
  \<^item> \<open>Site\<close>: the API, the demo routes and the runs they start as one state machine (\<open>site_step\<close>): no oversell, for the site
    and for a simulation on it, as long as the simulation requests that change a capacity are \<open>prudent\<close>.
  \<^item> \<open>Lifecycle\<close>: start, serving and shutdown of the process with the two tickers.

  \<^bold>\<open>State and effects.\<close> The state of a running system is the record \<open>sys\<close>: the database \<open>pg\<close>, the Redis keyspace
  and the local LRU. An operation that leaves the process takes an argument that tells for each of its calls
  what became of it, so that every theorem about it holds for every combination of failures; a transaction
  whose commit loses its reply has taken place although the caller sees an error. Clocks are arguments: the
  process, the Redis server and the database have readings of their own (\<open>clocks\<close>). Time and durations are
  integers counting nanoseconds. \<open>uint32\<close> and \<open>uint64\<close> are words; where the code converts to \<open>int64\<close> the
  wrap-around is written out. Errors are the constructors of \<open>go_error\<close>; an error wrapped with \<open>%w\<close> stays the
  error that \<open>errors.Is\<close> finds.

  \<^bold>\<open>State machines.\<close> The serialised store, the interleaved transactions, the line and its gate, the services, the
  site, the simulation, the registry and the process are step relations; each interprets
  \<open>inductive_invariant\<close> with its invariant, and the safety properties are the reachable-state facts of these
  interpretations. The services simulate the store (\<open>svc_step_simulated\<close>) the site is made of the API's steps, the demo
  requests and the steps of runs, and the process simulates the
  site (\<open>process_step_site\<close>), so that the invariants of the lower machines carry over. Two ways to oversell are known and excluded by
  hypotheses that the properties state: a confirm that commits after the deadline (\<open>late_confirm_oversells\<close>; \<open>careful\<close> in
  \<open>Interleaving\<close>), and a simulation request that lowers the capacity below the active seats
  (\<open>failed_simulation_oversells\<close>; \<open>careful\<close> and \<open>prudent\<close> in \<open>Site\<close>). The site's steps are whole requests and calls; the
  interleaving of the statements of transactions is the subject of \<open>Interleaving\<close> alone.

  \<^bold>\<open>Loops.\<close> Every loop but one is a total function. The admission loop of the Lua script ends because each pass removes at
  least one member of the line; the parsers recurse on what is left of their input. The polling loop of a
  simulated user (\<open>waitForAdmission\<close>) is a \<open>partial_function (option)\<close>, where \<open>None\<close> is a loop that does not return; it is proved to return
  because \<open>settle_config\<close> makes its interval positive, as long as the interval is at most \<open>2^62\<close> nanoseconds, beyond which the
  \<open>int64\<close> sum with the jitter may wrap, or its calls take time. No fuel is used. The
  shutdown is not bounded by a number of steps (a \<open>select\<close> may prefer a waiting tick to the stop message), so
  what is shown is that from every state it can finish.

  \<^bold>\<open>Modelling choices.\<close> A Lua script is one atomic step; its numbers are integers, which doubles represent
  exactly below \<open>2^53\<close>. A key whose deadline has passed is invisible to reads, and the server may remove it at
  any moment. Text that is not a UUID is rejected before a statement is carried out, which is the outcome
  \<open>NotSent\<close>. JSON documents in Redis and request bodies are the values they encode; writing a response does not
  fail. Requests that share one lookup through \<open>singleflight\<close> see the outcome of one call. A request reads its
  clocks once. Third-party code is an argument with its documented laws as hypotheses: the LRU (\<open>lru_laws\<close>), the
  JWT library (\<open>jwt_laws\<close>, \<open>jwt_sound\<close>), bcrypt, the migration library, the chi router (\<open>chi_laws\<close>) and its response writer
  (\<open>ww_laws\<close>), the drivers at start-up, the statistics of the connection pools;
  each property with such a hypothesis has a witness over a concrete instance.

  \<^bold>\<open>Not modelled.\<close> The records that handlers and repositories log on their own, which only produce output;
  \<open>service/main.go\<close>, which passes the repositories on; the interfaces and the methods that forward to one
  method of the same name, which are that method here; the decimal text of \<open>float64\<close> values; CORS,
  request ids and panic recovery, which are library middleware; the pool's waiting inside \<open>Pool.Close\<close> for
  connections that a late handler still holds; the frontend, the documentation, the seeds and the container
  files. Fairness of schedulers and of Postgres' lock queue is not assumed, so liveness is stated as what can
  happen from every reachable state, or as the effect of one run of an operation.
\<close>

end
